(* ===== verification/Prelude.thy ===== *)
theory Prelude
  imports Main "HOL-Library.Word" "HOL-Library.Multiset"
begin

unbundle bit_operations_syntax

text \<open>
  Shared vocabulary of the development: the fixed-width integers and byte strings of the Rust
  sources, the pieces of the Rust standard library that several modules use (iterator
  \<open>position\<close>, \<open>VecDeque::remove\<close>, big-endian integer conversion, time), and the generic
  lemmas about them that the component theories rely on.
\<close>

section \<open>Machine types\<close>

type_synonym u8 = "8 word"
type_synonym u16 = "16 word"
type_synonym u32 = "32 word"
type_synonym u64 = "64 word"
type_synonym u128 = "128 word"
type_synonym bytes = "u8 list"

text \<open>
  An \<open>Instant\<close> is a number of nanoseconds of the monotonic clock; \<open>Instant::elapsed\<close> and
  \<open>duration_since\<close> saturate at zero, as subtraction on \<open>nat\<close> does. The current time is an
  explicit argument \<open>now\<close> of every operation that reads a clock.
\<close>

type_synonym instant = nat

definition duration_from_secs :: "nat \<Rightarrow> nat" where
  "duration_from_secs s = s * 1000000000"

definition elapsed :: "instant \<Rightarrow> instant \<Rightarrow> nat" where
  "elapsed now t = now - t"

named_theorems state_simps \<open>selector and frame equations of the model's state-changing operations\<close>
named_theorems wf_intros \<open>well-formedness and invariant preservation rules\<close>

section \<open>Results\<close>

text \<open>\<open>Result<A, E>\<close> is the sum \<open>'e + 'a\<close>; \<open>and_then r f\<close> is \<open>f(r?)\<close>.\<close>

definition and_then :: "'e + 'a \<Rightarrow> ('a \<Rightarrow> 'e + 'b) \<Rightarrow> 'e + 'b" where
  "and_then r f = (case r of Inl e \<Rightarrow> Inl e | Inr a \<Rightarrow> f a)"

definition unwrap_or_false :: "'e + bool \<Rightarrow> bool" where
  "unwrap_or_false r = (case r of Inl _ \<Rightarrow> False | Inr b \<Rightarrow> b)"

lemma and_then_simps [simp]: "and_then (Inl e) f = Inl e" "and_then (Inr a) f = f a"
  by (simp_all add: and_then_def)

lemma and_then_eq_Inr: "and_then r f = Inr b \<longleftrightarrow> (\<exists>a. r = Inr a \<and> f a = Inr b)"
  by (cases r) simp_all

lemma unwrap_or_false_iff [simp]: "unwrap_or_false r \<longleftrightarrow> r = Inr True"
  by (cases r) (simp_all add: unwrap_or_false_def)

section \<open>Positions in lists\<close>

primrec position :: "('a \<Rightarrow> bool) \<Rightarrow> 'a list \<Rightarrow> nat option" where
  "position P [] = None"
| "position P (x # xs) = (if P x then Some 0 else map_option Suc (position P xs))"

definition remove_at :: "nat \<Rightarrow> 'a list \<Rightarrow> 'a list" where
  "remove_at i xs = take i xs @ drop (Suc i) xs"

lemma position_None_iff: "position P xs = None \<longleftrightarrow> (\<forall>x \<in> set xs. \<not> P x)"
  by (induction xs) auto

lemma position_SomeD:
  "position P xs = Some i \<Longrightarrow> i < length xs \<and> P (xs ! i) \<and> (\<forall>j < i. \<not> P (xs ! j))"
proof (induction xs arbitrary: i)
  case Nil
  then show ?case by simp
next
  case (Cons x xs)
  show ?case
  proof (cases "P x")
    case True
    with Cons.prems show ?thesis by simp
  next
    case False
    with Cons.prems obtain j where "position P xs = Some j" "i = Suc j" by auto
    with Cons.IH [of j] False show ?thesis
      by (auto simp: less_Suc_eq_0_disj)
  qed
qed

lemma position_Some_exists: "position P xs = Some i \<Longrightarrow> \<exists>x \<in> set xs. P x"
  by (metis nth_mem position_SomeD)

lemma ex_position: "x \<in> set xs \<Longrightarrow> P x \<Longrightarrow> \<exists>i. position P xs = Some i"
  by (meson position_None_iff option.exhaust_sel)

lemma position_append:
  "position P (xs @ ys) =
     (case position P xs of Some i \<Rightarrow> Some i | None \<Rightarrow> map_option ((+) (length xs)) (position P ys))"
proof (induction xs)
  case Nil
  have "(+) (0::nat) = id" by (simp add: fun_eq_iff)
  then show ?case by (simp add: option.map_id split: option.split)
next
  case (Cons x xs)
  then show ?case by (cases "position P xs"; cases "position P ys") auto
qed

lemma length_remove_at [simp]: "i < length xs \<Longrightarrow> length (remove_at i xs) = length xs - 1"
  by (simp add: remove_at_def)

lemma remove_at_Cons [simp]:
  "remove_at 0 (x # xs) = xs" "remove_at (Suc i) (x # xs) = x # remove_at i xs"
  by (simp_all add: remove_at_def)

lemma set_remove_at_subset: "set (remove_at i xs) \<subseteq> set xs"
  by (auto simp: remove_at_def dest: in_set_takeD in_set_dropD)

text \<open>
  With pairwise distinct keys, removing the element found at a key's position is the filter
  that drops that key: the form the container proofs use.
\<close>

lemma remove_at_position_filter:
  assumes "distinct (map f xs)" and "position (\<lambda>x. f x = k) xs = Some i"
  shows "remove_at i xs = filter (\<lambda>x. f x \<noteq> k) xs"
  using assms
proof (induction xs arbitrary: i)
  case Nil
  then show ?case by simp
next
  case (Cons x xs)
  show ?case
  proof (cases "f x = k")
    case True
    with Cons.prems(1) have "\<forall>y \<in> set xs. f y \<noteq> k" by (auto simp: image_iff)
    then have "filter (\<lambda>y. f y \<noteq> k) xs = xs" by simp
    with True Cons.prems show ?thesis by simp
  next
    case False
    with Cons.prems obtain j where "position (\<lambda>x. f x = k) xs = Some j" "i = Suc j" by auto
    with Cons.IH [of j] Cons.prems False show ?thesis by simp
  qed
qed

lemma length_filter_key_less:
  "x \<in> set xs \<Longrightarrow> f x = k \<Longrightarrow> length (filter (\<lambda>y. f y \<noteq> k) xs) < length xs"
  by (rule length_filter_less) auto

lemma distinct_map_filterI: "distinct (map f xs) \<Longrightarrow> distinct (map f (filter P xs))"
  by (rule distinct_map_filter)

lemma distinct_map_remove1I: "distinct (map f xs) \<Longrightarrow> distinct (map f (remove1 x xs))"
  by (induction xs) (auto dest: in_set_remove1 [THEN iffD1] simp: image_iff
      dest!: subsetD [OF set_remove1_subset])

lemma length_remove1_le: "length (remove1 x xs) \<le> length xs"
  by (simp add: length_remove1)

section \<open>Sorting by a key and keeping a prefix\<close>

lemma set_take_sort_subset: "set (take k (sort_key f xs)) \<subseteq> set xs"
  by (metis set_sort set_take_subset)

lemma take_sort_key_le:
  assumes "x \<in> set (take k (sort_key f xs))" and "y \<in> set xs"
    and "y \<notin> set (take k (sort_key f xs))"
  shows "f x \<le> f y"
proof -
  let ?s = "sort_key f xs"
  have split: "?s = take k ?s @ drop k ?s" by simp
  have "y \<in> set ?s" using assms(2) by simp
  then have "y \<in> set (drop k ?s)"
    using assms(3) split by (metis UnE set_append)
  moreover have "sorted (map f (take k ?s) @ map f (drop k ?s))"
    by (metis map_append split sorted_sort_key)
  ultimately show ?thesis
    using assms(1) unfolding sorted_append by auto
qed

lemma distinct_map_sort_key: "distinct (map g (sort_key f xs)) \<longleftrightarrow> distinct (map g xs)"
  by (rule mset_eq_imp_distinct_iff) simp

section \<open>Exclusive or on words\<close>

lemma xor_cancel_left [simp]: "(x :: 'a::len word) XOR (x XOR y) = y"
  by (simp flip: xor.assoc)

lemma xor_eq_zero_iff [simp]: "(x :: 'a::len word) XOR y = 0 \<longleftrightarrow> x = y"
proof
  assume "x XOR y = 0"
  then have "x XOR (x XOR y) = x" by simp
  then show "x = y" by simp
qed simp

lemma xor_left_inject [simp]: "(x :: 'a::len word) XOR y = x XOR z \<longleftrightarrow> y = z"
  by (metis xor_cancel_left)

lemma unat_xor_le_add: "unat ((x :: 'a::len word) XOR y) \<le> unat x + unat y"
proof -
  let ?a = "uint x" and ?b = "uint y"
  have "(?a XOR ?b) AND (?a AND ?b) = 0"
    by (rule bit_eqI) (auto simp: bit_simps)
  then have "(?a XOR ?b) + (?a AND ?b) = (?a XOR ?b) OR (?a AND ?b)"
    by (rule disjunctive_add_eq_or)
  also have "\<dots> = ?a OR ?b"
    by (rule bit_eqI) (auto simp: bit_simps)
  finally have "(?a XOR ?b) + 2 * (?a AND ?b) = ?a + ?b"
    using plus_and_or [of ?a ?b] by simp
  moreover have "0 \<le> ?a AND ?b" by simp
  moreover have "p \<le> s" if "p + 2 * q = s" "0 \<le> q" for p q s :: int
    using that by linarith
  ultimately have "uint (x XOR y) \<le> uint x + uint y"
    unfolding uint_xor by blast
  then show ?thesis
    unfolding uint_nat by linarith
qed

section \<open>Big-endian integers\<close>

text \<open>
  \<open>uN::from_be_bytes\<close> reads a byte array as a big-endian number, \<open>uN::to_be_bytes\<close> writes it;
  \<open>be_digits n\<close> is the \<open>n\<close>-byte form.
\<close>

definition be_nat :: "bytes \<Rightarrow> nat" where
  "be_nat bs = foldl (\<lambda>acc b. acc * 256 + unat b) 0 bs"

definition from_be_bytes :: "bytes \<Rightarrow> 'a::len word" where
  "from_be_bytes bs = word_of_nat (be_nat bs)"

primrec be_digits :: "nat \<Rightarrow> nat \<Rightarrow> bytes" where
  "be_digits 0 x = []"
| "be_digits (Suc n) x = be_digits n (x div 256) @ [word_of_nat x]"

definition to_be_bytes :: "nat \<Rightarrow> 'a::len word \<Rightarrow> bytes" where
  "to_be_bytes n w = be_digits n (unat w)"

lemma be_nat_Nil [simp]: "be_nat [] = 0"
  by (simp add: be_nat_def)

lemma be_nat_snoc [simp]: "be_nat (bs @ [b]) = be_nat bs * 256 + unat b"
  by (simp add: be_nat_def)

lemma unat_lt_len: "unat (w :: 'a::len word) < 2 ^ LENGTH('a)"
  by (rule unsigned_less)

lemma unat_u8_less [simp]: "unat (b :: u8) < 256"
  using unat_lt_len [of b] by simp

lemma be_nat_less: "be_nat bs < 256 ^ length bs"
proof (induction bs rule: rev_induct)
  case Nil
  show ?case by simp
next
  case (snoc b bs)
  have "be_nat bs * 256 + unat b < be_nat bs * 256 + 256" by simp
  also have "\<dots> = (be_nat bs + 1) * 256" by simp
  also have "\<dots> \<le> 256 ^ length bs * 256"
    using snoc by (intro mult_right_mono) auto
  finally show ?case by simp
qed

lemma length_be_digits [simp]: "length (be_digits n x) = n"
  by (induction n arbitrary: x) auto

lemma unat_word_of_nat_u8: "unat (word_of_nat x :: u8) = x mod 256"
  by (simp add: unsigned_of_nat take_bit_eq_mod)

lemma be_nat_be_digits: "be_nat (be_digits n x) = x mod 256 ^ n"
proof (induction n arbitrary: x)
  case 0
  show ?case by simp
next
  case (Suc n)
  have "be_nat (be_digits (Suc n) x) = (x div 256) mod 256 ^ n * 256 + x mod 256"
    by (simp add: Suc unat_word_of_nat_u8)
  also have "\<dots> = x mod (256 * 256 ^ n)"
    by (subst mod_mult2_eq) simp
  finally show ?case by simp
qed

lemma be_digits_be_nat: "be_digits (length bs) (be_nat bs) = bs"
proof (induction bs rule: rev_induct)
  case Nil
  show ?case by simp
next
  case (snoc b bs)
  have "(be_nat bs * 256 + unat b) div 256 = be_nat bs" by simp
  moreover have "word_of_nat (be_nat bs * 256 + unat b) = b"
  proof -
    have "unat (word_of_nat (be_nat bs * 256 + unat b) :: u8) = unat b"
      using unat_u8_less [of b] by (simp only: unat_word_of_nat_u8) simp
    then show ?thesis by (simp add: word_unat_eq_iff)
  qed
  ultimately show ?case using snoc by simp
qed

lemma length_to_be_bytes [simp]: "length (to_be_bytes n w) = n"
  by (simp add: to_be_bytes_def)

lemma from_be_bytes_to_be_bytes:
  fixes w :: "'a::len word"
  assumes "LENGTH('a) = 8 * n"
  shows "from_be_bytes (to_be_bytes n w) = w"
proof -
  have "(256::nat) ^ n = 2 ^ LENGTH('a)"
    by (simp add: assms power_mult)
  then have "unat w mod 256 ^ n = unat w"
    using unat_lt_len [of w] by simp
  then show ?thesis
    by (simp add: from_be_bytes_def to_be_bytes_def be_nat_be_digits)
qed

lemma to_be_bytes_from_be_bytes:
  assumes "LENGTH('a) = 8 * n" and "length bs = n"
  shows "to_be_bytes n (from_be_bytes bs :: 'a::len word) = bs"
proof -
  have "be_nat bs < 2 ^ LENGTH('a)"
    using be_nat_less [of bs] by (simp add: assms power_mult)
  then have "unat (from_be_bytes bs :: 'a word) = be_nat bs"
    by (simp add: from_be_bytes_def unsigned_of_nat take_bit_nat_eq_self)
  then show ?thesis
    using be_digits_be_nat [of bs] by (simp add: to_be_bytes_def assms)
qed

end
