(* ===== verification/Rust_Str.thy ===== *)
theory Rust_Str
  imports Prelude
begin

text \<open>
  The parts of Rust's \<open>str\<close> that the sources use. A string is the list of its Unicode scalar
  values; \<open>as_bytes\<close> is its UTF-8 encoding and \<open>str::from_utf8\<close> the strict decoder (overlong
  forms, surrogates and values above \<open>0x10FFFF\<close> are errors). \<open>trim\<close>, \<open>split('-')\<close>,
  \<open>splitn(2, '-')\<close>, \<open>trim_end_matches\<close> and \<open>parse::<u8>\<close> follow the standard library.
\<close>

type_synonym rust_str = "nat list"

definition str_lit :: "string \<Rightarrow> rust_str" where
  "str_lit s = map of_char s"

section \<open>UTF-8\<close>

definition utf8_cont :: "u8 \<Rightarrow> bool" where
  "utf8_cont b \<longleftrightarrow> 128 \<le> unat b \<and> unat b \<le> 191"

definition low6 :: "u8 \<Rightarrow> nat" where
  "low6 b = unat b - 128"

definition utf8_encode_char :: "nat \<Rightarrow> bytes" where
  "utf8_encode_char c =
     (if c < 128 then [word_of_nat c]
      else if c < 2048 then [word_of_nat (192 + c div 64), word_of_nat (128 + c mod 64)]
      else if c < 65536 then
        [word_of_nat (224 + c div 4096), word_of_nat (128 + c div 64 mod 64),
         word_of_nat (128 + c mod 64)]
      else
        [word_of_nat (240 + c div 262144), word_of_nat (128 + c div 4096 mod 64),
         word_of_nat (128 + c div 64 mod 64), word_of_nat (128 + c mod 64)])"

definition as_bytes :: "rust_str \<Rightarrow> bytes" where
  "as_bytes s = concat (map utf8_encode_char s)"

text \<open>The three-byte and four-byte forms restrict the second byte after \<open>E0\<close>, \<open>ED\<close>, \<open>F0\<close> and
  \<open>F4\<close>.\<close>

definition utf8_second_ok :: "nat \<Rightarrow> u8 \<Rightarrow> bool" where
  "utf8_second_ok b0 b1 \<longleftrightarrow> utf8_cont b1 \<and>
     (b0 = 224 \<longrightarrow> 160 \<le> unat b1) \<and> (b0 = 237 \<longrightarrow> unat b1 \<le> 159) \<and>
     (b0 = 240 \<longrightarrow> 144 \<le> unat b1) \<and> (b0 = 244 \<longrightarrow> unat b1 \<le> 143)"

fun from_utf8 :: "bytes \<Rightarrow> rust_str option" where
  "from_utf8 [] = Some []"
| "from_utf8 (b # r) =
     (let n = unat b in
      if n < 128 then map_option (Cons n) (from_utf8 r)
      else if 194 \<le> n \<and> n \<le> 223 then
        (case r of
           b1 # r1 \<Rightarrow>
             if utf8_cont b1 then map_option (Cons ((n - 192) * 64 + low6 b1)) (from_utf8 r1)
             else None
         | _ \<Rightarrow> None)
      else if 224 \<le> n \<and> n \<le> 239 then
        (case r of
           b1 # b2 # r2 \<Rightarrow>
             if utf8_second_ok n b1 \<and> utf8_cont b2
             then map_option (Cons ((n - 224) * 4096 + low6 b1 * 64 + low6 b2)) (from_utf8 r2)
             else None
         | _ \<Rightarrow> None)
      else if 240 \<le> n \<and> n \<le> 244 then
        (case r of
           b1 # b2 # b3 # r3 \<Rightarrow>
             if utf8_second_ok n b1 \<and> utf8_cont b2 \<and> utf8_cont b3
             then map_option (Cons ((n - 240) * 262144 + low6 b1 * 4096 + low6 b2 * 64 + low6 b3))
                    (from_utf8 r3)
             else None
         | _ \<Rightarrow> None)
      else None)"

declare from_utf8.simps(2) [simp del]

lemma from_utf8_ascii_Cons:
  "unat b < 128 \<Longrightarrow> from_utf8 (b # r) = map_option (Cons (unat b)) (from_utf8 r)"
  by (simp add: from_utf8.simps(2))

lemma from_utf8_ascii: "(\<forall>b \<in> set bs. unat b < 128) \<Longrightarrow> from_utf8 bs = Some (map unat bs)"
  by (induction bs) (auto simp: from_utf8_ascii_Cons)

lemma as_bytes_Nil [simp]: "as_bytes [] = []"
  by (simp add: as_bytes_def)

lemma as_bytes_Cons [simp]: "as_bytes (c # s) = utf8_encode_char c @ as_bytes s"
  by (simp add: as_bytes_def)

text \<open>Unicode scalar values: what a Rust \<open>char\<close> can be.\<close>

definition scalar_value :: "nat \<Rightarrow> bool" where
  "scalar_value c \<longleftrightarrow> c < 55296 \<or> 57344 \<le> c \<and> c < 1114112"

lemma from_utf8_two:
  "194 \<le> unat b \<Longrightarrow> unat b \<le> 223 \<Longrightarrow> utf8_cont b1 \<Longrightarrow>
   from_utf8 (b # b1 # r) = map_option (Cons ((unat b - 192) * 64 + low6 b1)) (from_utf8 r)"
  by (simp add: from_utf8.simps(2) Let_def)

lemma from_utf8_three:
  "224 \<le> unat b \<Longrightarrow> unat b \<le> 239 \<Longrightarrow> utf8_second_ok (unat b) b1 \<Longrightarrow> utf8_cont b2 \<Longrightarrow>
   from_utf8 (b # b1 # b2 # r) =
     map_option (Cons ((unat b - 224) * 4096 + low6 b1 * 64 + low6 b2)) (from_utf8 r)"
  by (simp add: from_utf8.simps(2) [of b] Let_def)

lemma from_utf8_four:
  "240 \<le> unat b \<Longrightarrow> unat b \<le> 244 \<Longrightarrow> utf8_second_ok (unat b) b1 \<Longrightarrow> utf8_cont b2 \<Longrightarrow>
   utf8_cont b3 \<Longrightarrow>
   from_utf8 (b # b1 # b2 # b3 # r) =
     map_option (Cons ((unat b - 240) * 262144 + low6 b1 * 4096 + low6 b2 * 64 + low6 b3))
       (from_utf8 r)"
  by (simp add: from_utf8.simps(2) [of b] Let_def)

lemma unat_byte: "n < 256 \<Longrightarrow> b = word_of_nat n \<Longrightarrow> unat (b :: u8) = n"
  by (simp add: unat_word_of_nat_u8)

lemma utf8_cont_byte:
  "m < 64 \<Longrightarrow> b = word_of_nat (128 + m) \<Longrightarrow> unat b = 128 + m \<and> utf8_cont b \<and> low6 b = m"
  using unat_byte [of "128 + m" b] by (simp add: utf8_cont_def low6_def)

lemma from_utf8_two_parts:
  assumes "2 \<le> h" "h < 32" "m < 64"
  shows "from_utf8 (word_of_nat (192 + h) # word_of_nat (128 + m) # r) = map_option (Cons (h * 64 + m)) (from_utf8 r)"
proof -
  have "unat (word_of_nat (192 + h) :: u8) = 192 + h" using assms by (intro unat_byte) simp_all
  then show ?thesis using from_utf8_two [of "word_of_nat (192 + h)" "word_of_nat (128 + m)" r] utf8_cont_byte [OF assms(3) refl] assms by simp
qed

lemma from_utf8_three_parts:
  assumes "g < 16" "h < 64" "m < 64" and "g = 0 \<longrightarrow> 32 \<le> h" "g = 13 \<longrightarrow> h \<le> 31"
  shows "from_utf8 (word_of_nat (224 + g) # word_of_nat (128 + h) # word_of_nat (128 + m) # r) =
    map_option (Cons (g * 4096 + h * 64 + m)) (from_utf8 r)"
proof -
  have b: "unat (word_of_nat (224 + g) :: u8) = 224 + g" using assms by (intro unat_byte) simp_all
  note bs = utf8_cont_byte [OF assms(2) refl] utf8_cont_byte [OF assms(3) refl]
  have "utf8_second_ok (224 + g) (word_of_nat (128 + h))" using bs assms by (simp add: utf8_second_ok_def)
  then show ?thesis
    using from_utf8_three [of "word_of_nat (224 + g)" "word_of_nat (128 + h)" "word_of_nat (128 + m)" r] bs b assms(1) by simp
qed

lemma from_utf8_four_parts:
  assumes "q < 5" "g < 64" "h < 64" "m < 64" and "q = 0 \<longrightarrow> 16 \<le> g" "q = 4 \<longrightarrow> g \<le> 15"
  shows "from_utf8 (word_of_nat (240 + q) # word_of_nat (128 + g) # word_of_nat (128 + h) # word_of_nat (128 + m) # r) =
    map_option (Cons (q * 262144 + g * 4096 + h * 64 + m)) (from_utf8 r)"
proof -
  have b: "unat (word_of_nat (240 + q) :: u8) = 240 + q" using assms by (intro unat_byte) simp_all
  note bs = utf8_cont_byte [OF assms(2) refl] utf8_cont_byte [OF assms(3) refl] utf8_cont_byte [OF assms(4) refl]
  have "utf8_second_ok (240 + q) (word_of_nat (128 + g))" using bs assms by (simp add: utf8_second_ok_def)
  then show ?thesis
    using from_utf8_four [of "word_of_nat (240 + q)" "word_of_nat (128 + g)" "word_of_nat (128 + h)" "word_of_nat (128 + m)" r] bs b assms(1)
    by simp
qed

text \<open>The groups of six bits of a code point.\<close>

lemma code_point_groups:
  fixes c :: nat
  shows "c div 4096 = c div 262144 * 64 + c div 4096 mod 64"
    and "c div 64 = c div 262144 * 4096 + c div 4096 mod 64 * 64 + c div 64 mod 64"
    and "c = c div 262144 * 262144 + c div 4096 mod 64 * 4096 + c div 64 mod 64 * 64 + c mod 64"
proof -
  have d: "c div 64 div 64 = c div 4096" "c div 4096 div 64 = c div 262144" by (simp_all flip: div_mult2_eq)
  show q: "c div 4096 = c div 262144 * 64 + c div 4096 mod 64" using div_mult_mod_eq [of "c div 4096" 64] d(2) by linarith
  show h: "c div 64 = c div 262144 * 4096 + c div 4096 mod 64 * 64 + c div 64 mod 64"
    using div_mult_mod_eq [of "c div 64" 64] d(1) q by linarith
  show "c = c div 262144 * 262144 + c div 4096 mod 64 * 4096 + c div 64 mod 64 * 64 + c mod 64"
    using div_mult_mod_eq [of c 64] h by linarith
qed

lemma from_utf8_encode_char:
  assumes "scalar_value c"
  shows "from_utf8 (utf8_encode_char c @ r) = map_option (Cons c) (from_utf8 r)"
proof -
  define q g h m where "q = c div 262144" and "g = c div 4096 mod 64" and "h = c div 64 mod 64" and "m = c mod 64"
  note parts = this
  have small: "m < 64" "h < 64" "g < 64" by (simp_all add: parts)
  note groups = code_point_groups [of c, folded parts]
  consider "c < 128" | "128 \<le> c" "c < 2048" | "2048 \<le> c" "c < 65536" | "65536 \<le> c" "c < 1114112"
    using assms by (fastforce simp: scalar_value_def)
  then show ?thesis
  proof cases
    case 1
    then have "unat (word_of_nat c :: u8) = c" by (simp add: unat_byte)
    with 1 from_utf8_ascii_Cons [of "word_of_nat c" r] show ?thesis by (simp add: utf8_encode_char_def)
  next
    case 2
    then have z: "q = 0" "g = 0" using groups(3) small by linarith+
    with 2 have "2 \<le> h" "h < 32" using groups(3) small by linarith+
    moreover have "utf8_encode_char c = [word_of_nat (192 + h), word_of_nat (128 + m)]"
      using 2 z groups(2) by (simp add: utf8_encode_char_def flip: m_def)
    ultimately show ?thesis using from_utf8_two_parts [of h m r] z groups(3) small by simp
  next
    case 3
    then have "q = 0" using groups(3) small by linarith
    with 3 have z: "q = 0" "g < 16" "g = 0 \<longrightarrow> 32 \<le> h" using groups(3) small by linarith+
    have "g = 13 \<longrightarrow> h \<le> 31" using assms groups(3) z small unfolding scalar_value_def by linarith
    moreover have "utf8_encode_char c = [word_of_nat (224 + g), word_of_nat (128 + h), word_of_nat (128 + m)]"
      using 3 z groups(1) by (simp add: utf8_encode_char_def flip: h_def m_def)
    ultimately show ?thesis using from_utf8_three_parts [of g h m r] z groups(3) small by simp
  next
    case 4
    then have "q < 5" "q = 0 \<longrightarrow> 16 \<le> g" "q = 4 \<longrightarrow> g \<le> 15" using groups(3) small by linarith+
    moreover have "utf8_encode_char c = [word_of_nat (240 + q), word_of_nat (128 + g), word_of_nat (128 + h), word_of_nat (128 + m)]"
      using 4 by (simp add: utf8_encode_char_def flip: parts)
    ultimately show ?thesis using from_utf8_four_parts [of q g h m r] groups(3) small by simp
  qed
qed

lemma from_utf8_as_bytes: "\<forall>c \<in> set s. scalar_value c \<Longrightarrow> from_utf8 (as_bytes s) = Some s"
  by (induction s) (auto simp: from_utf8_encode_char)

section \<open>Character-level operations\<close>

text \<open>\<open>char::is_whitespace\<close>: the Unicode property White\_Space.\<close>

definition is_whitespace :: "nat \<Rightarrow> bool" where
  "is_whitespace c \<longleftrightarrow>
     9 \<le> c \<and> c \<le> 13 \<or> c = 32 \<or> c = 133 \<or> c = 160 \<or> c = 5760 \<or>
     8192 \<le> c \<and> c \<le> 8202 \<or> c = 8232 \<or> c = 8233 \<or> c = 8239 \<or> c = 8287 \<or> c = 12288"

definition trim_end_matches :: "(nat \<Rightarrow> bool) \<Rightarrow> rust_str \<Rightarrow> rust_str" where
  "trim_end_matches P s = rev (dropWhile P (rev s))"

definition trim :: "rust_str \<Rightarrow> rust_str" where
  "trim s = trim_end_matches is_whitespace (dropWhile is_whitespace s)"

text \<open>\<open>s.split(c).next()\<close>, the text before the first separator, and the two parts of
  \<open>s.splitn(2, c)\<close>.\<close>

definition split_first :: "nat \<Rightarrow> rust_str \<Rightarrow> rust_str" where
  "split_first c s = takeWhile (\<lambda>x. x \<noteq> c) s"

definition splitn2_rest :: "nat \<Rightarrow> rust_str \<Rightarrow> rust_str option" where
  "splitn2_rest c s =
     (case dropWhile (\<lambda>x. x \<noteq> c) s of [] \<Rightarrow> None | _ # r \<Rightarrow> Some r)"

text \<open>\<open>str::parse::<u8>\<close>: an optional \<open>+\<close>, at least one decimal digit, and a value below 256.\<close>

definition is_digit :: "nat \<Rightarrow> bool" where
  "is_digit c \<longleftrightarrow> 48 \<le> c \<and> c \<le> 57"

definition parse_u8 :: "rust_str \<Rightarrow> u8 option" where
  "parse_u8 s =
     (let ds = (case s of c # r \<Rightarrow> if c = 43 then r else s | [] \<Rightarrow> []);
          v = foldl (\<lambda>acc d. acc * 10 + (d - 48)) 0 ds
      in if ds \<noteq> [] \<and> list_all is_digit ds \<and> v < 256 then Some (word_of_nat v) else None)"

end
