(* ===== verification/Utils.thy ===== *)
theory Utils
  imports Rust_Str "HOL-Library.Sublist"
begin

text \<open>
  \<^verbatim>\<open>src/utils.rs\<close>: the identifier length, digests, \<open>gather_dict\<close>, the shared byte prefix and the
  bit-string rendering. SHA-1 is the \<open>sha1\<close> crate, so it is an argument of \<open>digest_bytes\<close>.
\<close>

definition ID_LEN :: nat where
  "ID_LEN = 20"

definition digest_bytes :: "(bytes \<Rightarrow> bytes) \<Rightarrow> bytes \<Rightarrow> bytes" where
  "digest_bytes sha1 data = sha1 data"

definition digest :: "(bytes \<Rightarrow> bytes) \<Rightarrow> rust_str \<Rightarrow> bytes" where
  "digest sha1 s = digest_bytes sha1 (as_bytes s)"

text \<open>
  A dictionary of futures is an association list in the iteration order of the \<open>HashMap\<close>; a
  future is what running it yields. \<open>join_all\<close> keeps the order of its input.
\<close>

definition gather_dict :: "('f \<Rightarrow> 'v) \<Rightarrow> ('k \<times> 'f) list \<Rightarrow> 'k \<rightharpoonup> 'v" where
  "gather_dict run dic =
     (let ks = map fst dic; futs = map snd dic; results = map run futs
      in map_of (zip ks results))"

definition min_len :: "bytes list \<Rightarrow> nat" where
  "min_len args = (case map length args of [] \<Rightarrow> 0 | l # ls \<Rightarrow> foldl min l ls)"

definition shared_prefix :: "bytes list \<Rightarrow> bytes" where
  "shared_prefix args =
     (case args of
        [] \<Rightarrow> []
      | first # _ \<Rightarrow>
          let prefix_len =
            length (takeWhile (\<lambda>i. list_all (\<lambda>a. a ! i = first ! i) args) [0..<min_len args])
          in take prefix_len first)"

definition format_08b :: "u8 \<Rightarrow> string" where
  "format_08b b = map (\<lambda>i. if bit b i then CHR ''1'' else CHR ''0'') (rev [0..<8])"

definition bytes_to_bit_string :: "bytes \<Rightarrow> string" where
  "bytes_to_bit_string bs = concat (map format_08b bs)"

section \<open>Lemmas\<close>

lemma gather_dict_lookup: "gather_dict run dic k = map_option run (map_of dic k)"
proof -
  have "zip (map fst dic) (map run (map snd dic)) = map (\<lambda>(k, f). (k, run f)) dic"
    by (induction dic) auto
  then show ?thesis
    by (simp add: gather_dict_def Let_def map_of_map)
qed

lemma foldl_min_le:
  fixes l :: "'a::linorder"
  shows "foldl min l ls \<le> l \<and> (\<forall>x \<in> set ls. foldl min l ls \<le> x) \<and> foldl min l ls \<in> insert l (set ls)"
proof (induction ls arbitrary: l)
  case Nil
  show ?case by simp
next
  case (Cons y ls)
  from Cons.IH [of "min l y"] show ?case
    by (auto simp: min_def split: if_splits)
qed

lemma min_len_le: "a \<in> set args \<Longrightarrow> min_len args \<le> length a"
  using foldl_min_le [of "length (hd args)" "map length (tl args)"]
  by (cases args) (auto simp: min_len_def)

lemma min_len_attained: "args \<noteq> [] \<Longrightarrow> \<exists>a \<in> set args. length a = min_len args"
  using foldl_min_le [of "length (hd args)" "map length (tl args)"]
  by (cases args) (auto simp: min_len_def image_iff)

lemma takeWhile_upt_nth:
  assumes "i < length (takeWhile P [0..<n])"
  shows "P i \<and> i < n"
proof -
  have "length (takeWhile P [0..<n]) \<le> n"
    using length_takeWhile_le [of P "[0..<n]"] by simp
  then have i: "i < n" using assms by simp
  have "takeWhile P [0..<n] ! i = i"
    using assms i by (simp add: takeWhile_nth)
  then show ?thesis
    using assms i by (metis nth_mem set_takeWhileD)
qed

lemma takeWhile_upt_stop:
  assumes "length (takeWhile P [0..<n]) < n"
  shows "\<not> P (length (takeWhile P [0..<n]))"
  using nth_length_takeWhile [of P "[0..<n]"] assms by simp

text \<open>The result is a common prefix, and no longer common prefix exists.\<close>

lemma shared_prefix_is_prefix: "a \<in> set args \<Longrightarrow> prefix (shared_prefix args) a"
proof (cases args)
  case Nil
  then show "a \<in> set args \<Longrightarrow> ?thesis" by simp
next
  case (Cons first rest)
  assume a: "a \<in> set args"
  define n where "n = length (takeWhile (\<lambda>i. list_all (\<lambda>a. a ! i = first ! i) args) [0..<min_len args])"
  have sp: "shared_prefix args = take n first"
    by (simp add: shared_prefix_def Cons n_def)
  have eq: "a ! i = first ! i \<and> i < min_len args" if "i < n" for i
    using takeWhile_upt_nth [OF that [unfolded n_def]] a by (auto simp: list_all_iff)
  have n: "n \<le> min_len args"
    unfolding n_def using length_takeWhile_le [of _ "[0..<min_len args]"] by simp
  then have "n \<le> length a" "n \<le> length first"
    using min_len_le [of a args] min_len_le [of first args] a Cons by auto
  then have "take n first = take n a"
    by (intro nth_equalityI) (auto simp: eq)
  then show ?thesis by (simp add: sp take_is_prefix)
qed

lemma shared_prefix_longest:
  assumes "args \<noteq> []" and "\<forall>a \<in> set args. prefix p a"
  shows "prefix p (shared_prefix args)"
proof -
  obtain first rest where args: "args = first # rest" using assms(1) by (cases args) auto
  define P where "P = (\<lambda>i. list_all (\<lambda>a. a ! i = first ! i) args)"
  define n where "n = length (takeWhile P [0..<min_len args])"
  have sp: "shared_prefix args = take n first"
    by (simp add: shared_prefix_def args n_def P_def)
  have len: "length p \<le> min_len args"
    using min_len_attained [OF assms(1)] assms(2) by (metis prefix_length_le)
  have P: "P i" if "i < length p" for i
    using assms(2) that by (auto simp: P_def list_all_iff args prefix_def nth_append)
  have "length p \<le> n"
  proof (rule ccontr)
    assume "\<not> length p \<le> n"
    then have "n < length p" by simp
    with takeWhile_upt_stop [of P "min_len args"] len have "\<not> P n"
      by (simp add: n_def)
    with P \<open>n < length p\<close> show False by blast
  qed
  moreover have "prefix p first" using assms(2) args by simp
  ultimately show ?thesis
    unfolding sp by (metis append_eq_conv_conj prefix_def take_is_prefix take_take min.absorb2 min_def)
qed

lemma length_bytes_to_bit_string: "length (bytes_to_bit_string bs) = 8 * length bs"
  by (induction bs) (auto simp: bytes_to_bit_string_def format_08b_def)

lemma format_08b_inj: "format_08b a = format_08b b \<Longrightarrow> a = b"
proof (rule bit_word_eqI)
  fix n
  assume eq: "format_08b a = format_08b b" and "n < LENGTH(8)"
  then have n: "n < 8" by simp
  have "(if bit a i then CHR ''1'' else CHR ''0'') = (if bit b i then CHR ''1'' else CHR ''0'')"
    if "i \<in> set (rev [0..<8])" for i
    using eq that unfolding format_08b_def map_eq_conv by blast
  from this [of n] n show "bit a n \<longleftrightarrow> bit b n"
    by (auto split: if_splits)
qed

end
