(* ===== verification/Node.thy ===== *)
theory Node
  imports Utils "HOL-Library.List_Lexorder"
begin

text \<open>
  \<^verbatim>\<open>src/node.rs\<close>: peers, the folded 128-bit identifier and its XOR distance, and \<open>NodeHeap\<close>, the
  bounded collection of the nodes closest to a pivot. A \<open>BinaryHeap\<close> is the list of its entries;
  its internal order is not observable except through ties of \<open>sort_unstable_by_key\<close>, which the
  model resolves in list order.
\<close>

section \<open>Peers\<close>

record node =
  node_id :: bytes
  node_ip :: "rust_str option"
  node_port :: "u16 option"
  long_id :: u128

definition id_to_u128 :: "bytes \<Rightarrow> u128" where
  "id_to_u128 i =
     (let base = from_be_bytes (take 16 i) :: u128;
          tail = ucast (from_be_bytes (take 4 (drop 16 i)) :: u32) :: u128
      in base XOR push_bit 96 tail)"

definition new_node :: "bytes \<Rightarrow> rust_str option \<Rightarrow> u16 option \<Rightarrow> node" where
  "new_node i ip port =
     \<lparr>node_id = i, node_ip = ip, node_port = port, long_id = id_to_u128 i\<rparr>"

definition from_id :: "bytes \<Rightarrow> node" where
  "from_id i = new_node i None None"

text \<open>\<open>Node::random\<close>: the argument is what the random generator filled the buffer with.\<close>

definition random_node :: "bytes \<Rightarrow> node" where
  "random_node rng_bytes = from_id rng_bytes"

definition distance_to :: "node \<Rightarrow> node \<Rightarrow> u128" where
  "distance_to a b = long_id a XOR long_id b"

definition same_home_as :: "node \<Rightarrow> node \<Rightarrow> bool" where
  "same_home_as a b \<longleftrightarrow> node_ip a = node_ip b \<and> node_port a = node_port b"

definition address :: "node \<Rightarrow> (rust_str \<times> u16) option" where
  "address n =
     (case (node_ip n, node_port n) of (Some ip, Some port) \<Rightarrow> Some (ip, port) | _ \<Rightarrow> None)"

section \<open>Heap entries and their order\<close>

datatype ordering = Less | Equal | Greater

definition cmp :: "'a::linorder \<Rightarrow> 'a \<Rightarrow> ordering" where
  "cmp a b = (if a < b then Less else if a = b then Equal else Greater)"

definition then_with :: "ordering \<Rightarrow> ordering \<Rightarrow> ordering" where
  "then_with a b = (case a of Equal \<Rightarrow> b | _ \<Rightarrow> a)"

record heap_entry =
  he_distance :: u128
  he_node :: node

definition he_eq :: "heap_entry \<Rightarrow> heap_entry \<Rightarrow> bool" where
  "he_eq a b \<longleftrightarrow> node_id (he_node a) = node_id (he_node b)"

definition he_cmp :: "heap_entry \<Rightarrow> heap_entry \<Rightarrow> ordering" where
  "he_cmp self other =
     then_with (cmp (he_distance other) (he_distance self))
       (cmp (node_id (he_node other)) (node_id (he_node self)))"

section \<open>NodeHeap\<close>

record node_heap =
  nh_node :: node
  nh_heap :: "heap_entry list"
  nh_contacted :: "bytes set"
  nh_maxsize :: nat

abbreviation he_id :: "heap_entry \<Rightarrow> bytes" where
  "he_id e \<equiv> node_id (he_node e)"

definition nh_new :: "node \<Rightarrow> nat \<Rightarrow> node_heap" where
  "nh_new n maxsize =
     \<lparr>nh_node = n, nh_heap = [], nh_contacted = {}, nh_maxsize = maxsize\<rparr>"

definition nh_contains :: "node_heap \<Rightarrow> node \<Rightarrow> bool" where
  "nh_contains h n \<longleftrightarrow> list_ex (\<lambda>e. he_id e = node_id n) (nh_heap h)"

definition nh_enforce_maxsize :: "node_heap \<Rightarrow> node_heap" where
  "nh_enforce_maxsize h =
     (if length (nh_heap h) \<le> nh_maxsize h then h
      else h\<lparr>nh_heap := take (nh_maxsize h) (sort_key he_distance (nh_heap h))\<rparr>)"

fun nh_push_loop :: "node list \<Rightarrow> node_heap \<Rightarrow> node_heap" where
  "nh_push_loop [] h = h"
| "nh_push_loop (n # ns) h =
     nh_push_loop ns
       (if nh_contains h n then h
        else h\<lparr>nh_heap :=
               nh_heap h @ [\<lparr>he_distance = distance_to (nh_node h) n, he_node = n\<rparr>]\<rparr>)"

definition nh_push :: "node list \<Rightarrow> node_heap \<Rightarrow> node_heap" where
  "nh_push ns h = nh_enforce_maxsize (nh_push_loop ns h)"

definition nh_push_one :: "node \<Rightarrow> node_heap \<Rightarrow> node_heap" where
  "nh_push_one n h = nh_push [n] h"

definition nh_remove :: "bytes list \<Rightarrow> node_heap \<Rightarrow> node_heap" where
  "nh_remove peers h =
     (if peers = [] then h
      else h\<lparr>nh_heap := filter (\<lambda>e. he_id e \<notin> set peers) (nh_heap h)\<rparr>)"

text \<open>\<open>BinaryHeap::pop\<close> removes a greatest entry of the inverted order.\<close>

fun heap_greatest :: "heap_entry list \<Rightarrow> heap_entry option" where
  "heap_greatest [] = None"
| "heap_greatest (e # es) =
     (case heap_greatest es of
        None \<Rightarrow> Some e
      | Some m \<Rightarrow> Some (if he_cmp e m = Less then m else e))"

definition nh_popleft :: "node_heap \<Rightarrow> node option \<times> node_heap" where
  "nh_popleft h =
     (case heap_greatest (nh_heap h) of
        None \<Rightarrow> (None, h)
      | Some e \<Rightarrow> (Some (he_node e), h\<lparr>nh_heap := remove1 e (nh_heap h)\<rparr>))"

definition nh_get_node :: "node_heap \<Rightarrow> bytes \<Rightarrow> node option" where
  "nh_get_node h i = map_option he_node (List.find (\<lambda>e. he_id e = i) (nh_heap h))"

definition nh_iter :: "node_heap \<Rightarrow> node list" where
  "nh_iter h = map he_node (take (nh_maxsize h) (sort_key he_distance (nh_heap h)))"

definition nh_get_uncontacted :: "node_heap \<Rightarrow> node list" where
  "nh_get_uncontacted h = filter (\<lambda>n. node_id n \<notin> nh_contacted h) (nh_iter h)"

definition nh_have_contacted_all :: "node_heap \<Rightarrow> bool" where
  "nh_have_contacted_all h \<longleftrightarrow> nh_get_uncontacted h = []"

definition nh_get_ids :: "node_heap \<Rightarrow> bytes list" where
  "nh_get_ids h = map node_id (nh_iter h)"

definition nh_len :: "node_heap \<Rightarrow> nat" where
  "nh_len h = min (length (nh_heap h)) (nh_maxsize h)"

definition nh_is_empty :: "node_heap \<Rightarrow> bool" where
  "nh_is_empty h \<longleftrightarrow> nh_heap h = []"

definition nh_mark_contacted :: "node \<Rightarrow> node_heap \<Rightarrow> node_heap" where
  "nh_mark_contacted n h = h\<lparr>nh_contacted := insert (node_id n) (nh_contacted h)\<rparr>"

definition nh_to_vec :: "node_heap \<Rightarrow> node list" where
  "nh_to_vec h = nh_iter h"

section \<open>The XOR distance\<close>

text \<open>What the routing and lookup layers rely on of a distance.\<close>

locale xor_metric =
  fixes pt :: "'a \<Rightarrow> u128" and d :: "'a \<Rightarrow> 'a \<Rightarrow> u128"
  assumes d_eq: "d x y = pt x XOR pt y"
begin

lemma d_sym: "d x y = d y x"
  by (simp add: d_eq xor.commute)

lemma d_zero_iff: "d x y = 0 \<longleftrightarrow> pt x = pt y"
  by (simp add: d_eq)

lemma d_unidirectional: "d x y = d x z \<longleftrightarrow> pt y = pt z"
  by (simp add: d_eq)

lemma d_compose: "d x y XOR d y z = d x z"
  by (simp add: d_eq xor.assoc)

lemma d_triangle: "unat (d x z) \<le> unat (d x y) + unat (d y z)"
  unfolding d_compose [of x y z, symmetric] by (rule unat_xor_le_add)

end

interpretation dist: xor_metric long_id distance_to
  by unfold_locales (simp add: distance_to_def)

section \<open>Well-formed peers and heaps\<close>

definition wf_node :: "node \<Rightarrow> bool" where
  "wf_node n \<longleftrightarrow> length (node_id n) = ID_LEN \<and> long_id n = id_to_u128 (node_id n)"

lemma wf_new_node [simp, wf_intros]: "wf_node (new_node i ip port) \<longleftrightarrow> length i = ID_LEN"
  by (simp add: wf_node_def new_node_def)

lemma new_node_sel [simp]:
  "node_id (new_node i ip port) = i" "node_ip (new_node i ip port) = ip"
  "node_port (new_node i ip port) = port" "long_id (new_node i ip port) = id_to_u128 i"
  by (simp_all add: new_node_def)

lemma from_id_sel [simp]: "node_id (from_id i) = i" "long_id (from_id i) = id_to_u128 i"
  by (simp_all add: from_id_def)

lemma wf_from_id [simp, wf_intros]: "wf_node (from_id i) \<longleftrightarrow> length i = ID_LEN"
  by (simp add: from_id_def)

lemma wf_node_distance_cong:
  "wf_node a \<Longrightarrow> wf_node b \<Longrightarrow> node_id a = node_id b \<Longrightarrow> distance_to p a = distance_to p b"
  by (simp add: wf_node_def distance_to_def)

definition nh_entry_ok :: "node_heap \<Rightarrow> heap_entry \<Rightarrow> bool" where
  "nh_entry_ok h e \<longleftrightarrow> he_distance e = distance_to (nh_node h) (he_node e) \<and> wf_node (he_node e)"

definition nh_wf :: "node_heap \<Rightarrow> bool" where
  "nh_wf h \<longleftrightarrow> distinct (map he_id (nh_heap h)) \<and> (\<forall>e \<in> set (nh_heap h). nh_entry_ok h e)"

definition nh_inv :: "node_heap \<Rightarrow> bool" where
  "nh_inv h \<longleftrightarrow> nh_wf h \<and> length (nh_heap h) \<le> nh_maxsize h"

definition nh_members :: "node_heap \<Rightarrow> node set" where
  "nh_members h = he_node ` set (nh_heap h)"

definition nh_ids :: "node_heap \<Rightarrow> bytes set" where
  "nh_ids h = node_id ` nh_members h"

lemma nh_ids_eq: "nh_ids h = he_id ` set (nh_heap h)"
  by (simp add: nh_ids_def nh_members_def image_image)

lemma nh_contains_iff: "nh_contains h n \<longleftrightarrow> node_id n \<in> nh_ids h"
  by (auto simp: nh_contains_def list_ex_iff nh_ids_eq image_iff) metis

lemma card_nh_ids: "nh_wf h \<Longrightarrow> card (nh_ids h) = length (nh_heap h)"
  using distinct_card [of "map he_id (nh_heap h)"] by (simp add: nh_ids_eq nh_wf_def)

lemma nh_members_id_inject:
  "nh_wf h \<Longrightarrow> a \<in> nh_members h \<Longrightarrow> b \<in> nh_members h \<Longrightarrow> node_id a = node_id b \<Longrightarrow> a = b"
  by (auto simp: nh_wf_def nh_members_def distinct_map inj_on_def)

lemma nh_inv_new [simp, wf_intros]: "nh_inv (nh_new n k)"
  by (simp add: nh_inv_def nh_wf_def nh_new_def)

lemma nh_inv_restrict:
  assumes "nh_wf h" and "set es \<subseteq> set (nh_heap h)" and "distinct (map he_id es)"
    and "length es \<le> nh_maxsize h"
  shows "nh_inv (h\<lparr>nh_heap := es\<rparr>)"
  using assms by (auto simp: nh_inv_def nh_wf_def nh_entry_ok_def)

subsection \<open>push\<close>

lemma nh_push_loop_frame [simp, state_simps]:
  "nh_node (nh_push_loop ns h) = nh_node h"
  "nh_contacted (nh_push_loop ns h) = nh_contacted h"
  "nh_maxsize (nh_push_loop ns h) = nh_maxsize h"
  by (induction ns arbitrary: h) auto

lemma nh_push_loop_ids: "nh_ids (nh_push_loop ns h) = nh_ids h \<union> node_id ` set ns"
proof (induction ns arbitrary: h)
  case Nil
  show ?case by simp
next
  case (Cons n ns)
  show ?case
    by (simp add: Cons nh_contains_iff) (auto simp: nh_ids_eq)
qed

lemma nh_push_loop_members: "nh_members (nh_push_loop ns h) \<subseteq> nh_members h \<union> set ns"
proof (induction ns arbitrary: h)
  case Nil
  show ?case by simp
next
  case (Cons n ns)
  define h' where "h' = (if nh_contains h n then h else h\<lparr>nh_heap := nh_heap h @
      [\<lparr>he_distance = distance_to (nh_node h) n, he_node = n\<rparr>]\<rparr>)"
  have "nh_members h' \<subseteq> insert n (nh_members h)"
    by (simp add: h'_def nh_members_def subset_insertI)
  moreover have "nh_members (nh_push_loop ns h') \<subseteq> nh_members h' \<union> set ns" by (rule Cons)
  ultimately show ?case by (simp add: h'_def [symmetric]) blast
qed

lemma nh_push_loop_wf: "nh_wf h \<Longrightarrow> \<forall>n \<in> set ns. wf_node n \<Longrightarrow> nh_wf (nh_push_loop ns h)"
proof (induction ns arbitrary: h)
  case Nil
  then show ?case by simp
next
  case (Cons n ns)
  have "nh_wf (h\<lparr>nh_heap := nh_heap h @ [\<lparr>he_distance = distance_to (nh_node h) n, he_node = n\<rparr>]\<rparr>)"
    if "\<not> nh_contains h n"
    using that Cons.prems by (auto simp: nh_contains_iff nh_wf_def nh_entry_ok_def nh_ids_eq)
  with Cons show ?case by simp
qed

lemma nh_enforce_frame [simp, state_simps]:
  "nh_node (nh_enforce_maxsize h) = nh_node h"
  "nh_contacted (nh_enforce_maxsize h) = nh_contacted h"
  "nh_maxsize (nh_enforce_maxsize h) = nh_maxsize h"
  by (simp_all add: nh_enforce_maxsize_def)

lemma nh_enforce_length: "length (nh_heap (nh_enforce_maxsize h)) = min (nh_maxsize h) (length (nh_heap h))"
  by (simp add: nh_enforce_maxsize_def)

lemma nh_enforce_subset: "set (nh_heap (nh_enforce_maxsize h)) \<subseteq> set (nh_heap h)"
  using set_take_sort_subset [of "nh_maxsize h" he_distance "nh_heap h"]
  by (simp add: nh_enforce_maxsize_def)

lemma nh_enforce_inv: "nh_wf h \<Longrightarrow> nh_inv (nh_enforce_maxsize h)"
proof -
  assume wf: "nh_wf h"
  have "distinct (map he_id (take k (sort_key he_distance (nh_heap h))))" for k
    using wf by (simp add: nh_wf_def distinct_map_sort_key flip: take_map)
  then have "nh_inv (h\<lparr>nh_heap := take (nh_maxsize h) (sort_key he_distance (nh_heap h))\<rparr>)"
    using wf by (intro nh_inv_restrict set_take_sort_subset) simp_all
  with wf show ?thesis by (simp add: nh_enforce_maxsize_def nh_inv_def)
qed

lemma nh_enforce_closest:
  assumes "e \<in> set (nh_heap (nh_enforce_maxsize h))" and "f \<in> set (nh_heap h)"
    and "f \<notin> set (nh_heap (nh_enforce_maxsize h))"
  shows "he_distance e \<le> he_distance f"
  using assms take_sort_key_le [of e "nh_maxsize h" he_distance "nh_heap h" f]
  by (auto simp: nh_enforce_maxsize_def split: if_splits)

lemma nh_push_frame [simp, state_simps]:
  "nh_node (nh_push ns h) = nh_node h"
  "nh_contacted (nh_push ns h) = nh_contacted h"
  "nh_maxsize (nh_push ns h) = nh_maxsize h"
  by (simp_all add: nh_push_def)

lemma nh_push_inv [wf_intros]: "nh_wf h \<Longrightarrow> \<forall>n \<in> set ns. wf_node n \<Longrightarrow> nh_inv (nh_push ns h)"
  by (simp add: nh_push_def nh_enforce_inv nh_push_loop_wf)

lemma nh_push_members: "nh_members (nh_push ns h) \<subseteq> nh_members h \<union> set ns"
  using nh_push_loop_members [of ns h] nh_enforce_subset [of "nh_push_loop ns h"]
  by (auto simp: nh_push_def nh_members_def)

lemma nh_push_card:
  assumes "nh_wf h" and "\<forall>n \<in> set ns. wf_node n"
  shows "length (nh_heap (nh_push ns h)) = min (nh_maxsize h) (card (nh_ids h \<union> node_id ` set ns))"
  using card_nh_ids [OF nh_push_loop_wf [OF assms]]
  by (simp add: nh_push_def nh_enforce_length nh_push_loop_ids)

text \<open>The heart of the bounded heap: what is dropped is never closer than what is kept.\<close>

lemma nh_push_closest:
  assumes "nh_wf h" and "\<forall>n \<in> set ns. wf_node n"
    and kept: "a \<in> nh_members (nh_push ns h)"
    and cand: "b \<in> nh_members h \<union> set ns" and dropped: "node_id b \<notin> nh_ids (nh_push ns h)"
  shows "distance_to (nh_node h) a \<le> distance_to (nh_node h) b"
proof -
  let ?l = "nh_push_loop ns h"
  have wfl: "nh_wf ?l" by (rule nh_push_loop_wf [OF assms(1,2)])
  obtain e where e: "e \<in> set (nh_heap (nh_enforce_maxsize ?l))" "he_node e = a"
    using kept by (auto simp: nh_push_def nh_members_def)
  have "node_id b \<in> nh_ids h \<union> node_id ` set ns"
    using cand by (auto simp: nh_ids_def)
  then have "node_id b \<in> nh_ids ?l" by (simp only: nh_push_loop_ids)
  then obtain f where f: "f \<in> set (nh_heap ?l)" "he_id f = node_id b"
    by (auto simp: nh_ids_eq)
  have "wf_node b"
    using cand assms(1,2) by (auto simp: nh_wf_def nh_entry_ok_def nh_members_def)
  then have fb: "he_distance f = distance_to (nh_node h) b"
    using f wfl wf_node_distance_cong [of "he_node f" b] by (auto simp: nh_wf_def nh_entry_ok_def)
  have "f \<notin> set (nh_heap (nh_enforce_maxsize ?l))"
    using dropped f(2) imageI [of f _ "\<lambda>e. he_id e"] unfolding nh_push_def nh_ids_eq by metis
  with e f have "he_distance e \<le> he_distance f" by (intro nh_enforce_closest)
  moreover have "he_distance e = distance_to (nh_node h) a"
    using e nh_enforce_subset [of ?l] wfl by (auto simp: nh_wf_def nh_entry_ok_def)
  ultimately show ?thesis by (simp add: fb)
qed

subsection \<open>remove, mark, iter, pop\<close>

lemma nh_remove_frame [simp, state_simps]:
  "nh_node (nh_remove ps h) = nh_node h"
  "nh_contacted (nh_remove ps h) = nh_contacted h"
  "nh_maxsize (nh_remove ps h) = nh_maxsize h"
  by (simp_all add: nh_remove_def)

lemma nh_remove_members: "nh_members (nh_remove ps h) = {n \<in> nh_members h. node_id n \<notin> set ps}"
  by (auto simp: nh_remove_def nh_members_def)

lemma nh_remove_inv [wf_intros]:
  assumes "nh_inv h"
  shows "nh_inv (nh_remove ps h)"
proof -
  have "nh_inv (h\<lparr>nh_heap := filter (\<lambda>e. he_id e \<notin> set ps) (nh_heap h)\<rparr>)"
    using assms
    by (intro nh_inv_restrict)
      (auto simp: nh_inv_def nh_wf_def distinct_map_filterI intro: order_trans [OF length_filter_le])
  with assms show ?thesis by (simp add: nh_remove_def)
qed

lemma nh_mark_frame [simp, state_simps]:
  "nh_node (nh_mark_contacted n h) = nh_node h"
  "nh_contacted (nh_mark_contacted n h) = insert (node_id n) (nh_contacted h)"
  "nh_maxsize (nh_mark_contacted n h) = nh_maxsize h"
  "nh_heap (nh_mark_contacted n h) = nh_heap h"
  by (simp_all add: nh_mark_contacted_def)

lemma nh_mark_members [simp]: "nh_members (nh_mark_contacted n h) = nh_members h"
  by (simp add: nh_members_def)

lemma nh_mark_inv [simp, wf_intros]: "nh_inv (nh_mark_contacted n h) = nh_inv h"
  by (simp add: nh_inv_def nh_wf_def nh_entry_ok_def)

lemma nh_iter_all: "nh_inv h \<Longrightarrow> nh_iter h = map he_node (sort_key he_distance (nh_heap h))"
  by (simp add: nh_inv_def nh_iter_def)

lemma set_nh_iter: "nh_inv h \<Longrightarrow> set (nh_iter h) = nh_members h"
  by (simp add: nh_iter_all nh_members_def)

lemma length_nh_iter: "length (nh_iter h) = nh_len h"
  by (simp add: nh_iter_def nh_len_def)

lemma distinct_nh_iter: "nh_inv h \<Longrightarrow> distinct (map node_id (nh_iter h))"
  by (simp add: nh_iter_all nh_inv_def nh_wf_def comp_def distinct_map_sort_key)

lemma sorted_nh_iter: "nh_inv h \<Longrightarrow> sorted (map (distance_to (nh_node h)) (nh_iter h))"
proof -
  assume inv: "nh_inv h"
  let ?s = "sort_key he_distance (nh_heap h)"
  have "map (distance_to (nh_node h)) (map he_node ?s) = map he_distance ?s"
    using inv by (simp add: nh_inv_def nh_wf_def nh_entry_ok_def)
  moreover have "sorted (map he_distance ?s)" by (rule sorted_sort_key)
  ultimately show ?thesis by (simp only: nh_iter_all [OF inv])
qed

lemma set_nh_uncontacted:
  "nh_inv h \<Longrightarrow> set (nh_get_uncontacted h) = {n \<in> nh_members h. node_id n \<notin> nh_contacted h}"
  by (auto simp: nh_get_uncontacted_def set_nh_iter)

lemma nh_have_contacted_all_iff:
  "nh_inv h \<Longrightarrow> nh_have_contacted_all h \<longleftrightarrow> nh_ids h \<subseteq> nh_contacted h"
  by (auto simp: nh_have_contacted_all_def nh_get_uncontacted_def filter_empty_conv set_nh_iter nh_ids_def)

lemma nh_get_node_Some: "nh_get_node h i = Some n \<Longrightarrow> n \<in> nh_members h \<and> node_id n = i"
  by (auto simp: nh_get_node_def nh_members_def find_Some_iff)

lemma nh_get_node_None: "nh_get_node h i = None \<longleftrightarrow> i \<notin> nh_ids h"
  by (auto simp: nh_get_node_def nh_ids_eq find_None_iff)

text \<open>The inverted comparison: an entry beats another exactly when its (distance, identifier)
  pair is lexicographically smaller.\<close>

definition he_closer :: "heap_entry \<Rightarrow> heap_entry \<Rightarrow> bool" where
  "he_closer a b \<longleftrightarrow>
     he_distance a < he_distance b \<or> he_distance a = he_distance b \<and> he_id a \<le> he_id b"

lemma he_cmp_Less_iff: "he_cmp a b = Less \<longleftrightarrow> \<not> he_closer a b"
  by (auto simp: he_cmp_def then_with_def cmp_def he_closer_def not_less not_le)

lemma he_closer_trans: "he_closer a b \<Longrightarrow> he_closer b c \<Longrightarrow> he_closer a c"
  by (auto simp: he_closer_def)

lemma he_closer_total: "he_closer a b \<or> he_closer b a"
  by (auto simp: he_closer_def)

lemma heap_greatest_None [simp]: "heap_greatest es = None \<longleftrightarrow> es = []"
  by (cases es) (auto split: option.splits)

lemma heap_greatest_Some:
  "heap_greatest es = Some m \<Longrightarrow> m \<in> set es \<and> (\<forall>e \<in> set es. he_closer m e)"
proof (induction es arbitrary: m)
  case Nil
  then show ?case by simp
next
  case (Cons e es)
  show ?case
  proof (cases "heap_greatest es")
    case None
    with Cons.prems show ?thesis by (auto simp: he_closer_def)
  next
    case (Some m')
    note IH = Cons.IH [OF Some]
    show ?thesis
    proof (cases "he_closer e m'")
      case True
      with IH have "\<forall>x \<in> set es. he_closer e x" by (blast intro: he_closer_trans)
      moreover have "he_closer e e" by (simp add: he_closer_def)
      ultimately show ?thesis
        using True Cons.prems Some by (simp add: he_cmp_Less_iff)
    next
      case False
      then have "he_closer m' e" using he_closer_total by blast
      with False Cons.prems Some IH show ?thesis
        by (simp add: he_cmp_Less_iff)
    qed
  qed
qed

lemma nh_popleft_frame [state_simps]:
  "nh_popleft h = (r, h') \<Longrightarrow>
     nh_node h' = nh_node h \<and> nh_contacted h' = nh_contacted h \<and> nh_maxsize h' = nh_maxsize h"
  by (auto simp: nh_popleft_def split: option.splits)

lemma nh_popleft_None: "nh_popleft h = (None, h') \<longleftrightarrow> nh_heap h = [] \<and> h' = h"
  by (auto simp: nh_popleft_def split: option.splits)

lemma nh_popleft_inv [wf_intros]:
  assumes "nh_inv h" and "nh_popleft h = (r, h')"
  shows "nh_inv h'"
proof -
  have "nh_inv (h\<lparr>nh_heap := remove1 e (nh_heap h)\<rparr>)" for e
    using assms(1) length_remove1_le [of e "nh_heap h"]
    by (intro nh_inv_restrict set_remove1_subset) (simp_all add: nh_inv_def nh_wf_def distinct_map_remove1I)
  with assms show ?thesis
    by (auto simp: nh_popleft_def split: option.splits)
qed

section \<open>The lookup frontier interface\<close>

text \<open>
  What the iterative lookup of \<^verbatim>\<open>src/crawling.rs\<close> relies on of its set of nearest nodes: which
  operations may add members, that only \<open>mark\<close> changes the contacted identifiers, and that
  \<open>uncontacted\<close> lists exactly the members not yet contacted. Identifiers are 20-byte arrays, so
  marking uncontacted members makes progress in a finite space.
\<close>

definition id_space :: "bytes set" where
  "id_space = {i. length i = ID_LEN}"

lemma finite_id_space: "finite id_space"
  using finite_lists_length_eq [of "UNIV :: u8 set" ID_LEN] by (simp add: id_space_def)

locale lookup_frontier =
  fixes push :: "node list \<Rightarrow> 'h \<Rightarrow> 'h" and remove :: "bytes list \<Rightarrow> 'h \<Rightarrow> 'h"
    and mark :: "node \<Rightarrow> 'h \<Rightarrow> 'h" and uncontacted :: "'h \<Rightarrow> node list"
    and contacted :: "'h \<Rightarrow> bytes set" and members :: "'h \<Rightarrow> node set"
    and invar :: "'h \<Rightarrow> bool"
  assumes invar_push: "invar h \<Longrightarrow> \<forall>n \<in> set ns. wf_node n \<Longrightarrow> invar (push ns h)"
    and invar_remove: "invar h \<Longrightarrow> invar (remove ps h)"
    and invar_mark: "invar h \<Longrightarrow> invar (mark n h)"
    and members_wf: "invar h \<Longrightarrow> n \<in> members h \<Longrightarrow> wf_node n"
    and members_push: "members (push ns h) \<subseteq> members h \<union> set ns"
    and members_remove: "members (remove ps h) = {n \<in> members h. node_id n \<notin> set ps}"
    and members_mark: "members (mark n h) = members h"
    and contacted_push: "contacted (push ns h) = contacted h"
    and contacted_remove: "contacted (remove ps h) = contacted h"
    and contacted_mark: "contacted (mark n h) = insert (node_id n) (contacted h)"
    and set_uncontacted:
      "invar h \<Longrightarrow> set (uncontacted h) = {n \<in> members h. node_id n \<notin> contacted h}"
begin

lemma mark_all:
  "contacted (fold mark ns h) = contacted h \<union> node_id ` set ns \<and>
   members (fold mark ns h) = members h \<and> (invar h \<longrightarrow> invar (fold mark ns h))"
  by (induction ns arbitrary: h) (auto simp: contacted_mark members_mark invar_mark)

lemma mark_progress:
  assumes inv: "invar h" and "set ns \<subseteq> set (uncontacted h)" and "ns \<noteq> []"
  shows "card (id_space - contacted (fold mark ns h)) < card (id_space - contacted h)"
proof -
  obtain n where n: "n \<in> set ns" using assms(3) by (cases ns) auto
  with assms(2) set_uncontacted [OF inv] have "n \<in> members h" "node_id n \<notin> contacted h"
    by auto
  then have "node_id n \<in> id_space - contacted h"
    using members_wf [OF inv] by (auto simp: id_space_def wf_node_def)
  moreover have "node_id n \<in> contacted (fold mark ns h)"
    using n by (simp add: mark_all)
  ultimately have "id_space - contacted (fold mark ns h) \<subset> id_space - contacted h"
    by (auto simp: mark_all)
  then show ?thesis
    using finite_id_space by (intro psubset_card_mono) auto
qed

lemma exhausted_iff:
  "invar h \<Longrightarrow> uncontacted h = [] \<longleftrightarrow> node_id ` members h \<subseteq> contacted h"
  using set_uncontacted [of h] set_empty [of "uncontacted h"] by auto

end

interpretation nh: lookup_frontier nh_push nh_remove nh_mark_contacted nh_get_uncontacted
  nh_contacted nh_members nh_inv
proof unfold_locales
  show "nh_inv h \<Longrightarrow> \<forall>n \<in> set ns. wf_node n \<Longrightarrow> nh_inv (nh_push ns h)" for h ns
    by (rule nh_push_inv) (simp_all add: nh_inv_def)
  show "nh_inv h \<Longrightarrow> n \<in> nh_members h \<Longrightarrow> wf_node n" for h n
    by (auto simp: nh_inv_def nh_wf_def nh_entry_ok_def nh_members_def)
qed (simp_all add: nh_push_members nh_remove_inv nh_remove_members set_nh_uncontacted)

section \<open>Properties\<close>

text \<open>
  Pushing a batch of well-formed peers into a heap keeps its invariant (no duplicate
  identifier, distances relative to the pivot, at most \<open>maxsize\<close> entries); it keeps as many
  candidates as fit, invents none, and no dropped candidate is closer to the pivot than a kept one.
\<close>

theorem nh_push_keeps_k_closest:
  assumes "nh_inv h" and "\<forall>n \<in> set ns. wf_node n"
  shows "nh_inv (nh_push ns h) \<and>
    nh_members (nh_push ns h) \<subseteq> nh_members h \<union> set ns \<and>
    length (nh_heap (nh_push ns h)) = min (nh_maxsize h) (card (nh_ids h \<union> node_id ` set ns)) \<and>
    (\<forall>a \<in> nh_members (nh_push ns h). \<forall>b \<in> nh_members h \<union> set ns.
       node_id b \<notin> nh_ids (nh_push ns h) \<longrightarrow>
       distance_to (nh_node h) a \<le> distance_to (nh_node h) b)"
proof -
  have wf: "nh_wf h" using assms(1) by (simp add: nh_inv_def)
  show ?thesis
    using nh_push_inv [OF wf assms(2)] nh_push_members [of ns h] nh_push_card [OF wf assms(2)]
      nh_push_closest [OF wf assms(2)] by blast
qed

theorem nh_push_keeps_k_closest_witness:
  "let h = nh_new (from_id (replicate 20 0)) 1;
       ns = [from_id (replicate 20 3), from_id (replicate 20 1)]
   in nh_inv (nh_push ns h) \<and> length (nh_heap (nh_push ns h)) = 1"
proof -
  let ?h = "nh_new (from_id (replicate 20 0)) 1"
  let ?ns = "[from_id (replicate 20 3), from_id (replicate 20 1)]"
  have wf: "\<forall>n \<in> set ?ns. wf_node n" by (simp add: ID_LEN_def)
  note r = nh_push_keeps_k_closest [OF nh_inv_new wf, of "from_id (replicate 20 0)" 1]
  have "card (nh_ids ?h \<union> node_id ` set ?ns) = 2"
    by (simp add: nh_ids_def nh_members_def nh_new_def numeral_eq_Suc)
  with r show ?thesis by (simp add: Let_def nh_new_def)
qed

text \<open>
  \<open>popleft\<close> on a non-empty heap returns a member with the least distance to the pivot (the
  least identifier among equals), removes exactly that member and keeps the invariant.
\<close>

theorem nh_popleft_closest:
  assumes "nh_inv h" and "nh_popleft h = (Some n, h')"
  shows "nh_inv h' \<and> n \<in> nh_members h \<and> nh_members h' = nh_members h - {n} \<and>
    (\<forall>m \<in> nh_members h. distance_to (nh_node h) n < distance_to (nh_node h) m \<or>
       distance_to (nh_node h) n = distance_to (nh_node h) m \<and> node_id n \<le> node_id m)"
proof -
  obtain e where e: "heap_greatest (nh_heap h) = Some e" and n: "n = he_node e"
    and h': "h' = h\<lparr>nh_heap := remove1 e (nh_heap h)\<rparr>"
    using assms(2) by (auto simp: nh_popleft_def split: option.splits)
  note g = heap_greatest_Some [OF e]
  have wf: "nh_wf h" using assms(1) by (simp add: nh_inv_def)
  then have d: "distinct (nh_heap h)" "inj_on he_node (set (nh_heap h))"
    by (auto simp: nh_wf_def distinct_map inj_on_def)
  have dist: "x \<in> set (nh_heap h) \<Longrightarrow> he_distance x = distance_to (nh_node h) (he_node x)" for x
    using wf by (simp add: nh_wf_def nh_entry_ok_def)
  have "nh_members h' = nh_members h - {n}"
    using g d by (auto simp: nh_members_def h' n inj_on_def)
  moreover have "\<forall>m \<in> nh_members h. distance_to (nh_node h) n < distance_to (nh_node h) m \<or>
       distance_to (nh_node h) n = distance_to (nh_node h) m \<and> node_id n \<le> node_id m"
    using g dist by (auto simp: nh_members_def n he_closer_def)
  ultimately show ?thesis
    using nh_popleft_inv [OF assms] g by (simp add: nh_members_def n)
qed

theorem nh_popleft_closest_witness:
  "\<exists>n h'. nh_popleft (nh_push_one (from_id (replicate 20 7)) (nh_new (from_id (replicate 20 0)) 3)) =
     (Some n, h') \<and> nh_inv h' \<and> nh_members h' = {}"
proof -
  let ?p = "from_id (replicate 20 0)" and ?q = "from_id (replicate 20 7)"
  let ?h = "nh_push_one ?q (nh_new ?p 3)"
  have heap: "nh_heap ?h = [\<lparr>he_distance = distance_to ?p ?q, he_node = ?q\<rparr>]"
    by (simp add: nh_push_one_def nh_push_def nh_new_def nh_contains_def nh_enforce_maxsize_def)
  then obtain h' where pop: "nh_popleft ?h = (Some ?q, h')" by (simp add: nh_popleft_def)
  have inv: "nh_inv ?h"
    unfolding nh_push_one_def using nh_inv_new [of ?p 3]
    by (intro nh_push_inv) (simp_all add: nh_inv_def ID_LEN_def)
  show ?thesis
    using nh_popleft_closest [OF inv pop] pop heap by (auto simp: nh_members_def)
qed

text \<open>
  The XOR distance is a metric on folded identifiers: symmetric, zero exactly for equal folded
  identifiers, satisfying the triangle inequality over the integers, and unidirectional (for a
  point and a distance there is at most one folded identifier at that distance).
\<close>

theorem distance_to_metric:
  "distance_to a b = distance_to b a \<and>
   (distance_to a b = 0 \<longleftrightarrow> long_id a = long_id b) \<and>
   unat (distance_to a c) \<le> unat (distance_to a b) + unat (distance_to b c) \<and>
   (distance_to a b = distance_to a c \<longleftrightarrow> long_id b = long_id c)"
  using dist.d_sym dist.d_zero_iff dist.d_triangle dist.d_unidirectional by blast

text \<open>
  The comments of \<open>Node\<close> say that folding a 20-byte identifier into 128 bits keeps all bits
  without loss. It does not: there are distinct well-formed peers whose folded identifiers are
  equal, so their distance is zero.
\<close>

theorem id_to_u128_collision:
  "\<exists>a b. wf_node a \<and> wf_node b \<and> node_id a \<noteq> node_id b \<and> distance_to a b = 0"
proof -
  let ?i = "[0, 0, 0, 0, 0, 0, 0, 0, 0, 0, 0, 0, 0, 0, 0, 0, 0, 0, 0, 0] :: bytes"
  let ?j = "[1, 0, 0, 0, 0, 0, 0, 0, 0, 0, 0, 0, 0, 0, 0, 0, 1, 0, 0, 0] :: bytes"
  have "id_to_u128 ?i = 0" "id_to_u128 ?j = 0"
    by (simp_all add: id_to_u128_def from_be_bytes_def be_nat_def)
  then have "wf_node (from_id ?i) \<and> wf_node (from_id ?j) \<and>
      node_id (from_id ?i) \<noteq> node_id (from_id ?j) \<and> distance_to (from_id ?i) (from_id ?j) = 0"
    by (simp add: ID_LEN_def distance_to_def)
  then show ?thesis by blast
qed

end
