(* ===== verification/KBucket.thy ===== *)
theory KBucket
  imports Node
begin

text \<open>
  \<^verbatim>\<open>src/routing.rs\<close>, struct \<open>KBucket\<close>: a bucket over a range of folded identifiers, with its
  primary nodes in least-recently-seen order and its replacement list. Times are seconds since
  the epoch. The bucket invariant says that identifiers are pairwise distinct, both lists are
  bounded, replacements wait only behind a full primary list and every node lies in the range.
\<close>

section \<open>KBucket\<close>

record kbucket =
  kb_lo :: u128
  kb_hi :: u128
  kb_nodes :: "node list"
  kb_replacement_nodes :: "node list"
  kb_ksize :: nat
  kb_max_replacement_nodes :: nat
  kb_last_updated :: nat

definition kb_new :: "nat \<Rightarrow> u128 \<Rightarrow> u128 \<Rightarrow> nat \<Rightarrow> kbucket" where
  "kb_new now lo hi ksize =
     \<lparr>kb_lo = lo, kb_hi = hi, kb_nodes = [], kb_replacement_nodes = [], kb_ksize = ksize,
      kb_max_replacement_nodes = ksize * 5, kb_last_updated = now\<rparr>"

definition kb_touch_last_updated :: "nat \<Rightarrow> kbucket \<Rightarrow> kbucket" where
  "kb_touch_last_updated now b = b\<lparr>kb_last_updated := now\<rparr>"

text \<open>\<open>while len > cap { pop_front }\<close>\<close>

fun evict_oldest :: "nat \<Rightarrow> node list \<Rightarrow> node list" where
  "evict_oldest cap [] = []"
| "evict_oldest cap (x # xs) = (if length (x # xs) > cap then evict_oldest cap xs else x # xs)"

definition kb_add_node :: "node \<Rightarrow> kbucket \<Rightarrow> bool \<times> kbucket" where
  "kb_add_node n b =
     (case position (\<lambda>m. node_id m = node_id n) (kb_nodes b) of
        Some pos \<Rightarrow> (True, b\<lparr>kb_nodes := remove_at pos (kb_nodes b) @ [n]\<rparr>)
      | None \<Rightarrow>
          if length (kb_nodes b) < kb_ksize b then (True, b\<lparr>kb_nodes := kb_nodes b @ [n]\<rparr>)
          else
            let rs = (case position (\<lambda>m. node_id m = node_id n) (kb_replacement_nodes b) of
                        Some pos \<Rightarrow> remove_at pos (kb_replacement_nodes b)
                      | None \<Rightarrow> kb_replacement_nodes b)
            in (False, b\<lparr>kb_replacement_nodes :=
                  evict_oldest (kb_max_replacement_nodes b) (rs @ [n])\<rparr>))"

definition kb_remove_node :: "node \<Rightarrow> kbucket \<Rightarrow> kbucket" where
  "kb_remove_node n b =
     (let rs = filter (\<lambda>m. node_id m \<noteq> node_id n) (kb_replacement_nodes b)
      in case position (\<lambda>m. node_id m = node_id n) (kb_nodes b) of
           None \<Rightarrow> b\<lparr>kb_replacement_nodes := rs\<rparr>
         | Some pos \<Rightarrow>
             let ns = remove_at pos (kb_nodes b)
             in if rs = [] then b\<lparr>kb_nodes := ns, kb_replacement_nodes := rs\<rparr>
                else b\<lparr>kb_nodes := ns @ [last rs], kb_replacement_nodes := butlast rs\<rparr>)"

definition kb_contains :: "kbucket \<Rightarrow> node \<Rightarrow> bool" where
  "kb_contains b n \<longleftrightarrow> list_ex (\<lambda>m. node_id m = node_id n) (kb_nodes b)"

definition kb_midpoint :: "kbucket \<Rightarrow> u128" where
  "kb_midpoint b = kb_lo b + (kb_hi b - kb_lo b) div 2"

fun kb_distribute :: "u128 \<Rightarrow> node list \<Rightarrow> kbucket \<times> kbucket \<Rightarrow> kbucket \<times> kbucket" where
  "kb_distribute mid [] (low, high) = (low, high)"
| "kb_distribute mid (n # ns) (low, high) =
     (if long_id n \<le> mid then kb_distribute mid ns (snd (kb_add_node n low), high)
      else kb_distribute mid ns (low, snd (kb_add_node n high)))"

definition kb_split :: "nat \<Rightarrow> kbucket \<Rightarrow> kbucket \<times> kbucket" where
  "kb_split now b =
     (let mid = kb_midpoint b;
          low = kb_new now (kb_lo b) mid (kb_ksize b);
          high = kb_new now (mid + 1) (kb_hi b) (kb_ksize b)
      in kb_distribute mid (kb_nodes b @ kb_replacement_nodes b) (low, high))"

definition kb_depth :: "kbucket \<Rightarrow> nat" where
  "kb_depth b =
     (case kb_nodes b of
        [] \<Rightarrow> 0
      | [n] \<Rightarrow> length (node_id n) * 8
      | n # rest \<Rightarrow>
          let first = node_id n
          in length (takeWhile
               (\<lambda>(byte_idx, shift).
                  list_all (\<lambda>m. bit (node_id m ! byte_idx) shift = bit (first ! byte_idx) shift) rest)
               (concat (map (\<lambda>byte_idx. map (\<lambda>shift. (byte_idx, shift)) (rev [0..<8]))
                  [0..<length first]))))"

definition kb_is_lonely :: "nat \<Rightarrow> kbucket \<Rightarrow> bool" where
  "kb_is_lonely now b \<longleftrightarrow> now - kb_last_updated b > 3600"

definition kb_head :: "kbucket \<Rightarrow> node option" where
  "kb_head b = (case kb_nodes b of [] \<Rightarrow> None | n # _ \<Rightarrow> Some n)"

definition kb_len :: "kbucket \<Rightarrow> nat" where
  "kb_len b = length (kb_nodes b)"

definition kb_is_empty :: "kbucket \<Rightarrow> bool" where
  "kb_is_empty b \<longleftrightarrow> kb_nodes b = []"

definition kb_covers :: "kbucket \<Rightarrow> u128 \<Rightarrow> bool" where
  "kb_covers b x \<longleftrightarrow> kb_lo b \<le> x \<and> x \<le> kb_hi b"

section \<open>Bucket invariant\<close>

definition kb_known :: "kbucket \<Rightarrow> node set" where
  "kb_known b = set (kb_nodes b) \<union> set (kb_replacement_nodes b)"

definition kb_inv :: "kbucket \<Rightarrow> bool" where
  "kb_inv b \<longleftrightarrow>
     distinct (map node_id (kb_nodes b @ kb_replacement_nodes b)) \<and>
     length (kb_nodes b) \<le> kb_ksize b \<and>
     length (kb_replacement_nodes b) \<le> kb_max_replacement_nodes b \<and>
     (kb_replacement_nodes b \<noteq> [] \<longrightarrow> length (kb_nodes b) = kb_ksize b) \<and>
     (\<forall>n \<in> kb_known b. wf_node n \<and> kb_covers b (long_id n))"

lemma evict_oldest_drop: "evict_oldest cap xs = drop (length xs - cap) xs"
  by (induction cap xs rule: evict_oldest.induct) (auto simp: Suc_diff_le)

lemma kb_new_simps [simp, state_simps]:
  "kb_lo (kb_new now lo hi k) = lo" "kb_hi (kb_new now lo hi k) = hi"
  "kb_nodes (kb_new now lo hi k) = []" "kb_replacement_nodes (kb_new now lo hi k) = []"
  "kb_ksize (kb_new now lo hi k) = k" "kb_max_replacement_nodes (kb_new now lo hi k) = k * 5"
  by (simp_all add: kb_new_def)

lemma kb_touch_simps [simp, state_simps]:
  "kb_lo (kb_touch_last_updated now b) = kb_lo b" "kb_hi (kb_touch_last_updated now b) = kb_hi b"
  "kb_nodes (kb_touch_last_updated now b) = kb_nodes b"
  "kb_replacement_nodes (kb_touch_last_updated now b) = kb_replacement_nodes b"
  "kb_ksize (kb_touch_last_updated now b) = kb_ksize b"
  "kb_max_replacement_nodes (kb_touch_last_updated now b) = kb_max_replacement_nodes b"
  "kb_known (kb_touch_last_updated now b) = kb_known b"
  "kb_covers (kb_touch_last_updated now b) x = kb_covers b x"
  by (simp_all add: kb_touch_last_updated_def kb_known_def kb_covers_def)

lemma kb_add_node_frame [simp, state_simps]:
  "kb_lo (snd (kb_add_node n b)) = kb_lo b" "kb_hi (snd (kb_add_node n b)) = kb_hi b"
  "kb_ksize (snd (kb_add_node n b)) = kb_ksize b"
  "kb_max_replacement_nodes (snd (kb_add_node n b)) = kb_max_replacement_nodes b"
  "kb_covers (snd (kb_add_node n b)) x = kb_covers b x"
  by (simp_all add: kb_add_node_def kb_covers_def Let_def split: option.split)

lemma kb_remove_node_frame [simp, state_simps]:
  "kb_lo (kb_remove_node n b) = kb_lo b" "kb_hi (kb_remove_node n b) = kb_hi b"
  "kb_ksize (kb_remove_node n b) = kb_ksize b"
  "kb_max_replacement_nodes (kb_remove_node n b) = kb_max_replacement_nodes b"
  "kb_covers (kb_remove_node n b) x = kb_covers b x"
  by (simp_all add: kb_remove_node_def kb_covers_def Let_def split: option.split)

lemma kb_new_inv [simp, wf_intros]: "kb_inv (kb_new now lo hi k)"
  by (simp add: kb_inv_def kb_known_def)

lemma kb_touch_inv [simp, wf_intros]: "kb_inv (kb_touch_last_updated now b) = kb_inv b"
  by (simp add: kb_inv_def)

text \<open>The three outcomes of \<open>add_node\<close> on a bucket with pairwise distinct identifiers.\<close>

lemma kb_add_node_known:
  assumes "kb_inv b" and "node_id n \<in> node_id ` set (kb_nodes b)"
  shows "kb_add_node n b =
    (True, b\<lparr>kb_nodes := filter (\<lambda>m. node_id m \<noteq> node_id n) (kb_nodes b) @ [n]\<rparr>)"
proof -
  from assms(2) obtain m where "m \<in> set (kb_nodes b)" "node_id m = node_id n" by auto
  then obtain i where i: "position (\<lambda>m. node_id m = node_id n) (kb_nodes b) = Some i"
    using ex_position [of m "kb_nodes b" "\<lambda>m. node_id m = node_id n"] by blast
  moreover have "distinct (map node_id (kb_nodes b))"
    using assms(1) by (simp add: kb_inv_def)
  ultimately show ?thesis by (simp add: kb_add_node_def remove_at_position_filter)
qed

lemma position_key_None: "k \<notin> f ` set xs \<Longrightarrow> position (\<lambda>x. f x = k) xs = None"
  by (auto simp: position_None_iff)

lemma kb_add_node_room:
  assumes "node_id n \<notin> node_id ` set (kb_nodes b)" and "length (kb_nodes b) < kb_ksize b"
  shows "kb_add_node n b = (True, b\<lparr>kb_nodes := kb_nodes b @ [n]\<rparr>)"
  using assms by (simp add: kb_add_node_def position_key_None)

lemma kb_add_node_full:
  assumes "kb_inv b" and "node_id n \<notin> node_id ` set (kb_nodes b)"
    and "length (kb_nodes b) = kb_ksize b"
  shows "kb_add_node n b = (False, b\<lparr>kb_replacement_nodes :=
    evict_oldest (kb_max_replacement_nodes b)
      (filter (\<lambda>m. node_id m \<noteq> node_id n) (kb_replacement_nodes b) @ [n])\<rparr>)"
proof -
  let ?rs = "kb_replacement_nodes b"
  have dist: "distinct (map node_id ?rs)" using assms(1) by (simp add: kb_inv_def)
  have "(case position (\<lambda>m. node_id m = node_id n) ?rs of Some pos \<Rightarrow> remove_at pos ?rs | None \<Rightarrow> ?rs)
    = filter (\<lambda>m. node_id m \<noteq> node_id n) ?rs"
  proof (cases "position (\<lambda>m. node_id m = node_id n) ?rs")
    case None
    then have "filter (\<lambda>m. node_id m \<noteq> node_id n) ?rs = ?rs"
      by (simp add: position_None_iff filter_id_conv)
    with None show ?thesis by simp
  next
    case (Some i)
    with dist show ?thesis by (simp add: remove_at_position_filter)
  qed
  then show ?thesis using assms(2,3) by (simp add: kb_add_node_def position_key_None)
qed

lemma kb_add_node_cases [consumes 1]:
  assumes "kb_inv b"
  obtains (known) "node_id n \<in> node_id ` set (kb_nodes b)"
    | (room) "node_id n \<notin> node_id ` set (kb_nodes b)" "length (kb_nodes b) < kb_ksize b"
    | (full) "node_id n \<notin> node_id ` set (kb_nodes b)" "length (kb_nodes b) = kb_ksize b"
  using assms by (auto simp: kb_inv_def le_less)

lemma kb_inv_room_no_replacements:
  "kb_inv b \<Longrightarrow> length (kb_nodes b) < kb_ksize b \<Longrightarrow> kb_replacement_nodes b = []"
  by (auto simp: kb_inv_def)

lemma length_filter_key_eq:
  "distinct (map f xs) \<Longrightarrow> x \<in> set xs \<Longrightarrow> f x = k \<Longrightarrow>
     Suc (length (filter (\<lambda>y. f y \<noteq> k) xs)) = length xs"
proof (induction xs)
  case (Cons y ys)
  show ?case
  proof (cases "f y = k")
    case True
    with Cons.prems(1) have "filter (\<lambda>y. f y \<noteq> k) ys = ys"
      by (auto simp: filter_id_conv image_iff)
    with True show ?thesis by simp
  next
    case False
    with Cons show ?thesis by auto
  qed
qed simp

lemma kb_add_node_inv [wf_intros]:
  assumes "kb_inv b" and "wf_node n" and "kb_covers b (long_id n)"
  shows "kb_inv (snd (kb_add_node n b))"
  using assms(1)
proof (cases rule: kb_add_node_cases [where n = n])
  case known
  let ?ns = "filter (\<lambda>m. node_id m \<noteq> node_id n) (kb_nodes b)"
  obtain m where m: "m \<in> set (kb_nodes b)" "node_id m = node_id n" using known by auto
  have len: "length ?ns + 1 = length (kb_nodes b)"
  proof -
    have "distinct (map node_id (kb_nodes b))" using assms(1) by (simp add: kb_inv_def)
    then show ?thesis using m by (simp add: length_filter_key_eq)
  qed
  have "distinct (map node_id (?ns @ [n]))"
    using assms(1) by (auto simp: kb_inv_def distinct_map_filterI)
  moreover have "node_id n \<notin> node_id ` set (kb_replacement_nodes b)"
    using assms(1) known by (auto simp: kb_inv_def)
  ultimately show ?thesis
    using assms len by (auto simp: kb_add_node_known [OF assms(1) known] kb_inv_def kb_known_def kb_covers_def)
next
  case room
  then show ?thesis
    using assms kb_inv_room_no_replacements [OF assms(1) room(2)]
    by (auto simp: kb_add_node_room kb_inv_def kb_known_def kb_covers_def)
next
  case full
  define rs where "rs = filter (\<lambda>m. node_id m \<noteq> node_id n) (kb_replacement_nodes b) @ [n]"
  define ev where "ev = drop (length rs - kb_max_replacement_nodes b) rs"
  have add: "kb_add_node n b = (False, b\<lparr>kb_replacement_nodes := ev\<rparr>)"
    using kb_add_node_full [OF assms(1) full] by (simp only: rs_def ev_def evict_oldest_drop)
  have d: "distinct (map node_id rs)" "node_id ` set (kb_nodes b) \<inter> node_id ` set rs = {}"
    using assms(1) full by (auto simp: rs_def kb_inv_def distinct_map_filterI)
  have sub: "set ev \<subseteq> set rs" by (simp add: ev_def set_drop_subset)
  have "distinct (map node_id ev)" using d(1) by (simp add: ev_def drop_map [symmetric])
  moreover have "node_id ` set (kb_nodes b) \<inter> node_id ` set ev = {}"
    using d(2) image_mono [OF sub, of node_id] by blast
  moreover have "\<forall>m \<in> set rs. wf_node m \<and> kb_covers b (long_id m)"
    using assms by (auto simp: rs_def kb_inv_def kb_known_def)
  moreover have "length ev \<le> kb_max_replacement_nodes b" by (simp add: ev_def)
  ultimately show ?thesis
    using assms(1) full sub by (auto simp: add kb_inv_def kb_known_def kb_covers_def)
qed

lemma kb_add_node_eq:
  assumes "kb_inv b"
  shows "kb_add_node n b =
    (if node_id n \<in> node_id ` set (kb_nodes b)
     then (True, b\<lparr>kb_nodes := filter (\<lambda>m. node_id m \<noteq> node_id n) (kb_nodes b) @ [n]\<rparr>)
     else if length (kb_nodes b) < kb_ksize b
     then (True, b\<lparr>kb_nodes := kb_nodes b @ [n]\<rparr>)
     else (False, b\<lparr>kb_replacement_nodes := evict_oldest (kb_max_replacement_nodes b)
            (filter (\<lambda>m. node_id m \<noteq> node_id n) (kb_replacement_nodes b) @ [n])\<rparr>))"
  using assms
  by (cases rule: kb_add_node_cases [where n = n])
    (simp_all add: assms kb_add_node_known kb_add_node_room kb_add_node_full)

lemma kb_add_node_outcome:
  assumes "kb_inv b"
  shows "kb_known (snd (kb_add_node n b)) \<subseteq> insert n (kb_known b)"
    and "node_id ` set (kb_nodes b) \<subseteq> node_id ` set (kb_nodes (snd (kb_add_node n b)))"
    and "fst (kb_add_node n b) \<Longrightarrow> n \<in> set (kb_nodes (snd (kb_add_node n b)))"
    and "\<not> fst (kb_add_node n b) \<Longrightarrow>
      kb_nodes (snd (kb_add_node n b)) = kb_nodes b \<and> kb_ksize b \<le> length (kb_nodes b) \<and>
      node_id n \<notin> node_id ` set (kb_nodes b) \<and>
      (0 < kb_max_replacement_nodes b \<longrightarrow> n \<in> set (kb_replacement_nodes (snd (kb_add_node n b))))"
  using kb_add_node_eq [OF assms, of n]
  by (auto simp: evict_oldest_drop kb_known_def drop_Cons' split: if_splits dest: in_set_dropD)

subsection \<open>Removing a node\<close>

lemma kb_remove_node_eq:
  assumes "kb_inv b"
  shows "kb_remove_node n b =
    (if node_id n \<notin> node_id ` set (kb_nodes b)
     then b\<lparr>kb_replacement_nodes :=
            filter (\<lambda>m. node_id m \<noteq> node_id n) (kb_replacement_nodes b)\<rparr>
     else if kb_replacement_nodes b = []
     then b\<lparr>kb_nodes := filter (\<lambda>m. node_id m \<noteq> node_id n) (kb_nodes b)\<rparr>
     else b\<lparr>kb_nodes := filter (\<lambda>m. node_id m \<noteq> node_id n) (kb_nodes b)
                        @ [last (kb_replacement_nodes b)],
            kb_replacement_nodes := butlast (kb_replacement_nodes b)\<rparr>)"
proof (cases "node_id n \<in> node_id ` set (kb_nodes b)")
  case False
  then show ?thesis by (simp add: kb_remove_node_def position_key_None)
next
  case True
  then obtain m where "m \<in> set (kb_nodes b)" "node_id m = node_id n" by auto
  then obtain i where i: "position (\<lambda>m. node_id m = node_id n) (kb_nodes b) = Some i"
    using ex_position [of m "kb_nodes b" "\<lambda>m. node_id m = node_id n"] by blast
  have d: "distinct (map node_id (kb_nodes b))"
    "node_id ` set (kb_nodes b) \<inter> node_id ` set (kb_replacement_nodes b) = {}"
    using assms by (auto simp: kb_inv_def)
  have "filter (\<lambda>m. node_id m \<noteq> node_id n) (kb_replacement_nodes b) = kb_replacement_nodes b"
    using True d(2) by (force simp: filter_id_conv)
  then show ?thesis
    using True i d(1) by (simp add: kb_remove_node_def remove_at_position_filter Let_def)
qed

lemma kb_remove_node_inv [wf_intros]:
  assumes "kb_inv b"
  shows "kb_inv (kb_remove_node n b)"
proof (cases "node_id n \<in> node_id ` set (kb_nodes b) \<and> kb_replacement_nodes b \<noteq> []")
  case False
  then show ?thesis
    using assms
    by (auto simp: kb_remove_node_eq [OF assms] kb_inv_def kb_known_def kb_covers_def
        distinct_map_filterI intro: order_trans [OF length_filter_le])
next
  case True
  define ns where "ns = filter (\<lambda>m. node_id m \<noteq> node_id n) (kb_nodes b)"
  from True obtain rs r where rs: "kb_replacement_nodes b = rs @ [r]"
    by (metis append_butlast_last_id)
  from True obtain m where "m \<in> set (kb_nodes b)" "node_id m = node_id n" by auto
  then have len: "Suc (length ns) = length (kb_nodes b)"
    using assms by (simp add: ns_def kb_inv_def length_filter_key_eq)
  have eq: "kb_remove_node n b = b\<lparr>kb_nodes := ns @ [r], kb_replacement_nodes := rs\<rparr>"
    using True by (simp add: kb_remove_node_eq [OF assms] rs ns_def)
  have sub: "set ns \<subseteq> set (kb_nodes b)" by (auto simp: ns_def)
  have ids: "distinct (map node_id ns)" "distinct (map node_id rs)"
    "node_id r \<notin> node_id ` set rs" "node_id r \<notin> node_id ` set (kb_nodes b)"
    "node_id ` set (kb_nodes b) \<inter> node_id ` set rs = {}"
    using assms by (simp_all add: ns_def kb_inv_def rs distinct_map_filterI)
  have "distinct (map node_id ((ns @ [r]) @ rs))"
    using ids image_mono [OF sub, of node_id] by (simp, blast)
  moreover have "\<forall>m \<in> set ns \<union> {r} \<union> set rs. wf_node m \<and> kb_covers b (long_id m)"
    using assms sub by (auto simp: kb_inv_def kb_known_def rs)
  ultimately show ?thesis
    using assms len by (simp add: eq rs kb_inv_def kb_known_def kb_covers_def)
qed

lemma kb_remove_node_known:
  assumes "kb_inv b"
  shows "kb_known (kb_remove_node n b) = {m \<in> kb_known b. node_id m \<noteq> node_id n}"
proof (cases "node_id n \<in> node_id ` set (kb_nodes b) \<and> kb_replacement_nodes b \<noteq> []")
  case False
  then show ?thesis by (auto simp: kb_remove_node_eq [OF assms] kb_known_def image_iff)
next
  case True
  then obtain rs r where rs: "kb_replacement_nodes b = rs @ [r]" by (metis append_butlast_last_id)
  have "node_id n \<noteq> node_id r" "node_id n \<notin> node_id ` set rs"
    using True assms by (auto simp: kb_inv_def rs)
  then show ?thesis
    using True by (auto simp: kb_remove_node_eq [OF assms] kb_known_def rs image_iff)
qed

subsection \<open>Splitting a bucket\<close>

definition kb_adds :: "node list \<Rightarrow> kbucket \<Rightarrow> kbucket" where
  "kb_adds ns b = fold (\<lambda>n b. snd (kb_add_node n b)) ns b"

lemma kb_adds_simps [simp]:
  "kb_adds [] b = b" "kb_adds (n # ns) b = kb_adds ns (snd (kb_add_node n b))"
  "kb_adds (ns @ [n]) b = snd (kb_add_node n (kb_adds ns b))"
  by (simp_all add: kb_adds_def)

lemma kb_distribute_adds:
  "kb_distribute mid ns (low, high) =
     (kb_adds (filter (\<lambda>n. long_id n \<le> mid) ns) low,
      kb_adds (filter (\<lambda>n. \<not> long_id n \<le> mid) ns) high)"
  by (induction mid ns "(low, high)" arbitrary: low high rule: kb_distribute.induct) simp_all

lemma kb_adds_frame [simp, state_simps]:
  "kb_lo (kb_adds ns b) = kb_lo b" "kb_hi (kb_adds ns b) = kb_hi b"
  "kb_ksize (kb_adds ns b) = kb_ksize b"
  "kb_max_replacement_nodes (kb_adds ns b) = kb_max_replacement_nodes b"
  by (induction ns arbitrary: b) simp_all

lemma kb_adds_inv:
  assumes "kb_inv b" and "\<forall>n \<in> set ns. wf_node n \<and> kb_covers b (long_id n)"
  shows "kb_inv (kb_adds ns b) \<and> kb_known (kb_adds ns b) \<subseteq> set ns \<union> kb_known b"
  using assms
proof (induction ns arbitrary: b)
  case (Cons n ns)
  have "kb_inv (snd (kb_add_node n b))" using Cons.prems by (simp add: kb_add_node_inv)
  with Cons.IH [of "snd (kb_add_node n b)"] Cons.prems show ?case
    using kb_add_node_outcome(1) [OF Cons.prems(1), of n] by auto
qed simp

lemma kb_adds_new_inv:
  assumes "\<forall>n \<in> set ns. wf_node n \<and> lo \<le> long_id n \<and> long_id n \<le> hi"
  shows "kb_inv (kb_adds ns (kb_new now lo hi k)) \<and> kb_known (kb_adds ns (kb_new now lo hi k)) \<subseteq> set ns"
  using assms kb_adds_inv [OF kb_new_inv [of now lo hi k], of ns]
  by (simp add: kb_covers_def kb_known_def)

lemma kb_nodes_add_fresh:
  "node_id n \<notin> node_id ` set (kb_nodes b) \<Longrightarrow>
     kb_nodes (snd (kb_add_node n b)) =
       (if length (kb_nodes b) < kb_ksize b then kb_nodes b @ [n] else kb_nodes b)"
  by (simp add: kb_add_node_def position_key_None Let_def)

lemma kb_nodes_adds_new:
  "distinct (map node_id ns) \<Longrightarrow> kb_nodes (kb_adds ns (kb_new now lo hi k)) = take k ns"
proof (induction ns rule: rev_induct)
  case (snoc n ns)
  have "node_id n \<notin> node_id ` set (take k ns)"
    using snoc.prems by (auto dest: in_set_takeD)
  with snoc show ?case by (auto simp: kb_nodes_add_fresh)
qed simp

text \<open>The two halves of a bucket: they partition its range, hold only its nodes and keep its primary nodes.\<close>

lemma unat_midpoint:
  assumes "kb_lo b \<le> kb_hi b"
  shows "unat (kb_midpoint b) = unat (kb_lo b) + (unat (kb_hi b) - unat (kb_lo b)) div 2"
proof -
  let ?d = "(kb_hi b - kb_lo b) div 2"
  have d: "unat ?d = (unat (kb_hi b) - unat (kb_lo b)) div 2"
    using assms by (simp add: unat_div unat_sub)
  moreover have "unat (kb_lo b) + unat ?d \<le> unat (kb_hi b)"
    using assms d by (simp add: word_le_nat_alt)
  ultimately show ?thesis
    using unat_lt_len [of "kb_hi b"] by (simp add: kb_midpoint_def unat_add_lem [THEN iffD1])
qed

lemma midpoint_bounds:
  assumes "kb_lo b < kb_hi b"
  shows "kb_lo b \<le> kb_midpoint b" "kb_midpoint b < kb_hi b"
    "unat (kb_midpoint b + 1) = Suc (unat (kb_midpoint b))"
proof -
  have m: "unat (kb_midpoint b) = unat (kb_lo b) + (unat (kb_hi b) - unat (kb_lo b)) div 2"
    using assms by (simp add: unat_midpoint)
  show "kb_lo b \<le> kb_midpoint b" by (simp add: word_le_nat_alt m)
  have lt: "unat (kb_midpoint b) < unat (kb_hi b)"
    using assms unfolding m word_less_nat_alt by linarith
  then show "kb_midpoint b < kb_hi b" by (simp add: word_less_nat_alt)
  have "unat (kb_midpoint b) + unat (1 :: u128) < 2 ^ LENGTH(128)"
    using lt unat_lt_len [of "kb_hi b"] by simp
  then show "unat (kb_midpoint b + 1) = Suc (unat (kb_midpoint b))"
    by (simp add: unat_add_lem [THEN iffD1])
qed

lemma kb_split_eq:
  "kb_split now b =
     (kb_adds (filter (\<lambda>n. long_id n \<le> kb_midpoint b) (kb_nodes b @ kb_replacement_nodes b))
        (kb_new now (kb_lo b) (kb_midpoint b) (kb_ksize b)),
      kb_adds (filter (\<lambda>n. \<not> long_id n \<le> kb_midpoint b) (kb_nodes b @ kb_replacement_nodes b))
        (kb_new now (kb_midpoint b + 1) (kb_hi b) (kb_ksize b)))"
  by (simp add: kb_split_def kb_distribute_adds Let_def)

lemma kb_split_frame:
  assumes "kb_split now b = (low, high)"
  shows "kb_lo low = kb_lo b" "kb_hi low = kb_midpoint b"
    "kb_lo high = kb_midpoint b + 1" "kb_hi high = kb_hi b"
    "kb_ksize low = kb_ksize b" "kb_ksize high = kb_ksize b"
    "kb_max_replacement_nodes low = kb_ksize b * 5" "kb_max_replacement_nodes high = kb_ksize b * 5"
  using assms by (auto simp: kb_split_eq)

lemma kb_split_nodes:
  assumes "kb_inv b" and "kb_split now b = (low, high)"
  shows "kb_nodes low = take (kb_ksize b)
      (filter (\<lambda>n. long_id n \<le> kb_midpoint b) (kb_nodes b @ kb_replacement_nodes b))"
    and "kb_nodes high = take (kb_ksize b)
      (filter (\<lambda>n. \<not> long_id n \<le> kb_midpoint b) (kb_nodes b @ kb_replacement_nodes b))"
proof -
  have "distinct (map node_id (filter P (kb_nodes b @ kb_replacement_nodes b)))" for P
    using assms(1) unfolding kb_inv_def by (blast intro: distinct_map_filterI)
  then show "kb_nodes low = take (kb_ksize b)
      (filter (\<lambda>n. long_id n \<le> kb_midpoint b) (kb_nodes b @ kb_replacement_nodes b))"
    and "kb_nodes high = take (kb_ksize b)
      (filter (\<lambda>n. \<not> long_id n \<le> kb_midpoint b) (kb_nodes b @ kb_replacement_nodes b))"
    using assms(2) by (auto simp: kb_split_eq kb_nodes_adds_new simp del: filter_append)
qed

lemma kb_split_keeps_nodes:
  assumes "kb_inv b" and "kb_split now b = (low, high)"
  shows "set (kb_nodes b) \<subseteq> set (kb_nodes low) \<union> set (kb_nodes high)"
proof -
  have "length (filter P (kb_nodes b)) \<le> kb_ksize b" for P
    using assms(1) order_trans [OF length_filter_le] by (auto simp: kb_inv_def)
  then show ?thesis by (auto simp: kb_split_nodes [OF assms])
qed

lemma kb_split_inv:
  assumes "kb_inv b" and "kb_lo b < kb_hi b" and "kb_split now b = (low, high)"
  shows "kb_inv low" "kb_inv high" "kb_known low \<union> kb_known high \<subseteq> kb_known b"
proof -
  note mid = midpoint_bounds [OF assms(2)]
  have wf: "\<forall>n \<in> kb_known b. wf_node n \<and> kb_lo b \<le> long_id n \<and> long_id n \<le> kb_hi b"
    using assms(1) by (auto simp: kb_inv_def kb_covers_def)
  have above: "kb_midpoint b + 1 \<le> x" if "\<not> x \<le> kb_midpoint b" for x
    using that by (simp add: word_le_nat_alt mid(3))
  have all: "set (kb_nodes b @ kb_replacement_nodes b) = kb_known b" by (simp add: kb_known_def)
  have "kb_inv low \<and> kb_known low \<subseteq> kb_known b"
  proof -
    define ns where "ns = filter (\<lambda>n. long_id n \<le> kb_midpoint b) (kb_nodes b @ kb_replacement_nodes b)"
    have "low = kb_adds ns (kb_new now (kb_lo b) (kb_midpoint b) (kb_ksize b))"
      using assms(3) by (simp add: kb_split_eq ns_def)
    moreover have "set ns = {n \<in> kb_known b. long_id n \<le> kb_midpoint b}"
      unfolding ns_def set_filter all ..
    ultimately show ?thesis using wf kb_adds_new_inv [of ns "kb_lo b" "kb_midpoint b" now "kb_ksize b"] by auto
  qed
  moreover have "kb_inv high \<and> kb_known high \<subseteq> kb_known b"
  proof -
    define ns where "ns = filter (\<lambda>n. \<not> long_id n \<le> kb_midpoint b) (kb_nodes b @ kb_replacement_nodes b)"
    have "high = kb_adds ns (kb_new now (kb_midpoint b + 1) (kb_hi b) (kb_ksize b))"
      using assms(3) by (simp add: kb_split_eq ns_def)
    moreover have "set ns = {n \<in> kb_known b. \<not> long_id n \<le> kb_midpoint b}"
      unfolding ns_def set_filter all ..
    ultimately show ?thesis using wf above kb_adds_new_inv [of ns "kb_midpoint b + 1" "kb_hi b" now "kb_ksize b"] by auto
  qed
  ultimately show "kb_inv low" "kb_inv high" "kb_known low \<union> kb_known high \<subseteq> kb_known b"
    by blast+
qed

end
