(* ===== verification/Routing.thy ===== *)
theory Routing
  imports KBucket
begin

text \<open>
  \<^verbatim>\<open>src/routing.rs\<close>: the routing table with binary bucket splitting, the bucket traversal and the
  neighbour search. \<open>touch_last_updated\<close> writes through a shared reference, so the searches return
  the table too. \<open>RoutingTable::insert\<close> may recurse forever, so it is a partial function: \<open>None\<close>
  is not returning.
\<close>

section \<open>RoutingTable\<close>

record routing_table =
  rt_node :: node
  rt_ksize :: nat
  rt_buckets :: "kbucket list"

definition rt_new :: "nat \<Rightarrow> node \<Rightarrow> nat \<Rightarrow> routing_table" where
  "rt_new now n ksize =
     \<lparr>rt_node = n, rt_ksize = ksize, rt_buckets = [kb_new now 0 (- 1) ksize]\<rparr>"

definition rt_bucket_index_for :: "routing_table \<Rightarrow> u128 \<Rightarrow> nat" where
  "rt_bucket_index_for rt x =
     (case position (\<lambda>b. kb_covers b x) (rt_buckets rt) of
        Some i \<Rightarrow> i
      | None \<Rightarrow> length (rt_buckets rt) - 1)"

definition insert_at :: "nat \<Rightarrow> 'a \<Rightarrow> 'a list \<Rightarrow> 'a list" where
  "insert_at i x xs = take i xs @ x # drop i xs"

definition rt_split_bucket :: "nat \<Rightarrow> nat \<Rightarrow> routing_table \<Rightarrow> routing_table" where
  "rt_split_bucket now idx rt =
     (let b = rt_buckets rt ! idx;
          rest = remove_at idx (rt_buckets rt);
          (low, high) = kb_split now b
      in rt\<lparr>rt_buckets := insert_at idx low (insert_at idx high rest)\<rparr>)"

partial_function (option) rt_insert ::
  "nat \<Rightarrow> node \<Rightarrow> routing_table \<Rightarrow> (node option \<times> routing_table) option" where
  "rt_insert now n rt =
     (let idx = rt_bucket_index_for rt (long_id n);
          (ok, b) = kb_add_node n (rt_buckets rt ! idx);
          rt1 = rt\<lparr>rt_buckets := (rt_buckets rt)[idx := b]\<rparr>
      in if ok then Some (None, rt1)
         else if kb_covers b (long_id (rt_node rt)) \<or> kb_depth b mod 5 \<noteq> 0
         then rt_insert now n (rt_split_bucket now idx rt1)
         else Some (kb_head b, rt1))"

definition rt_add_contact ::
  "nat \<Rightarrow> node \<Rightarrow> routing_table \<Rightarrow> (node option \<times> routing_table) option" where
  "rt_add_contact now n rt =
     (if node_id n = node_id (rt_node rt) then Some (None, rt) else rt_insert now n rt)"

definition rt_remove_contact :: "node \<Rightarrow> routing_table \<Rightarrow> routing_table" where
  "rt_remove_contact n rt =
     (let idx = rt_bucket_index_for rt (long_id n)
      in rt\<lparr>rt_buckets := (rt_buckets rt)[idx := kb_remove_node n (rt_buckets rt ! idx)]\<rparr>)"

definition rt_is_new_node :: "routing_table \<Rightarrow> node \<Rightarrow> bool" where
  "rt_is_new_node rt n \<longleftrightarrow>
     \<not> kb_contains (rt_buckets rt ! rt_bucket_index_for rt (long_id n)) n"

definition rt_lonely_buckets :: "nat \<Rightarrow> routing_table \<Rightarrow> kbucket list" where
  "rt_lonely_buckets now rt = filter (kb_is_lonely now) (rt_buckets rt)"

section \<open>TableTraverser and find\_neighbors\<close>

record traverser =
  tt_current :: "node list"
  tt_left :: "kbucket list"
  tt_right :: "kbucket list"
  tt_take_left :: bool

definition tt_new :: "nat \<Rightarrow> routing_table \<Rightarrow> node \<Rightarrow> traverser \<times> routing_table" where
  "tt_new now rt target =
     (let idx = rt_bucket_index_for rt (long_id target);
          rt1 = rt\<lparr>rt_buckets :=
                  (rt_buckets rt)[idx := kb_touch_last_updated now (rt_buckets rt ! idx)]\<rparr>;
          bs = rt_buckets rt1
      in (\<lparr>tt_current = kb_nodes (bs ! idx), tt_left = rev (take idx bs),
           tt_right = rev (drop (Suc idx) bs), tt_take_left = True\<rparr>, rt1))"

text \<open>\<open>Vec::pop\<close> takes the last element.\<close>

function tt_next :: "traverser \<Rightarrow> node option \<times> traverser" where
  "tt_next t =
     (if tt_current t \<noteq> [] then
        (Some (last (tt_current t)), t\<lparr>tt_current := butlast (tt_current t)\<rparr>)
      else if tt_take_left t \<and> tt_left t \<noteq> [] then
        tt_next (t\<lparr>tt_current := kb_nodes (last (tt_left t)), tt_left := butlast (tt_left t),
                   tt_take_left := False\<rparr>)
      else if tt_right t \<noteq> [] then
        tt_next (t\<lparr>tt_current := kb_nodes (last (tt_right t)), tt_right := butlast (tt_right t),
                   tt_take_left := True\<rparr>)
      else if tt_left t \<noteq> [] then
        tt_next (t\<lparr>tt_current := kb_nodes (last (tt_left t)), tt_left := butlast (tt_left t)\<rparr>)
      else (None, t))"
  by pat_completeness auto
termination
  by (relation "measure (\<lambda>t. length (tt_left t) + length (tt_right t))") auto

declare tt_next.simps [simp del]

definition tt_size :: "traverser \<Rightarrow> nat" where
  "tt_size t = length (tt_current t) +
     sum_list (map kb_len (tt_left t)) + sum_list (map kb_len (tt_right t))"

lemma sum_list_butlast:
  "xs \<noteq> [] \<Longrightarrow> sum_list (map f xs) = sum_list (map f (butlast xs)) + (f (last xs) :: nat)"
  by (induction xs rule: rev_induct) auto

lemma tt_next_size: "tt_next t = (Some n, t') \<Longrightarrow> tt_size t = Suc (tt_size t')"
proof (induction t rule: tt_next.induct)
  case (1 t)
  show ?case
  proof (cases "tt_current t = []")
    case False
    with "1.prems" show ?thesis
      by (auto simp: tt_next.simps [of t] tt_size_def Suc_le_eq)
  next
    case True
    with "1.prems" "1.IH" show ?thesis
      by (auto simp: tt_next.simps [of t] tt_size_def kb_len_def sum_list_butlast split: if_splits)
  qed
qed

function rt_collect ::
  "nat \<Rightarrow> node \<Rightarrow> node option \<Rightarrow> traverser \<Rightarrow> (u128 \<times> node) list \<Rightarrow> (u128 \<times> node) list" where
  "rt_collect ksize target exclude t acc =
     (case tt_next t of
        (None, _) \<Rightarrow> acc
      | (Some n, t') \<Rightarrow>
          if node_id n = node_id target then rt_collect ksize target exclude t' acc
          else if (case exclude of Some ex \<Rightarrow> node_id n = node_id ex | None \<Rightarrow> False)
          then rt_collect ksize target exclude t' acc
          else
            let acc' = acc @ [(distance_to n target, n)]
            in if length acc' = ksize then acc'
               else rt_collect ksize target exclude t' acc')"
  by pat_completeness auto
termination
  by (relation "measure (\<lambda>(ksize, target, exclude, t, acc). tt_size t)")
    (auto dest: tt_next_size [OF sym])

declare rt_collect.simps [simp del]

definition rt_find_neighbors ::
  "nat \<Rightarrow> routing_table \<Rightarrow> node \<Rightarrow> node option \<Rightarrow> node list \<times> routing_table" where
  "rt_find_neighbors now rt target exclude =
     (let (t, rt1) = tt_new now rt target;
          ns = rt_collect (rt_ksize rt) target exclude t []
      in (map snd (sort_key fst ns), rt1))"

section \<open>Routing-table invariant\<close>

text \<open>
  The bucket ranges tile the identifier space: \<open>kb_chain s bs e\<close> says that the buckets cover
  \<open>s, \<dots>, e - 1\<close> in order, without gap or overlap.
\<close>

fun kb_chain :: "nat \<Rightarrow> kbucket list \<Rightarrow> nat \<Rightarrow> bool" where
  "kb_chain s [] e \<longleftrightarrow> s = e"
| "kb_chain s (b # bs) e \<longleftrightarrow>
     unat (kb_lo b) = s \<and> kb_lo b \<le> kb_hi b \<and> kb_chain (Suc (unat (kb_hi b))) bs e"

definition kb_ok :: "nat \<Rightarrow> kbucket \<Rightarrow> bool" where
  "kb_ok k b \<longleftrightarrow> kb_inv b \<and> kb_ksize b = k \<and> kb_max_replacement_nodes b = k * 5"

definition rt_known :: "routing_table \<Rightarrow> node set" where
  "rt_known rt = (\<Union>b \<in> set (rt_buckets rt). kb_known b)"

definition rt_contacts :: "routing_table \<Rightarrow> node set" where
  "rt_contacts rt = (\<Union>b \<in> set (rt_buckets rt). set (kb_nodes b))"

definition rt_inv :: "routing_table \<Rightarrow> bool" where
  "rt_inv rt \<longleftrightarrow>
     kb_chain 0 (rt_buckets rt) (2 ^ 128) \<and>
     (\<forall>b \<in> set (rt_buckets rt). kb_ok (rt_ksize rt) b) \<and>
     (\<forall>n \<in> rt_known rt. node_id n \<noteq> node_id (rt_node rt))"

lemma kb_chain_append:
  "kb_chain s (xs @ ys) e \<longleftrightarrow> (\<exists>m. kb_chain s xs m \<and> kb_chain m ys e)"
  by (induction xs arbitrary: s) auto

lemma kb_chain_le: "kb_chain s bs e \<Longrightarrow> s \<le> e"
proof (induction bs arbitrary: s)
  case (Cons b bs)
  then have "Suc (unat (kb_hi b)) \<le> e" "unat (kb_lo b) \<le> unat (kb_hi b)" "unat (kb_lo b) = s"
    by (auto simp: word_le_nat_alt)
  then show ?case by simp
qed simp

lemma kb_chain_range:
  "kb_chain s bs e \<Longrightarrow> b \<in> set bs \<Longrightarrow> s \<le> unat (kb_lo b) \<and> unat (kb_hi b) < e"
proof (induction bs arbitrary: s)
  case (Cons c bs)
  note chain = Cons.prems(1)
  have c: "unat (kb_lo c) = s" "unat (kb_lo c) \<le> unat (kb_hi c)" "Suc (unat (kb_hi c)) \<le> e"
    using chain kb_chain_le [of "Suc (unat (kb_hi c))" bs e] by (auto simp: word_le_nat_alt)
  show ?case
  proof (cases "b = c")
    case False
    then have "Suc (unat (kb_hi c)) \<le> unat (kb_lo b) \<and> unat (kb_hi b) < e"
      using Cons.IH [of "Suc (unat (kb_hi c))"] Cons.prems by simp
    with c show ?thesis by simp
  qed (use c in simp)
qed simp

lemma kb_chain_locate:
  assumes "kb_chain s bs e" and "s \<le> unat x" and "unat x < e"
  shows "\<exists>pre b post. bs = pre @ b # post \<and> kb_covers b x"
  using assms
proof (induction bs arbitrary: s)
  case (Cons b bs)
  show ?case
  proof (cases "kb_covers b x")
    case True
    then have "b # bs = [] @ b # bs \<and> kb_covers b x" by simp
    then show ?thesis by blast
  next
    case False
    with Cons.prems have "Suc (unat (kb_hi b)) \<le> unat x"
      by (auto simp: kb_covers_def word_le_nat_alt)
    moreover have "kb_chain (Suc (unat (kb_hi b))) bs e" using Cons.prems by simp
    ultimately obtain pre c post where "bs = pre @ c # post" "kb_covers c x"
      using Cons.IH Cons.prems(3) by blast
    then have "b # bs = (b # pre) @ c # post \<and> kb_covers c x" by simp
    then show ?thesis by blast
  qed
qed simp

lemma kb_chain_position:
  assumes "kb_chain s (pre @ b # post) e" and "kb_covers b x"
  shows "position (\<lambda>b. kb_covers b x) (pre @ b # post) = Some (length pre)"
proof -
  obtain m where m: "kb_chain s pre m" "kb_chain m (b # post) e"
    using assms(1) by (auto simp: kb_chain_append)
  have "\<not> kb_covers c x" if "c \<in> set pre" for c
  proof -
    have "unat (kb_hi c) < unat (kb_lo b)" using kb_chain_range [OF m(1) that] m(2) by simp
    then show ?thesis using assms(2) by (auto simp: kb_covers_def word_le_nat_alt)
  qed
  then have "position (\<lambda>b. kb_covers b x) pre = None" by (simp add: position_None_iff)
  with assms(2) show ?thesis by (simp add: position_append)
qed

text \<open>Every identifier lies in exactly the bucket that \<open>bucket_index_for\<close> selects.\<close>

lemma rt_locate:
  assumes "rt_inv rt"
  obtains pre b post where "rt_buckets rt = pre @ b # post" "kb_covers b x"
    "rt_bucket_index_for rt x = length pre"
proof -
  have chain: "kb_chain 0 (rt_buckets rt) (2 ^ 128)" using assms by (simp add: rt_inv_def)
  moreover have "unat x < 2 ^ 128" using unat_lt_len [of x] by simp
  ultimately obtain pre b post where b: "rt_buckets rt = pre @ b # post" "kb_covers b x"
    using kb_chain_locate [of 0 "rt_buckets rt"] by blast
  then have "rt_bucket_index_for rt x = length pre"
    using chain kb_chain_position [of 0 pre b post] by (simp add: rt_bucket_index_for_def)
  with b that show thesis by blast
qed

lemma rt_bucket_index_for_unique:
  assumes "rt_inv rt" and "rt_buckets rt = pre @ b # post" and "kb_covers b x"
  shows "rt_bucket_index_for rt x = length pre"
  using assms kb_chain_position [of 0 pre b post "2 ^ 128" x]
  by (simp add: rt_bucket_index_for_def rt_inv_def)

lemma kb_chain_replace:
  assumes "kb_chain s (pre @ b # post) e" and "kb_lo b' = kb_lo b" and "kb_hi b' = kb_hi b"
  shows "kb_chain s (pre @ b' # post) e"
  using assms by (auto simp: kb_chain_append)

lemma kb_chain_split:
  assumes "kb_chain s (pre @ b # post) e" and "kb_lo b < kb_hi b" and "kb_split now b = (low, high)"
  shows "kb_chain s (pre @ low # high # post) e"
proof -
  note mid = midpoint_bounds [OF assms(2)]
  have "kb_midpoint b + 1 \<le> kb_hi b"
    using mid by (simp add: word_le_nat_alt word_less_nat_alt)
  then show ?thesis
    using assms(1) mid by (auto simp: kb_chain_append kb_split_frame [OF assms(3)])
qed

lemma rt_inv_replace:
  assumes "rt_inv rt" and "rt_buckets rt = pre @ b # post"
    and "kb_ok (rt_ksize rt) b'" and "kb_lo b' = kb_lo b" and "kb_hi b' = kb_hi b"
    and "\<forall>n \<in> kb_known b'. node_id n \<noteq> node_id (rt_node rt)"
  shows "rt_inv (rt\<lparr>rt_buckets := pre @ b' # post\<rparr>)"
  using assms kb_chain_replace [of 0 pre b post "2 ^ 128" b']
  by (auto simp: rt_inv_def rt_known_def)

section \<open>Insertion\<close>

abbreviation rt_may_split :: "routing_table \<Rightarrow> kbucket \<Rightarrow> bool" where
  "rt_may_split rt b \<equiv> kb_covers b (long_id (rt_node rt)) \<or> kb_depth b mod 5 \<noteq> 0"

lemma rt_new_inv [wf_intros]: "rt_inv (rt_new now n k)"
proof -
  have "unat (- 1 :: u128) = 2 ^ 128 - 1" by (simp add: unsigned_minus_1_eq_mask mask_eq_exp_minus_1)
  then show ?thesis
    by (simp add: rt_inv_def rt_new_def kb_ok_def rt_known_def kb_known_def)
qed

lemma insert_at_length: "insert_at (length pre) x (pre @ post) = pre @ x # post"
  by (simp add: insert_at_def)

lemma rt_split_bucket_located:
  assumes "rt_buckets rt = pre @ b # post" and "kb_split now b = (low, high)"
  shows "rt_split_bucket now (length pre) rt = rt\<lparr>rt_buckets := pre @ low # high # post\<rparr>"
  using assms by (simp add: rt_split_bucket_def remove_at_def insert_at_length)

lemma rt_insert_located:
  assumes "rt_buckets rt = pre @ b # post" and "rt_bucket_index_for rt (long_id n) = length pre"
    and "kb_add_node n b = (ok, b')" and "kb_split now b' = (low, high)"
  shows "rt_insert now n rt =
    (if ok then Some (None, rt\<lparr>rt_buckets := pre @ b' # post\<rparr>)
     else if rt_may_split rt b' then rt_insert now n (rt\<lparr>rt_buckets := pre @ low # high # post\<rparr>)
     else Some (kb_head b', rt\<lparr>rt_buckets := pre @ b' # post\<rparr>))"
proof -
  have "rt_split_bucket now (length pre) (rt\<lparr>rt_buckets := pre @ b' # post\<rparr>) =
      rt\<lparr>rt_buckets := pre @ low # high # post\<rparr>"
    using rt_split_bucket_located [of "rt\<lparr>rt_buckets := pre @ b' # post\<rparr>" pre b' post] assms(4)
    by simp
  with assms show ?thesis
    by (subst rt_insert.simps) (simp add: Let_def list_update_append)
qed

lemma kb_add_node_ok:
  assumes "kb_ok k b" and "wf_node n" and "kb_covers b (long_id n)" and "kb_add_node n b = (ok, b')"
  shows "kb_ok k b'"
  using assms kb_add_node_inv [of b n] kb_add_node_frame(3,4) [of n b] by (simp add: kb_ok_def)

lemma rt_inv_add:
  assumes "rt_inv rt" and "rt_buckets rt = pre @ b # post" and "wf_node n"
    and "kb_covers b (long_id n)" and "node_id n \<noteq> node_id (rt_node rt)"
    and "kb_add_node n b = (ok, b')"
  shows "rt_inv (rt\<lparr>rt_buckets := pre @ b' # post\<rparr>)"
proof (rule rt_inv_replace [OF assms(1,2)])
  have ok: "kb_ok (rt_ksize rt) b" using assms(1,2) by (simp add: rt_inv_def)
  show "kb_ok (rt_ksize rt) b'" using kb_add_node_ok [OF ok assms(3,4,6)] .
  show "kb_lo b' = kb_lo b" "kb_hi b' = kb_hi b"
    using assms(6) kb_add_node_frame(1,2) [of n b] by simp_all
  have "kb_known b' \<subseteq> insert n (kb_known b)"
    using kb_add_node_outcome(1) [of b n] ok assms(6) by (simp add: kb_ok_def)
  moreover have "\<forall>m \<in> kb_known b. node_id m \<noteq> node_id (rt_node rt)"
    using assms(1,2) by (auto simp: rt_inv_def rt_known_def)
  ultimately show "\<forall>m \<in> kb_known b'. node_id m \<noteq> node_id (rt_node rt)"
    using assms(5) by auto
qed

lemma rt_inv_split:
  assumes "rt_inv rt" and "rt_buckets rt = pre @ b # post" and "kb_lo b < kb_hi b"
    and "kb_split now b = (low, high)"
  shows "rt_inv (rt\<lparr>rt_buckets := pre @ low # high # post\<rparr>)"
proof -
  have ok: "kb_ok (rt_ksize rt) b" and chain: "kb_chain 0 (pre @ b # post) (2 ^ 128)"
    using assms(1,2) by (simp_all add: rt_inv_def)
  then have inv: "kb_inv b" by (simp add: kb_ok_def)
  note halves = kb_split_inv [OF inv assms(3,4)]
  have "kb_ok (rt_ksize rt) low" "kb_ok (rt_ksize rt) high"
    using ok halves by (simp_all add: kb_ok_def kb_split_frame [OF assms(4)])
  moreover have "\<forall>m \<in> kb_known low \<union> kb_known high. node_id m \<noteq> node_id (rt_node rt)"
    using halves(3) assms(1,2) by (auto simp: rt_inv_def rt_known_def)
  ultimately show ?thesis
    using assms(1,2) kb_chain_split [OF chain assms(3,4)] by (auto simp: rt_inv_def rt_known_def)
qed

text \<open>
  A full bucket over a single folded identifier that may be split is a fixed point of splitting:
  its low half is the same bucket again. From such a table \<open>insert\<close> never returns.
\<close>

definition rt_stuck :: "node \<Rightarrow> routing_table \<Rightarrow> bool" where
  "rt_stuck n rt \<longleftrightarrow> wf_node n \<and>
     (\<exists>pre b post. rt_buckets rt = pre @ b # post \<and> (\<forall>c \<in> set pre. \<not> kb_covers c (long_id n)) \<and>
        kb_inv b \<and> kb_lo b = long_id n \<and> kb_hi b = long_id n \<and>
        length (kb_nodes b) = kb_ksize b \<and> node_id n \<notin> node_id ` set (kb_nodes b) \<and>
        rt_may_split rt b)"

lemma rt_stuckI:
  assumes "wf_node n" and "rt_buckets rt = pre @ b # post"
    and "\<forall>c \<in> set pre. \<not> kb_covers c (long_id n)"
    and "kb_inv b" and "kb_lo b = long_id n" and "kb_hi b = long_id n"
    and "length (kb_nodes b) = kb_ksize b" and "node_id n \<notin> node_id ` set (kb_nodes b)"
    and "rt_may_split rt b"
  shows "rt_stuck n rt"
  using assms unfolding rt_stuck_def by blast

lemma kb_depth_cong: "kb_nodes b = kb_nodes b' \<Longrightarrow> kb_depth b = kb_depth b'"
  by (simp add: kb_depth_def)

lemma kb_split_point:
  assumes "kb_inv b" and "kb_lo b = x" and "kb_hi b = x" and "length (kb_nodes b) = kb_ksize b"
    and "kb_split now b = (low, high)"
  shows "kb_inv low" "kb_lo low = x" "kb_hi low = x" "kb_nodes low = kb_nodes b"
    "kb_ksize low = kb_ksize b"
proof -
  have mid: "kb_midpoint b = x" using assms by (simp add: kb_midpoint_def)
  have all: "\<forall>n \<in> kb_known b. wf_node n \<and> long_id n = x"
    using assms(1-3) by (auto simp: kb_inv_def kb_covers_def)
  then have flt: "filter (\<lambda>n. long_id n \<le> x) (kb_nodes b @ kb_replacement_nodes b) =
      kb_nodes b @ kb_replacement_nodes b"
    by (auto simp: filter_id_conv kb_known_def)
  then have low: "low = kb_adds (kb_nodes b @ kb_replacement_nodes b) (kb_new now x x (kb_ksize b))"
    using assms(2,3,5) by (simp only: kb_split_eq mid prod.inject)
  show "kb_inv low"
    unfolding low using all
    by (intro kb_adds_new_inv [THEN conjunct1]) (auto simp: kb_known_def)
  show "kb_lo low = x" "kb_hi low = x" "kb_ksize low = kb_ksize b" by (simp_all add: low)
  show "kb_nodes low = kb_nodes b"
    using kb_split_nodes(1) [OF assms(1,5)] assms(4) by (simp add: mid flt del: filter_append)
qed

lemma rt_stuck_step:
  assumes "rt_stuck n rt"
  shows "\<exists>b' rt1. kb_add_node n (rt_buckets rt ! rt_bucket_index_for rt (long_id n)) = (False, b') \<and>
    rt1 = rt\<lparr>rt_buckets := (rt_buckets rt)[rt_bucket_index_for rt (long_id n) := b']\<rparr> \<and>
    rt_may_split rt b' \<and>
    rt_stuck n (rt_split_bucket now (rt_bucket_index_for rt (long_id n)) rt1)"
proof -
  from assms obtain pre b post where wf: "wf_node n"
    and bs: "rt_buckets rt = pre @ b # post" and pre: "\<forall>c \<in> set pre. \<not> kb_covers c (long_id n)"
    and b: "kb_inv b" "kb_lo b = long_id n" "kb_hi b = long_id n"
      "length (kb_nodes b) = kb_ksize b" "node_id n \<notin> node_id ` set (kb_nodes b)"
    and may: "rt_may_split rt b"
    unfolding rt_stuck_def by blast
  have cov: "kb_covers b (long_id n)" using b(2,3) by (simp add: kb_covers_def)
  have idx: "rt_bucket_index_for rt (long_id n) = length pre"
    using pre cov by (simp add: rt_bucket_index_for_def bs position_append position_None_iff [THEN iffD2])
  obtain b' where add: "kb_add_node n b = (False, b')"
    using kb_add_node_full [OF b(1,5,4)] by blast
  obtain low high where sp: "kb_split now b' = (low, high)" by fastforce
  have b': "kb_inv b'" "kb_lo b' = long_id n" "kb_hi b' = long_id n"
    "kb_nodes b' = kb_nodes b" "kb_ksize b' = kb_ksize b"
    "kb_covers b' (long_id (rt_node rt)) = kb_covers b (long_id (rt_node rt))"
    using kb_add_node_inv [OF b(1) wf cov] kb_add_node_frame [of n b]
      kb_add_node_outcome(4) [OF b(1), of n] b(2,3) add by simp_all
  note low = kb_split_point [OF b'(1-3) _ sp]
  let ?rt' = "rt\<lparr>rt_buckets := pre @ low # high # post\<rparr>"
  have "kb_covers low (long_id (rt_node rt)) = kb_covers b (long_id (rt_node rt))"
    using low b' b by (simp add: kb_covers_def)
  then have "rt_may_split ?rt' low" and may': "rt_may_split rt b'"
    using may low b' b kb_depth_cong [of low b] kb_depth_cong [of b' b] by simp_all
  moreover have "kb_inv low" "kb_lo low = long_id n" "kb_hi low = long_id n"
    "length (kb_nodes low) = kb_ksize low" "node_id n \<notin> node_id ` set (kb_nodes low)"
    using low b' b by simp_all
  ultimately have "rt_stuck n ?rt'"
    using rt_stuckI [OF wf, of ?rt' pre low "high # post"] pre by simp
  moreover have "rt_split_bucket now (length pre) (rt\<lparr>rt_buckets := pre @ b' # post\<rparr>) = ?rt'"
    using rt_split_bucket_located [of "rt\<lparr>rt_buckets := pre @ b' # post\<rparr>" pre b' post now] sp by simp
  ultimately show ?thesis using may' add by (simp add: idx bs)
qed

lemma rt_insert_returns_not_stuck:
  assumes "rt_insert now n rt = Some r"
  shows "\<not> rt_stuck n rt"
proof (rule rt_insert.raw_induct [where P = "\<lambda>now n rt r. \<not> rt_stuck n rt", OF _ assms])
  fix ins now n rt r
  assume IH: "\<And>now n rt r. ins now n rt = Some r \<Longrightarrow> \<not> rt_stuck n rt"
    and ret: "(let idx = rt_bucket_index_for rt (long_id n);
          (ok, b) = kb_add_node n (rt_buckets rt ! idx);
          rt1 = rt\<lparr>rt_buckets := (rt_buckets rt)[idx := b]\<rparr>
      in if ok then Some (None, rt1)
         else if rt_may_split rt b then ins now n (rt_split_bucket now idx rt1)
         else Some (kb_head b, rt1)) = Some r"
  show "\<not> rt_stuck n rt"
  proof
    assume "rt_stuck n rt"
    then obtain rt' where "rt_stuck n rt'" "ins now n rt' = Some r"
      using rt_stuck_step [of n rt now] ret by (auto simp: Let_def)
    with IH show False by blast
  qed
qed

lemma rt_insert_stuck: "rt_stuck n rt \<Longrightarrow> rt_insert now n rt = None"
  using rt_insert_returns_not_stuck by (cases "rt_insert now n rt") blast+

text \<open>
  Induction over the run of \<open>insert\<close> on a well-formed table. The range of the selected bucket
  shrinks with every split, so the run ends in one of three ways: the node is stored, the bucket
  may not be split, or the range is a single point and the run never ends.
\<close>

definition rt_width :: "routing_table \<Rightarrow> u128 \<Rightarrow> nat" where
  "rt_width rt x = (let b = rt_buckets rt ! rt_bucket_index_for rt x in unat (kb_hi b) - unat (kb_lo b))"

lemma rt_width_split:
  assumes "rt_inv (rt\<lparr>rt_buckets := pre @ low # high # post\<rparr>)" and "kb_lo b < kb_hi b"
    and "kb_split now b = (low, high)" and "kb_covers b x"
  shows "rt_width (rt\<lparr>rt_buckets := pre @ low # high # post\<rparr>) x < unat (kb_hi b) - unat (kb_lo b)"
proof -
  let ?rt = "rt\<lparr>rt_buckets := pre @ low # high # post\<rparr>"
  note mid = midpoint_bounds [OF assms(2)] and fr = kb_split_frame [OF assms(3)]
  have lt: "unat (kb_lo b) \<le> unat (kb_midpoint b)" "unat (kb_midpoint b) < unat (kb_hi b)"
    using mid by (simp_all add: word_le_nat_alt word_less_nat_alt)
  show ?thesis
  proof (cases "x \<le> kb_midpoint b")
    case True
    then have "kb_covers low x" using assms(4) by (simp add: kb_covers_def fr)
    then have "rt_bucket_index_for ?rt x = length pre"
      using rt_bucket_index_for_unique [OF assms(1), of pre low "high # post"] by simp
    then show ?thesis using lt by (simp add: rt_width_def fr)
  next
    case False
    then have "kb_midpoint b + 1 \<le> x" by (simp add: word_le_nat_alt mid(3))
    then have "kb_covers high x" using assms(4) by (simp add: kb_covers_def fr)
    then have "rt_bucket_index_for ?rt x = length (pre @ [low])"
      using rt_bucket_index_for_unique [OF assms(1), of "pre @ [low]" high post] by simp
    then show ?thesis using lt by (simp add: rt_width_def fr mid(3) nth_append)
  qed
qed

lemma rt_stuck_point:
  assumes "rt_inv rt" and "rt_buckets rt = pre @ b # post" and "wf_node n"
    and "kb_covers b (long_id n)" and "kb_add_node n b = (False, b')" and "rt_may_split rt b'"
    and "kb_lo b = kb_hi b"
  shows "rt_stuck n rt"
proof -
  have inv: "kb_inv b" using assms(1,2) by (simp add: rt_inv_def kb_ok_def)
  have x: "kb_lo b = long_id n" "kb_hi b = long_id n" using assms(4,7) by (auto simp: kb_covers_def)
  have b': "kb_covers b' = kb_covers b"
    using kb_add_node_frame(1,2) [of n b] assms(5) by (simp add: kb_covers_def fun_eq_iff)
  have nb: "kb_nodes b' = kb_nodes b" "length (kb_nodes b) = kb_ksize b"
    "node_id n \<notin> node_id ` set (kb_nodes b)"
    using kb_add_node_outcome(4) [OF inv, of n] assms(5) inv by (simp_all add: kb_inv_def)
  have "position (\<lambda>b. kb_covers b (long_id n)) (pre @ b # post) = Some (length pre)"
    using assms(1,2,4) kb_chain_position [of 0 pre b post "2 ^ 128"] by (simp add: rt_inv_def)
  then have "\<forall>c \<in> set pre. \<not> kb_covers c (long_id n)"
    by (force dest!: position_SomeD simp: in_set_conv_nth nth_append)
  then show ?thesis
    using rt_stuckI [OF assms(3,2)] inv x nb assms(6) kb_depth_cong [OF nb(1)] b' by simp
qed

lemma rt_insert_induct [consumes 3, case_names added refused stuck split]:
  assumes inv: "rt_inv rt" and wf: "wf_node n" and other: "node_id n \<noteq> node_id (rt_node rt)"
    and added: "\<And>rt pre b post b'. rt_inv rt \<Longrightarrow> rt_buckets rt = pre @ b # post \<Longrightarrow>
      kb_covers b (long_id n) \<Longrightarrow> kb_add_node n b = (True, b') \<Longrightarrow>
      rt_inv (rt\<lparr>rt_buckets := pre @ b' # post\<rparr>) \<Longrightarrow>
      P rt (Some (None, rt\<lparr>rt_buckets := pre @ b' # post\<rparr>))"
    and refused: "\<And>rt pre b post b'. rt_inv rt \<Longrightarrow> rt_buckets rt = pre @ b # post \<Longrightarrow>
      kb_covers b (long_id n) \<Longrightarrow> kb_add_node n b = (False, b') \<Longrightarrow> \<not> rt_may_split rt b' \<Longrightarrow>
      rt_inv (rt\<lparr>rt_buckets := pre @ b' # post\<rparr>) \<Longrightarrow>
      P rt (Some (kb_head b', rt\<lparr>rt_buckets := pre @ b' # post\<rparr>))"
    and stuck: "\<And>rt pre b post b'. rt_inv rt \<Longrightarrow> rt_buckets rt = pre @ b # post \<Longrightarrow>
      kb_covers b (long_id n) \<Longrightarrow> kb_add_node n b = (False, b') \<Longrightarrow> rt_may_split rt b' \<Longrightarrow>
      kb_lo b = kb_hi b \<Longrightarrow> P rt None"
    and split: "\<And>rt pre b post b' low high. rt_inv rt \<Longrightarrow> rt_buckets rt = pre @ b # post \<Longrightarrow>
      kb_covers b (long_id n) \<Longrightarrow> kb_add_node n b = (False, b') \<Longrightarrow> rt_may_split rt b' \<Longrightarrow>
      kb_lo b < kb_hi b \<Longrightarrow> kb_inv b' \<Longrightarrow> kb_split now b' = (low, high) \<Longrightarrow>
      rt_inv (rt\<lparr>rt_buckets := pre @ low # high # post\<rparr>) \<Longrightarrow>
      P (rt\<lparr>rt_buckets := pre @ low # high # post\<rparr>)
        (rt_insert now n (rt\<lparr>rt_buckets := pre @ low # high # post\<rparr>)) \<Longrightarrow>
      P rt (rt_insert now n (rt\<lparr>rt_buckets := pre @ low # high # post\<rparr>))"
  shows "P rt (rt_insert now n rt)"
  using inv other
proof (induction "rt_width rt (long_id n)" arbitrary: rt rule: less_induct)
  case less
  obtain pre b post where bs: "rt_buckets rt = pre @ b # post" and cov: "kb_covers b (long_id n)"
    and idx: "rt_bucket_index_for rt (long_id n) = length pre"
    using rt_locate [OF less.prems(1)] by blast
  obtain ok b' where add: "kb_add_node n b = (ok, b')" by fastforce
  obtain low high where sp: "kb_split now b' = (low, high)" by fastforce
  note ins = rt_insert_located [OF bs idx add sp]
  note inv' = rt_inv_add [OF less.prems(1) bs wf cov less.prems(2) add]
  have okb: "kb_inv b" using less.prems(1) bs by (simp add: rt_inv_def kb_ok_def)
  have b': "kb_lo b' = kb_lo b" "kb_hi b' = kb_hi b" "kb_covers b' = kb_covers b"
    using kb_add_node_frame(1,2) [of n b] add by (simp_all add: kb_covers_def fun_eq_iff)
  have invb': "kb_inv b'" using kb_add_node_inv [OF okb wf cov] add by simp
  show ?case
  proof (cases "ok \<or> \<not> rt_may_split rt b'")
    case True
    then show ?thesis
      using added [OF less.prems(1) bs cov] refused [OF less.prems(1) bs cov] add inv'
      by (cases ok) (simp_all add: ins)
  next
    case False
    then have add': "kb_add_node n b = (False, b')" and may: "rt_may_split rt b'"
      using add by simp_all
    let ?rt = "rt\<lparr>rt_buckets := pre @ low # high # post\<rparr>"
    have eq: "rt_insert now n rt = rt_insert now n ?rt" using False by (simp add: ins)
    show ?thesis
    proof (cases "kb_lo b < kb_hi b")
      case True
      then have "kb_lo b' < kb_hi b'" using b' by simp
      then have inv2: "rt_inv ?rt"
        using rt_inv_split [OF inv', of pre b' post] sp by simp
      have "rt_width ?rt (long_id n) < rt_width rt (long_id n)"
        using rt_width_split [OF inv2, of b'] sp cov True b' by (simp add: rt_width_def idx bs)
      then have "P ?rt (rt_insert now n ?rt)" using less.hyps inv2 less.prems(2) by simp
      then show ?thesis
        unfolding eq using split [OF less.prems(1) bs cov add' may True invb' sp inv2] by simp
    next
      case False
      then have pt: "kb_lo b = kb_hi b" using less.prems(1) bs
        by (auto simp: rt_inv_def kb_chain_append)
      have "rt_stuck n rt"
        using rt_stuck_point [OF less.prems(1) bs wf cov add' may pt] .
      then show ?thesis
        using stuck [OF less.prems(1) bs cov add' may pt] rt_insert_stuck by simp
    qed
  qed
qed

section \<open>What insertion and removal do to the table\<close>

lemma rt_known_append:
  "rt_known (rt\<lparr>rt_buckets := pre @ b # post\<rparr>) =
     kb_known b \<union> rt_known (rt\<lparr>rt_buckets := pre @ post\<rparr>)"
  "rt_contacts (rt\<lparr>rt_buckets := pre @ b # post\<rparr>) =
     set (kb_nodes b) \<union> rt_contacts (rt\<lparr>rt_buckets := pre @ post\<rparr>)"
  by (auto simp: rt_known_def rt_contacts_def)

lemma rt_known_located:
  assumes "rt_buckets rt = pre @ b # post"
  shows "rt_known rt = kb_known b \<union> rt_known (rt\<lparr>rt_buckets := pre @ post\<rparr>)"
    and "rt_contacts rt = set (kb_nodes b) \<union> rt_contacts (rt\<lparr>rt_buckets := pre @ post\<rparr>)"
  using assms by (auto simp: rt_known_def rt_contacts_def)

lemma rt_inv_bucket:
  "rt_inv rt \<Longrightarrow> b \<in> set (rt_buckets rt) \<Longrightarrow>
     kb_inv b \<and> kb_ksize b = rt_ksize rt \<and> kb_max_replacement_nodes b = rt_ksize rt * 5"
  by (simp add: rt_inv_def kb_ok_def)

lemma rt_insert_inv:
  assumes "rt_inv rt" and "wf_node n" and "node_id n \<noteq> node_id (rt_node rt)"
    and "rt_insert now n rt = Some (l, rt')"
  shows "rt_inv rt' \<and> rt_node rt' = rt_node rt \<and> rt_ksize rt' = rt_ksize rt"
proof -
  let ?P = "\<lambda>rt r. \<forall>l rt'. r = Some (l, rt') \<longrightarrow>
    rt_inv rt' \<and> rt_node rt' = rt_node rt \<and> rt_ksize rt' = rt_ksize rt"
  note ind = rt_insert_induct [where P = ?P and n = n and now = now, OF assms(1-3)]
  have same: "rt_node (rt\<lparr>rt_buckets := bs\<rparr>) = rt_node rt" "rt_ksize (rt\<lparr>rt_buckets := bs\<rparr>) = rt_ksize rt"
    for rt bs by simp_all
  have "?P rt (rt_insert now n rt)"
  proof (rule ind, goal_cases)
    case (4 rt pre b post b' low high)
    from 4(10) show ?case unfolding same .
  qed simp_all
  with assms(4) show ?thesis by blast
qed

lemma rt_split_keeps:
  assumes "rt_buckets rt = pre @ b # post" and "kb_known low \<union> kb_known high \<subseteq> insert n (kb_known b)"
    and "node_id ` set (kb_nodes b) \<subseteq> node_id ` (set (kb_nodes low) \<union> set (kb_nodes high))"
  shows "rt_known (rt\<lparr>rt_buckets := pre @ low # high # post\<rparr>) \<subseteq> insert n (rt_known rt)"
    and "node_id ` rt_contacts rt \<subseteq> node_id ` rt_contacts (rt\<lparr>rt_buckets := pre @ low # high # post\<rparr>)"
proof -
  let ?rt = "rt\<lparr>rt_buckets := pre @ low # high # post\<rparr>" and ?rest = "rt\<lparr>rt_buckets := pre @ post\<rparr>"
  have "rt_known ?rt = (kb_known low \<union> kb_known high) \<union> rt_known ?rest"
    by (auto simp: rt_known_def)
  then show "rt_known ?rt \<subseteq> insert n (rt_known rt)"
    unfolding rt_known_located [OF assms(1)] using assms(2) by auto
  have "rt_contacts ?rt = (set (kb_nodes low) \<union> set (kb_nodes high)) \<union> rt_contacts ?rest"
    by (auto simp: rt_contacts_def)
  then show "node_id ` rt_contacts rt \<subseteq> node_id ` rt_contacts ?rt"
    unfolding rt_known_located [OF assms(1)] using assms(3) by (simp only: image_Un) blast
qed

lemma rt_insert_keeps:
  assumes "rt_inv rt" and "wf_node n" and "node_id n \<noteq> node_id (rt_node rt)"
    and "rt_insert now n rt = Some (l, rt')"
  shows "rt_known rt' \<subseteq> insert n (rt_known rt) \<and>
    node_id ` rt_contacts rt \<subseteq> node_id ` rt_contacts rt'"
proof -
  let ?P = "\<lambda>rt r. \<forall>l rt'. r = Some (l, rt') \<longrightarrow> rt_known rt' \<subseteq> insert n (rt_known rt) \<and>
    node_id ` rt_contacts rt \<subseteq> node_id ` rt_contacts rt'"
  have step: "kb_known b' \<subseteq> insert n (kb_known b)" "node_id ` set (kb_nodes b) \<subseteq> node_id ` set (kb_nodes b')"
    if "rt_inv rt" "rt_buckets rt = pre @ b # post" "kb_add_node n b = (ok, b')" for rt pre b post ok b'
    using kb_add_node_outcome(1,2) [of b n] rt_inv_bucket [OF that(1), of b] that by auto
  have one: "rt_known (rt\<lparr>rt_buckets := pre @ b' # post\<rparr>) \<subseteq> insert n (rt_known rt) \<and>
      node_id ` rt_contacts rt \<subseteq> node_id ` rt_contacts (rt\<lparr>rt_buckets := pre @ b' # post\<rparr>)"
    if "rt_inv rt" "rt_buckets rt = pre @ b # post" "kb_add_node n b = (ok, b')" for rt pre b post ok b'
    using step [OF that] unfolding rt_known_located [OF that(2)] rt_known_append image_Un by blast
  note ind = rt_insert_induct [where P = ?P and n = n and now = now, OF assms(1-3)]
  have "?P rt (rt_insert now n rt)"
  proof (rule ind, goal_cases)
    case (1 rt pre b post b')
    from one [OF 1(1,2,4)] show ?case by simp
  next
    case (2 rt pre b post b')
    from one [OF 2(1,2,4)] show ?case by simp
  next
    case (4 rt pre b post b' low high)
    have known: "kb_known low \<union> kb_known high \<subseteq> kb_known b'"
      and nodes: "set (kb_nodes b') \<subseteq> set (kb_nodes low) \<union> set (kb_nodes high)"
      using kb_split_inv(3) [OF 4(7) _ 4(8)] kb_split_keeps_nodes [OF 4(7,8)]
        kb_add_node_frame(1,2) [of n b] 4(4,6) by simp_all
    note keeps = rt_split_keeps [OF 4(2) order_trans [OF known step(1) [OF 4(1,2,4)]]
        order_trans [OF step(2) [OF 4(1,2,4)] image_mono [OF nodes]]]
    show ?case
    proof (intro allI impI conjI)
      fix l rt'
      assume "rt_insert now n (rt\<lparr>rt_buckets := pre @ low # high # post\<rparr>) = Some (l, rt')"
      note ih = 4(10) [rule_format, OF this]
      show "rt_known rt' \<subseteq> insert n (rt_known rt)" using ih [THEN conjunct1] keeps(1) by auto
      show "node_id ` rt_contacts rt \<subseteq> node_id ` rt_contacts rt'"
        by (rule order_trans [OF keeps(2) ih [THEN conjunct2]])
    qed
  qed simp
  with assms(4) show ?thesis by blast
qed

lemma rt_known_wf: "rt_inv rt \<Longrightarrow> m \<in> rt_known rt \<Longrightarrow> wf_node m"
  by (auto simp: rt_inv_def rt_known_def kb_ok_def kb_inv_def)

lemma rt_contacts_known: "rt_contacts rt \<subseteq> rt_known rt"
  by (auto simp: rt_contacts_def rt_known_def kb_known_def)

lemma finite_rt_known: "finite (rt_known rt)"
  by (simp add: rt_known_def kb_known_def)

text \<open>A known node is held by the bucket that its folded identifier selects.\<close>

lemma rt_known_bucket:
  assumes "rt_inv rt" and "rt_buckets rt = pre @ b # post" and "kb_covers b (long_id m)"
    and "c \<in> set (rt_buckets rt)" and "m \<in> kb_known c"
  shows "c = b"
proof -
  have "kb_covers c (long_id m)" using assms(1,4,5) rt_inv_bucket [of rt c] by (auto simp: kb_inv_def)
  moreover obtain pre' post' where c: "rt_buckets rt = pre' @ c # post'"
    using assms(4) by (meson split_list)
  ultimately have "length pre' = length pre"
    using rt_bucket_index_for_unique [OF assms(1) assms(2,3)]
      rt_bucket_index_for_unique [OF assms(1) c] by simp
  then show ?thesis using c assms(2) by simp
qed

lemma rt_is_new_node_iff:
  assumes "rt_inv rt" and "wf_node n"
  shows "rt_is_new_node rt n \<longleftrightarrow> node_id n \<notin> node_id ` rt_contacts rt"
proof -
  obtain pre b post where bs: "rt_buckets rt = pre @ b # post" and cov: "kb_covers b (long_id n)"
    and idx: "rt_bucket_index_for rt (long_id n) = length pre"
    using rt_locate [OF assms(1)] by blast
  have "m \<in> set (kb_nodes b)" if m: "m \<in> rt_contacts rt" "node_id m = node_id n" for m
  proof -
    obtain c where c: "c \<in> set (rt_buckets rt)" "m \<in> set (kb_nodes c)"
      using m(1) by (auto simp: rt_contacts_def)
    have "wf_node m" using rt_known_wf [OF assms(1)] rt_contacts_known m(1) by blast
    then have "long_id m = long_id n" using assms(2) m(2) by (simp add: wf_node_def)
    then show ?thesis
      using rt_known_bucket [OF assms(1) bs _ c(1), of m] cov c(2) by (simp add: kb_known_def)
  qed
  moreover have "set (kb_nodes b) \<subseteq> rt_contacts rt" by (auto simp: rt_contacts_def bs)
  ultimately show ?thesis
    by (simp add: rt_is_new_node_def kb_contains_def idx bs list_ex_iff image_iff) (metis subsetD)
qed

lemma rt_insert_outcome:
  assumes "rt_inv rt" and "wf_node n" and "node_id n \<noteq> node_id (rt_node rt)" and "0 < rt_ksize rt"
    and "rt_insert now n rt = Some (l, rt')"
  shows "case l of
      None \<Rightarrow> n \<in> rt_contacts rt'
    | Some lru \<Rightarrow> \<exists>pre b post. rt_buckets rt' = pre @ b # post \<and> kb_covers b (long_id n) \<and>
        kb_head b = Some lru \<and> length (kb_nodes b) = rt_ksize rt' \<and>
        node_id n \<notin> node_id ` set (kb_nodes b) \<and>
        (\<exists>rs. kb_replacement_nodes b = rs @ [n])"
proof -
  let ?P = "\<lambda>rt r. \<forall>l rt'. 0 < rt_ksize rt \<longrightarrow> r = Some (l, rt') \<longrightarrow> (case l of
      None \<Rightarrow> n \<in> rt_contacts rt'
    | Some lru \<Rightarrow> \<exists>pre b post. rt_buckets rt' = pre @ b # post \<and> kb_covers b (long_id n) \<and>
        kb_head b = Some lru \<and> length (kb_nodes b) = rt_ksize rt' \<and>
        node_id n \<notin> node_id ` set (kb_nodes b) \<and>
        (\<exists>rs. kb_replacement_nodes b = rs @ [n]))"
  note ind = rt_insert_induct [where P = ?P and n = n and now = now, OF assms(1-3)]
  have "?P rt (rt_insert now n rt)"
  proof (rule ind, goal_cases)
    case (1 rt pre b post b')
    then have "n \<in> set (kb_nodes b')"
      using kb_add_node_outcome(3) [of b n] rt_inv_bucket [of rt b] by simp
    then show ?case by (auto simp: rt_contacts_def)
  next
    case (2 rt pre b post b')
    have b: "kb_inv b" "kb_ksize b = rt_ksize rt" "kb_max_replacement_nodes b = rt_ksize rt * 5"
      using rt_inv_bucket [OF 2(1), of b] 2(2) by simp_all
    have nb: "kb_nodes b' = kb_nodes b" "length (kb_nodes b) = kb_ksize b"
      "node_id n \<notin> node_id ` set (kb_nodes b)"
      using kb_add_node_outcome(4) [OF b(1), of n] 2(4) b(1) by (simp_all add: kb_inv_def)
    have last: "\<exists>rs. kb_replacement_nodes b' = rs @ [n]" if "0 < rt_ksize rt"
      using kb_add_node_full [OF b(1) nb(3,2)] 2(4) b(3) that by (auto simp: evict_oldest_drop drop_Cons')
    have cov: "kb_covers b' (long_id n)" using kb_add_node_frame(5) [of n b] 2(3,4) by simp
    have head: "kb_head b' \<noteq> None" if "0 < rt_ksize rt"
      using nb b(2) that by (auto simp: kb_head_def split: list.split)
    show ?case using cov last head nb b(2) by (fastforce split: option.split)
  next
    case (4 rt pre b post b' low high)
    from 4(10) show ?case by simp
  qed simp
  with assms(4,5) show ?thesis by blast
qed

section \<open>When insertion returns\<close>

lemma rt_split_step_known:
  assumes "rt_inv rt" and "rt_buckets rt = pre @ b # post" and "kb_add_node n b = (False, b')"
    and "kb_lo b < kb_hi b" and "kb_inv b'" and "kb_split now b' = (low, high)"
  shows "rt_known (rt\<lparr>rt_buckets := pre @ low # high # post\<rparr>) \<subseteq> insert n (rt_known rt)"
proof -
  have "kb_known low \<union> kb_known high \<subseteq> kb_known b'"
    using kb_split_inv(3) [OF assms(5) _ assms(6)] kb_add_node_frame(1,2) [of n b] assms(3,4) by simp
  also have "\<dots> \<subseteq> insert n (kb_known b)"
    using kb_add_node_outcome(1) [of b n] rt_inv_bucket [OF assms(1), of b] assms(2,3) by simp
  finally show ?thesis by (auto simp: rt_known_def assms(2))
qed

definition rt_same_fold :: "node \<Rightarrow> routing_table \<Rightarrow> bytes set" where
  "rt_same_fold n rt = node_id ` {m \<in> insert n (rt_known rt). long_id m = long_id n}"

lemma finite_rt_same_fold: "finite (rt_same_fold n rt)"
  by (simp add: rt_same_fold_def finite_rt_known)

lemma point_bucket_same_fold:
  assumes "rt_inv rt" and "rt_buckets rt = pre @ b # post" and "kb_covers b (long_id n)"
    and "kb_add_node n b = (False, b')" and "kb_lo b = kb_hi b"
  shows "rt_ksize rt < card (rt_same_fold n rt)"
proof -
  have b: "kb_inv b" "kb_ksize b = rt_ksize rt" using rt_inv_bucket [OF assms(1), of b] assms(2) by simp_all
  have nb: "length (kb_nodes b) = kb_ksize b" "node_id n \<notin> node_id ` set (kb_nodes b)"
    using kb_add_node_outcome(4) [OF b(1), of n] assms(4) b(1) by (simp_all add: kb_inv_def)
  have "distinct (map node_id (kb_nodes b))" using b(1) by (simp add: kb_inv_def)
  then have "card (node_id ` set (kb_nodes b)) = length (kb_nodes b)"
    by (metis distinct_card length_map list.set_map)
  then have "card (insert (node_id n) (node_id ` set (kb_nodes b))) = Suc (rt_ksize rt)"
    using nb b(2) by simp
  moreover have "insert (node_id n) (node_id ` set (kb_nodes b)) \<subseteq> rt_same_fold n rt"
  proof -
    have "long_id m = long_id n" if "m \<in> set (kb_nodes b)" for m
    proof -
      have "kb_covers b (long_id m)" using b(1) that by (simp add: kb_inv_def kb_known_def)
      with assms(3,5) show ?thesis by (metis kb_covers_def order_antisym)
    qed
    moreover have "set (kb_nodes b) \<subseteq> rt_known rt" by (auto simp: rt_known_def assms(2) kb_known_def)
    ultimately show ?thesis by (auto simp: rt_same_fold_def)
  qed
  ultimately show ?thesis by (metis Suc_le_eq card_mono finite_rt_same_fold)
qed

lemma rt_insert_total:
  assumes "rt_inv rt" and "wf_node n" and "node_id n \<noteq> node_id (rt_node rt)"
    and "card (rt_same_fold n rt) \<le> rt_ksize rt"
  shows "rt_insert now n rt \<noteq> None"
proof -
  let ?P = "\<lambda>rt r. card (rt_same_fold n rt) \<le> rt_ksize rt \<longrightarrow> r \<noteq> None"
  note ind = rt_insert_induct [where P = ?P and n = n and now = now, OF assms(1-3)]
  have "?P rt (rt_insert now n rt)"
  proof (rule ind, goal_cases)
    case (3 rt pre b post b')
    then show ?case using point_bucket_same_fold [OF 3(1-4,6)] by simp
  next
    case (4 rt pre b post b' low high)
    have "rt_same_fold n (rt\<lparr>rt_buckets := pre @ low # high # post\<rparr>) \<subseteq> rt_same_fold n rt"
      using rt_split_step_known [OF 4(1,2,4,6,7,8)] by (auto simp: rt_same_fold_def)
    then have "card (rt_same_fold n (rt\<lparr>rt_buckets := pre @ low # high # post\<rparr>)) \<le> card (rt_same_fold n rt)"
      by (rule card_mono [OF finite_rt_same_fold])
    with 4(10) show ?case by simp
  qed simp_all
  with assms(4) show ?thesis by blast
qed

text \<open>
  The other side: \<open>k\<close> contacts that share the folded identifier of the local node fill its bucket
  for good, and one more such node makes \<open>insert\<close> run forever.
\<close>

definition rt_crowded :: "node \<Rightarrow> routing_table \<Rightarrow> bool" where
  "rt_crowded n rt \<longleftrightarrow> long_id n = long_id (rt_node rt) \<and> node_id n \<notin> node_id ` rt_contacts rt \<and>
     rt_ksize rt \<le> card {m \<in> rt_contacts rt. long_id m = long_id n}"

lemma finite_rt_contacts: "finite (rt_contacts rt)"
  by (simp add: rt_contacts_def)

lemma rt_crowded_bucket:
  assumes "rt_inv rt" and "rt_buckets rt = pre @ b # post" and "kb_covers b (long_id n)"
    and "rt_crowded n rt"
  shows "length (kb_nodes b) = kb_ksize b" and "\<forall>m \<in> set (kb_nodes b). long_id m = long_id n"
    and "node_id n \<notin> node_id ` set (kb_nodes b)"
proof -
  let ?C = "{m \<in> rt_contacts rt. long_id m = long_id n}"
  have b: "kb_inv b" "kb_ksize b = rt_ksize rt" using rt_inv_bucket [OF assms(1), of b] assms(2) by simp_all
  have sub: "?C \<subseteq> set (kb_nodes b)"
  proof
    fix m assume m: "m \<in> ?C"
    then obtain c where c: "c \<in> set (rt_buckets rt)" "m \<in> set (kb_nodes c)" by (auto simp: rt_contacts_def)
    moreover have "c = b"
      using rt_known_bucket [OF assms(1,2) _ c(1), of m] m c(2) assms(3) by (simp add: kb_known_def)
    ultimately show "m \<in> set (kb_nodes b)" by simp
  qed
  have le: "card ?C \<le> card (set (kb_nodes b))" "card (set (kb_nodes b)) \<le> length (kb_nodes b)"
    using card_mono [OF _ sub] card_length [of "kb_nodes b"] by simp_all
  moreover have "length (kb_nodes b) \<le> rt_ksize rt" using b by (simp add: kb_inv_def)
  moreover have "rt_ksize rt \<le> card ?C" using assms(4) unfolding rt_crowded_def by blast
  ultimately have cards: "length (kb_nodes b) = kb_ksize b" "card ?C = card (set (kb_nodes b))"
    using b(2) by linarith+
  then show "length (kb_nodes b) = kb_ksize b" by simp
  have "?C = set (kb_nodes b)" using cards(2) by (intro card_subset_eq [OF _ sub]) auto
  then show "\<forall>m \<in> set (kb_nodes b). long_id m = long_id n" by blast
  show "node_id n \<notin> node_id ` set (kb_nodes b)"
    using assms(4) by (auto simp: rt_crowded_def rt_contacts_def assms(2))
qed

text \<open>Splitting a full bucket whose contacts share an identifier takes in no replacement with that identifier.\<close>

lemma kb_split_crowded:
  assumes "kb_inv b" and "kb_split now b = (low, high)" and "length (kb_nodes b) = kb_ksize b"
    and "\<forall>m \<in> set (kb_nodes b). long_id m = x" and "m \<in> set (kb_nodes low) \<union> set (kb_nodes high)" and "long_id m = x"
  shows "m \<in> set (kb_nodes b)"
proof (cases "x \<le> kb_midpoint b")
  case True
  then have "filter (\<lambda>m. long_id m \<le> kb_midpoint b) (kb_nodes b) = kb_nodes b" using assms(4) by (simp add: filter_id_conv)
  then have "kb_nodes low = kb_nodes b" using kb_split_nodes(1) [OF assms(1,2)] assms(3) by simp
  moreover have "m \<notin> set (kb_nodes high)" using kb_split_nodes(2) [OF assms(1,2)] True assms(6) by (auto dest: in_set_takeD)
  ultimately show ?thesis using assms(5) by simp
next
  case False
  then have "filter (\<lambda>m. \<not> long_id m \<le> kb_midpoint b) (kb_nodes b) = kb_nodes b" using assms(4) by (simp add: filter_id_conv)
  then have "kb_nodes high = kb_nodes b" using kb_split_nodes(2) [OF assms(1,2)] assms(3) by simp
  moreover have "m \<notin> set (kb_nodes low)" using kb_split_nodes(1) [OF assms(1,2)] False assms(6) by (auto dest: in_set_takeD)
  ultimately show ?thesis using assms(5) by simp
qed

lemma rt_crowded_split:
  assumes "rt_inv rt" and "rt_buckets rt = pre @ b # post" and "kb_covers b (long_id n)"
    and "wf_node n" and "rt_crowded n rt" and "kb_add_node n b = (False, b')" and "kb_inv b'"
    and "kb_split now b' = (low, high)" and "rt_inv (rt\<lparr>rt_buckets := pre @ low # high # post\<rparr>)"
  shows "rt_crowded n (rt\<lparr>rt_buckets := pre @ low # high # post\<rparr>)"
proof -
  let ?rt = "rt\<lparr>rt_buckets := pre @ low # high # post\<rparr>"
  note crowd = rt_crowded_bucket [OF assms(1-3,5)]
  have b: "kb_inv b" using rt_inv_bucket [OF assms(1), of b] assms(2) by simp
  have b': "kb_nodes b' = kb_nodes b" "kb_ksize b' = kb_ksize b"
    using kb_add_node_outcome(4) [OF b, of n] kb_add_node_frame(3) [of n b] assms(6) by simp_all
  have contacts: "rt_contacts rt \<subseteq> rt_contacts ?rt"
    using kb_split_keeps_nodes [OF assms(7,8)] b'(1) by (auto simp: rt_contacts_def assms(2))
  have old: "m \<in> set (kb_nodes b)" if "m \<in> set (kb_nodes low) \<union> set (kb_nodes high)" "long_id m = long_id n" for m
    using kb_split_crowded [OF assms(7,8) _ _ that] crowd(1,2) b' by simp
  have "node_id n \<notin> node_id ` rt_contacts ?rt"
  proof
    assume "node_id n \<in> node_id ` rt_contacts ?rt"
    then obtain m where m: "m \<in> rt_contacts ?rt" "node_id m = node_id n" by auto
    have "wf_node m" using rt_known_wf [OF assms(9)] rt_contacts_known m(1) by blast
    then have "long_id m = long_id n" using assms(4) m(2) by (simp add: wf_node_def)
    then have "m \<in> rt_contacts rt" using m(1) old by (auto simp: rt_contacts_def assms(2))
    with m(2) assms(5) show False unfolding rt_crowded_def by (metis image_eqI)
  qed
  moreover have "rt_ksize rt \<le> card {m \<in> rt_contacts ?rt. long_id m = long_id n}"
  proof -
    have "{m \<in> rt_contacts rt. long_id m = long_id n} \<subseteq> {m \<in> rt_contacts ?rt. long_id m = long_id n}"
      using contacts by blast
    then have "card {m \<in> rt_contacts rt. long_id m = long_id n} \<le> card {m \<in> rt_contacts ?rt. long_id m = long_id n}"
      by (intro card_mono) (simp_all add: finite_rt_contacts)
    moreover have "rt_ksize rt \<le> card {m \<in> rt_contacts rt. long_id m = long_id n}"
      using assms(5) unfolding rt_crowded_def by blast
    ultimately show ?thesis by linarith
  qed
  ultimately show ?thesis using assms(5) by (simp add: rt_crowded_def)
qed

lemma rt_insert_diverges:
  assumes "rt_inv rt" and "wf_node n" and "node_id n \<noteq> node_id (rt_node rt)" and "rt_crowded n rt"
  shows "rt_insert now n rt = None"
proof -
  let ?P = "\<lambda>rt r. rt_crowded n rt \<longrightarrow> r = None"
  note ind = rt_insert_induct [where P = ?P and n = n and now = now, OF assms(1-3)]
  have full: "kb_add_node n b \<noteq> (True, b')"
    if "rt_inv rt" "rt_buckets rt = pre @ b # post" "kb_covers b (long_id n)" "rt_crowded n rt"
    for rt pre b post b'
    using rt_crowded_bucket [OF that] kb_add_node_full [of b n] rt_inv_bucket [OF that(1), of b] that(2)
    by simp
  have "?P rt (rt_insert now n rt)"
  proof (rule ind, goal_cases)
    case (1 rt pre b post b')
    then show ?case using full [OF 1(1-3)] by blast
  next
    case (2 rt pre b post b')
    then have "kb_covers b' (long_id n)" using kb_add_node_frame(5) [of n b] by simp
    with 2(5) show ?case unfolding rt_crowded_def by metis
  next
    case (4 rt pre b post b' low high)
    from 4(10) rt_crowded_split [OF 4(1-3) assms(2) _ 4(4,7-9)] show ?case by blast
  qed simp
  with assms(4) show ?thesis by blast
qed

section \<open>Removal and the eviction protocol\<close>

lemma rt_remove_contact_located:
  assumes "rt_inv rt"
  obtains pre b post where "rt_buckets rt = pre @ b # post" "kb_covers b (long_id n)" "kb_inv b"
    "rt_remove_contact n rt = rt\<lparr>rt_buckets := pre @ kb_remove_node n b # post\<rparr>"
proof -
  obtain pre b post where bs: "rt_buckets rt = pre @ b # post" and cov: "kb_covers b (long_id n)"
    and idx: "rt_bucket_index_for rt (long_id n) = length pre"
    using rt_locate [OF assms] by blast
  moreover have "rt_remove_contact n rt = rt\<lparr>rt_buckets := pre @ kb_remove_node n b # post\<rparr>"
    by (simp add: rt_remove_contact_def Let_def idx bs)
  ultimately show thesis using that rt_inv_bucket [OF assms, of b] by simp
qed

lemma rt_remove_contact_inv [wf_intros]:
  assumes "rt_inv rt"
  shows "rt_inv (rt_remove_contact n rt)"
proof -
  obtain pre b post where bs: "rt_buckets rt = pre @ b # post" and b: "kb_inv b"
    and eq: "rt_remove_contact n rt = rt\<lparr>rt_buckets := pre @ kb_remove_node n b # post\<rparr>"
    by (rule rt_remove_contact_located [OF assms])
  have "kb_ok (rt_ksize rt) (kb_remove_node n b)"
    using b rt_inv_bucket [OF assms, of b] bs by (simp add: kb_ok_def kb_remove_node_inv)
  moreover have "\<forall>m \<in> kb_known (kb_remove_node n b). node_id m \<noteq> node_id (rt_node rt)"
    using assms bs by (auto simp: kb_remove_node_known [OF b] rt_inv_def rt_known_def)
  ultimately show ?thesis unfolding eq by (intro rt_inv_replace [OF assms bs]) simp_all
qed

lemma rt_remove_contact_frame [simp, state_simps]:
  "rt_node (rt_remove_contact n rt) = rt_node rt" "rt_ksize (rt_remove_contact n rt) = rt_ksize rt"
  by (simp_all add: rt_remove_contact_def Let_def)

lemma rt_elsewhere:
  assumes "rt_inv rt" and "rt_buckets rt = pre @ b # post" and "kb_covers b x"
  shows "\<forall>c \<in> set pre \<union> set post. \<not> kb_covers c x"
proof (intro ballI notI)
  fix c assume c: "c \<in> set pre \<union> set post" "kb_covers c x"
  have idx: "rt_bucket_index_for rt x = length pre" by (rule rt_bucket_index_for_unique [OF assms])
  from c(1) consider "c \<in> set pre" | "c \<in> set post" by blast
  then show False
  proof cases
    case 1
    then obtain p q where "pre = p @ c # q" by (meson split_list)
    then show False using rt_bucket_index_for_unique [OF assms(1) _ c(2), of p "q @ b # post"] idx assms(2) by simp
  next
    case 2
    then obtain p q where "post = p @ c # q" by (meson split_list)
    then show False using rt_bucket_index_for_unique [OF assms(1) _ c(2), of "pre @ b # p" q] idx assms(2) by simp
  qed
qed

lemma rt_remove_contact_known:
  assumes "rt_inv rt" and "wf_node n"
  shows "rt_known (rt_remove_contact n rt) = {m \<in> rt_known rt. node_id m \<noteq> node_id n}"
proof -
  obtain pre b post where bs: "rt_buckets rt = pre @ b # post" and cov: "kb_covers b (long_id n)"
    and b: "kb_inv b"
    and eq: "rt_remove_contact n rt = rt\<lparr>rt_buckets := pre @ kb_remove_node n b # post\<rparr>"
    by (rule rt_remove_contact_located [OF assms(1)])
  have "node_id m \<noteq> node_id n" if c: "c \<in> set pre \<union> set post" "m \<in> kb_known c" for c m
  proof
    assume id: "node_id m = node_id n"
    have m: "wf_node m" "kb_covers c (long_id m)"
      using rt_inv_bucket [OF assms(1), of c] c bs by (auto simp: kb_inv_def)
    then have "long_id m = long_id n" using assms(2) id by (simp add: wf_node_def)
    with m(2) rt_elsewhere [OF assms(1) bs cov] c(1) show False by auto
  qed
  then show ?thesis unfolding eq rt_known_append rt_known_located [OF bs] kb_remove_node_known [OF b]
    by (auto simp: rt_known_def)
qed

lemma rt_evict_promotes:
  assumes "rt_inv rt" and "rt_buckets rt = pre @ b # post" and "kb_head b = Some lru"
    and "kb_replacement_nodes b = rs @ [n]"
  shows "n \<in> rt_contacts (rt_remove_contact lru rt)"
    and "node_id lru \<notin> node_id ` rt_known (rt_remove_contact lru rt)"
proof -
  have b: "kb_inv b" using rt_inv_bucket [OF assms(1), of b] assms(2) by simp
  have lru: "lru \<in> set (kb_nodes b)" using assms(3) by (auto simp: kb_head_def split: list.splits)
  then have cov: "kb_covers b (long_id lru)" and wf: "wf_node lru"
    using b by (simp_all add: kb_inv_def kb_known_def)
  have "rt_remove_contact lru rt = rt\<lparr>rt_buckets := pre @ kb_remove_node lru b # post\<rparr>"
    using rt_bucket_index_for_unique [OF assms(1,2) cov]
    by (simp add: rt_remove_contact_def Let_def assms(2))
  moreover have "n \<in> set (kb_nodes (kb_remove_node lru b))"
    using lru by (simp add: kb_remove_node_eq [OF b] assms(4))
  ultimately show "n \<in> rt_contacts (rt_remove_contact lru rt)" by (simp add: rt_contacts_def)
  show "node_id lru \<notin> node_id ` rt_known (rt_remove_contact lru rt)"
    by (auto simp: rt_remove_contact_known [OF assms(1) wf])
qed

section \<open>Neighbour search\<close>

text \<open>The order in which the traversal drains the buckets beside the central one, and the nodes it yields.\<close>

function tt_order :: "bool \<Rightarrow> kbucket list \<Rightarrow> kbucket list \<Rightarrow> kbucket list" where
  "tt_order take_left left right =
     (if take_left \<and> left \<noteq> [] then last left # tt_order False (butlast left) right
      else if right \<noteq> [] then last right # tt_order True left (butlast right)
      else if left \<noteq> [] then last left # tt_order take_left (butlast left) right
      else [])"
  by pat_completeness auto
termination
  by (relation "measure (\<lambda>(_, left, right). length left + length right)") auto

declare tt_order.simps [simp del]

definition tt_yield :: "traverser \<Rightarrow> node list" where
  "tt_yield t = rev (tt_current t) @
     concat (map (\<lambda>b. rev (kb_nodes b)) (tt_order (tt_take_left t) (tt_left t) (tt_right t)))"

lemma mset_butlast: "xs \<noteq> [] \<Longrightarrow> mset xs = add_mset (last xs) (mset (butlast xs))"
  by (induction xs rule: rev_induct) auto

lemma mset_tt_order: "mset (tt_order b left right) = mset left + mset right"
  by (induction b left right rule: tt_order.induct)
    (subst tt_order.simps, simp add: mset_butlast)

lemma tt_next_yield:
  "case tt_next t of (None, _) \<Rightarrow> tt_yield t = [] | (Some n, t') \<Rightarrow> tt_yield t = n # tt_yield t'"
proof (induction t rule: tt_next.induct)
  case (1 t)
  show ?case
  proof (cases "tt_current t = []")
    case False
    then obtain ns n where "tt_current t = ns @ [n]" by (metis append_butlast_last_id)
    then show ?thesis by (simp add: tt_next.simps [of t] tt_yield_def)
  next
    case True
    have refill: ?thesis
      if "tt_next t = tt_next t'" "tt_yield t = tt_yield t'"
        "case tt_next t' of (None, _) \<Rightarrow> tt_yield t' = [] | (Some n, t'') \<Rightarrow> tt_yield t' = n # tt_yield t''"
      for t' unfolding that(1,2) by (rule that(3))
    note order = tt_order.simps [of "tt_take_left t" "tt_left t" "tt_right t"]
    consider "tt_take_left t \<and> tt_left t \<noteq> []"
      | "\<not> (tt_take_left t \<and> tt_left t \<noteq> [])" "tt_right t \<noteq> []"
      | "\<not> (tt_take_left t \<and> tt_left t \<noteq> [])" "tt_right t = []" "tt_left t \<noteq> []"
      | "tt_left t = []" "tt_right t = []" by blast
    then show ?thesis
    proof cases
      case 1
      then show ?thesis using True order
        by (intro refill [OF _ _ "1.IH"(1)]) (simp_all add: tt_yield_def tt_next.simps [of t])
    next
      case 2
      then show ?thesis using True order
        by (intro refill [OF _ _ "1.IH"(2)]) (auto simp: tt_yield_def tt_next.simps [of t])
    next
      case 3
      then show ?thesis using True order
        by (intro refill [OF _ _ "1.IH"(3)]) (auto simp: tt_yield_def tt_next.simps [of t])
    next
      case 4
      then show ?thesis using True order by (simp add: tt_yield_def tt_next.simps [of t])
    qed
  qed
qed

definition rt_eligible :: "node \<Rightarrow> node option \<Rightarrow> node \<Rightarrow> bool" where
  "rt_eligible target exclude n \<longleftrightarrow>
     node_id n \<noteq> node_id target \<and> (\<forall>ex. exclude = Some ex \<longrightarrow> node_id n \<noteq> node_id ex)"

lemma rt_ineligible:
  "\<not> rt_eligible target exclude n \<longleftrightarrow>
     node_id n = node_id target \<or> (case exclude of Some ex \<Rightarrow> node_id n = node_id ex | None \<Rightarrow> False)"
  by (auto simp: rt_eligible_def split: option.split)

lemma rt_collect_eq:
  "length acc < k \<Longrightarrow> rt_collect k target exclude t acc =
     acc @ take (k - length acc) (map (\<lambda>n. (distance_to n target, n))
       (filter (rt_eligible target exclude) (tt_yield t)))"
proof (induction k target exclude t acc rule: rt_collect.induct)
  case (1 k target exclude t acc)
  obtain r t' where nx: "tt_next t = (r, t')" by fastforce
  show ?case
  proof (cases r)
    case None
    then show ?thesis using nx tt_next_yield [of t] by (simp add: rt_collect.simps [of k])
  next
    case (Some n)
    have y: "tt_yield t = n # tt_yield t'" using nx Some tt_next_yield [of t] by simp
    show ?thesis
    proof (cases "rt_eligible target exclude n")
      case False
      have "rt_collect k target exclude t acc = rt_collect k target exclude t' acc"
        using False nx Some by (subst rt_collect.simps) (auto simp: rt_ineligible)
      moreover have "rt_collect k target exclude t' acc = acc @ take (k - length acc)
          (map (\<lambda>n. (distance_to n target, n)) (filter (rt_eligible target exclude) (tt_yield t')))"
        using False "1.IH"(1,2) [OF nx [symmetric] Some] "1.prems" unfolding rt_ineligible by blast
      ultimately show ?thesis using False y by simp
    next
      case True
      let ?acc = "acc @ [(distance_to n target, n)]"
      have step: "rt_collect k target exclude t acc =
          (if length ?acc = k then ?acc else rt_collect k target exclude t' ?acc)"
        using rt_ineligible [of target exclude n] True nx Some
        by (subst rt_collect.simps) (simp add: Let_def)
      show ?thesis
      proof (cases "length ?acc = k")
        case True
        then have "k - length acc = 1" by auto
        with True \<open>rt_eligible target exclude n\<close> show ?thesis unfolding step by (simp add: y)
      next
        case False
        then have "rt_collect k target exclude t' ?acc = ?acc @ take (k - length ?acc)
          (map (\<lambda>n. (distance_to n target, n)) (filter (rt_eligible target exclude) (tt_yield t')))"
          using "1.IH"(3) [OF nx [symmetric] Some _ _ refl] rt_ineligible [of target exclude n]
            \<open>rt_eligible target exclude n\<close> "1.prems" by simp
        moreover have "k - length acc = Suc (k - length ?acc)" using False "1.prems" by auto
        ultimately show ?thesis using False True unfolding step by (simp add: y)
      qed
    qed
  qed
qed

lemma tt_new_located:
  assumes "rt_inv rt"
  obtains pre b post where "rt_buckets rt = pre @ b # post" "kb_covers b (long_id target)"
    "tt_new now rt target =
       (\<lparr>tt_current = kb_nodes b, tt_left = rev pre, tt_right = rev post, tt_take_left = True\<rparr>,
        rt\<lparr>rt_buckets := pre @ kb_touch_last_updated now b # post\<rparr>)"
proof -
  obtain pre b post where "rt_buckets rt = pre @ b # post" "kb_covers b (long_id target)"
    "rt_bucket_index_for rt (long_id target) = length pre"
    using rt_locate [OF assms] by blast
  then show thesis by (intro that) (simp_all add: tt_new_def Let_def)
qed

lemma mset_concat_map: "mset (concat (map f xs)) = sum_mset (image_mset (\<lambda>x. mset (f x)) (mset xs))"
  by (induction xs) simp_all

lemma mset_tt_yield_new:
  assumes "rt_inv rt"
  shows "mset (tt_yield (fst (tt_new now rt target))) = mset (concat (map kb_nodes (rt_buckets rt)))"
proof -
  obtain pre b post where bs: "rt_buckets rt = pre @ b # post"
    and tt: "tt_new now rt target =
       (\<lparr>tt_current = kb_nodes b, tt_left = rev pre, tt_right = rev post, tt_take_left = True\<rparr>,
        rt\<lparr>rt_buckets := pre @ kb_touch_last_updated now b # post\<rparr>)"
    by (rule tt_new_located [OF assms])
  show ?thesis
    by (simp add: tt tt_yield_def bs mset_concat_map mset_tt_order)
qed

lemma kb_inv_member: "kb_inv b \<Longrightarrow> n \<in> kb_known b \<Longrightarrow> wf_node n \<and> kb_covers b (long_id n)"
  by (simp add: kb_inv_def)

lemma kb_chain_distinct:
  assumes "kb_chain s bs e" and "\<forall>b \<in> set bs. kb_inv b"
    and "\<forall>b \<in> set bs. set (f b) \<subseteq> kb_known b \<and> distinct (map node_id (f b))"
  shows "distinct (map node_id (concat (map f bs)))"
  using assms
proof (induction bs arbitrary: s)
  case (Cons b bs)
  have "node_id m \<noteq> node_id m'" if m: "m \<in> set (f b)" "c \<in> set bs" "m' \<in> set (f c)" for m c m'
  proof -
    have "m \<in> kb_known b" "m' \<in> kb_known c" "kb_inv b" "kb_inv c"
      using m Cons.prems(2,3) by auto
    then have "wf_node m" "wf_node m'" "kb_covers b (long_id m)" "kb_covers c (long_id m')"
      by (simp_all add: kb_inv_member)
    moreover have "unat (kb_hi b) < unat (kb_lo c)"
      using Cons.prems(1) kb_chain_range [of "Suc (unat (kb_hi b))" bs e c] m(2) by auto
    ultimately have "unat (long_id m) < unat (long_id m')"
      by (auto simp: kb_covers_def word_le_nat_alt)
    then show ?thesis using \<open>wf_node m\<close> \<open>wf_node m'\<close> by (auto simp: wf_node_def)
  qed
  then have "node_id ` set (f b) \<inter> node_id ` set (concat (map f bs)) = {}" by fastforce
  moreover have "distinct (map node_id (concat (map f bs)))"
    using Cons.IH [of "Suc (unat (kb_hi b))"] Cons.prems by simp
  ultimately show ?case using Cons.prems(3) by simp
qed simp

lemma rt_contacts_distinct: "rt_inv rt \<Longrightarrow> distinct (map node_id (concat (map kb_nodes (rt_buckets rt))))"
  by (rule kb_chain_distinct [of 0 _ "2 ^ 128"])
    (auto simp: rt_inv_def kb_ok_def kb_inv_def kb_known_def)

lemma rt_known_distinct:
  "rt_inv rt \<Longrightarrow>
     distinct (map node_id (concat (map (\<lambda>b. kb_nodes b @ kb_replacement_nodes b) (rt_buckets rt))))"
  by (rule kb_chain_distinct [of 0 _ "2 ^ 128"])
    (auto simp: rt_inv_def kb_ok_def kb_inv_def kb_known_def)

lemma rt_find_neighbors_eq:
  assumes "0 < rt_ksize rt"
  shows "fst (rt_find_neighbors now rt target exclude) =
    map snd (sort_key fst (take (rt_ksize rt) (map (\<lambda>n. (distance_to n target, n))
      (filter (rt_eligible target exclude) (tt_yield (fst (tt_new now rt target)))))))"
  using assms by (simp add: rt_find_neighbors_def split_def rt_collect_eq Let_def)

lemma rt_find_neighbors_table:
  assumes "rt_inv rt"
  shows "rt_inv (snd (rt_find_neighbors now rt target exclude))"
    and "rt_known (snd (rt_find_neighbors now rt target exclude)) = rt_known rt"
    and "rt_contacts (snd (rt_find_neighbors now rt target exclude)) = rt_contacts rt"
    and "rt_node (snd (rt_find_neighbors now rt target exclude)) = rt_node rt"
    and "rt_ksize (snd (rt_find_neighbors now rt target exclude)) = rt_ksize rt"
proof -
  obtain pre b post where bs: "rt_buckets rt = pre @ b # post"
    and tt: "tt_new now rt target =
       (\<lparr>tt_current = kb_nodes b, tt_left = rev pre, tt_right = rev post, tt_take_left = True\<rparr>,
        rt\<lparr>rt_buckets := pre @ kb_touch_last_updated now b # post\<rparr>)"
    by (rule tt_new_located [OF assms])
  let ?b = "kb_touch_last_updated now b"
  have eq: "snd (rt_find_neighbors now rt target exclude) = rt\<lparr>rt_buckets := pre @ ?b # post\<rparr>"
    by (simp add: rt_find_neighbors_def tt)
  have "kb_ok (rt_ksize rt) ?b" using rt_inv_bucket [OF assms, of b] bs by (simp add: kb_ok_def)
  moreover have "\<forall>n \<in> kb_known ?b. node_id n \<noteq> node_id (rt_node rt)"
    using assms bs by (auto simp: rt_inv_def rt_known_def)
  ultimately show "rt_inv (snd (rt_find_neighbors now rt target exclude))"
    unfolding eq by (intro rt_inv_replace [OF assms bs]) simp_all
  show "rt_known (snd (rt_find_neighbors now rt target exclude)) = rt_known rt"
    "rt_contacts (snd (rt_find_neighbors now rt target exclude)) = rt_contacts rt"
    "rt_node (snd (rt_find_neighbors now rt target exclude)) = rt_node rt"
    "rt_ksize (snd (rt_find_neighbors now rt target exclude)) = rt_ksize rt"
    by (simp_all add: eq rt_known_def rt_contacts_def bs)
qed

lemma sort_pairs_sorted:
  "sorted (map (\<lambda>n. distance_to n target)
     (map snd (sort_key fst (take k (map (\<lambda>n. (distance_to n target, n)) ns)))))"
proof -
  let ?ps = "sort_key fst (take k (map (\<lambda>n. (distance_to n target, n)) ns))"
  have "set ?ps \<subseteq> (\<lambda>n. (distance_to n target, n)) ` set ns" by (auto dest: in_set_takeD)
  then have "map ((\<lambda>n. distance_to n target) \<circ> snd) ?ps = map fst ?ps" by (intro map_cong refl) auto
  then show ?thesis unfolding map_map by (simp only: sorted_sort_key)
qed

lemma rt_find_neighbors_spec:
  assumes "rt_inv rt" and "0 < rt_ksize rt" and "ns = fst (rt_find_neighbors now rt target exclude)"
  shows "sorted (map (\<lambda>n. distance_to n target) ns)" and "distinct (map node_id ns)"
    and "set ns \<subseteq> {m \<in> rt_contacts rt. rt_eligible target exclude m}"
    and "length ns = min (rt_ksize rt) (card {m \<in> rt_contacts rt. rt_eligible target exclude m})"
proof -
  define ys where "ys = filter (rt_eligible target exclude) (tt_yield (fst (tt_new now rt target)))"
  define zs where "zs = concat (map kb_nodes (rt_buckets rt))"
  have ns: "ns = map snd (sort_key fst (take (rt_ksize rt) (map (\<lambda>n. (distance_to n target, n)) ys)))"
    by (simp add: assms(3) ys_def rt_find_neighbors_eq [OF assms(2)])
  have ys: "mset ys = mset (filter (rt_eligible target exclude) zs)"
    by (simp add: ys_def zs_def mset_filter mset_tt_yield_new [OF assms(1)])
  have "distinct (map node_id (filter (rt_eligible target exclude) zs))"
    using rt_contacts_distinct [OF assms(1)] by (simp add: zs_def distinct_map_filterI)
  then have dist: "distinct (map node_id ys)"
    using ys by (metis mset_eq_imp_distinct_iff mset_map)
  have set_ys: "set ys = {m \<in> rt_contacts rt. rt_eligible target exclude m}"
    using mset_eq_setD [OF ys] by (auto simp: zs_def rt_contacts_def)
  show "sorted (map (\<lambda>n. distance_to n target) ns)" unfolding ns by (rule sort_pairs_sorted)
  have mns: "mset ns = mset (take (rt_ksize rt) ys)" by (simp add: ns take_map multiset.map_comp comp_def)
  then show "set ns \<subseteq> {m \<in> rt_contacts rt. rt_eligible target exclude m}"
    using set_ys by (metis mset_eq_setD set_take_subset)
  have "distinct (map node_id (take (rt_ksize rt) ys))" using dist by (simp add: take_map [symmetric])
  then show "distinct (map node_id ns)" using mns by (metis mset_eq_imp_distinct_iff mset_map)
  have "distinct ys" using dist by (simp add: distinct_map)
  then have "card {m \<in> rt_contacts rt. rt_eligible target exclude m} = length ys"
    using set_ys by (metis distinct_card)
  then show "length ns = min (rt_ksize rt) (card {m \<in> rt_contacts rt. rt_eligible target exclude m})"
    using mns by (metis length_take min.commute size_mset)
qed

section \<open>Runs of the table\<close>

text \<open>
  The calls other components make on a table. Every \<open>Node\<close> they pass was built by
  \<open>Node::new\<close> from a 20-byte identifier, so it is well-formed.
\<close>

inductive rt_step :: "routing_table \<Rightarrow> routing_table \<Rightarrow> bool" where
  add: "wf_node n \<Longrightarrow> rt_add_contact now n rt = Some (l, rt') \<Longrightarrow> rt_step rt rt'"
| remove: "rt_step rt (rt_remove_contact n rt)"
| find: "rt_step rt (snd (rt_find_neighbors now rt target exclude))"

inductive_cases rt_stepE: "rt_step rt rt'"

lemma rt_add_contact_inv:
  assumes "rt_inv rt" and "wf_node n" and "rt_add_contact now n rt = Some (l, rt')"
  shows "rt_inv rt' \<and> rt_node rt' = rt_node rt \<and> rt_ksize rt' = rt_ksize rt"
  using assms rt_insert_inv [of rt n now l rt'] by (auto simp: rt_add_contact_def split: if_splits)

lemma rt_step_inv: "rt_step rt rt' \<Longrightarrow> rt_inv rt \<Longrightarrow>
    rt_inv rt' \<and> rt_node rt' = rt_node rt \<and> rt_ksize rt' = rt_ksize rt"
  by (erule rt_stepE) (auto simp: rt_remove_contact_inv rt_find_neighbors_table dest: rt_add_contact_inv)

lemma rt_steps_inv: "rt_step\<^sup>*\<^sup>* rt rt' \<Longrightarrow> rt_inv rt \<Longrightarrow>
    rt_inv rt' \<and> rt_node rt' = rt_node rt \<and> rt_ksize rt' = rt_ksize rt"
  by (induction rule: rtranclp_induct) (auto dest: rt_step_inv)

lemma rt_inv_unique_bucket:
  assumes "rt_inv rt"
  shows "\<exists>!i. i < length (rt_buckets rt) \<and> kb_covers (rt_buckets rt ! i) x"
proof -
  obtain pre b post where bs: "rt_buckets rt = pre @ b # post" and cov: "kb_covers b x"
    using rt_locate [OF assms] by blast
  have "i = length pre" if i: "i < length (rt_buckets rt)" "kb_covers (rt_buckets rt ! i) x" for i
  proof -
    have "rt_buckets rt = take i (rt_buckets rt) @ rt_buckets rt ! i # drop (Suc i) (rt_buckets rt)"
      using i(1) by (simp add: id_take_nth_drop)
    then have "rt_bucket_index_for rt x = length (take i (rt_buckets rt))"
      using rt_bucket_index_for_unique [OF assms _ i(2)] by blast
    then show ?thesis using rt_bucket_index_for_unique [OF assms bs cov] i(1) by simp
  qed
  then show ?thesis using bs cov by (intro ex1I [of _ "length pre"]) auto
qed

lemma rt_add_contact_new:
  assumes "0 < k" and "node_id n \<noteq> node_id self"
  shows "rt_add_contact now n (rt_new now' self k) =
    Some (None, rt_new now' self k\<lparr>rt_buckets := [kb_new now' 0 (- 1) k\<lparr>kb_nodes := [n]\<rparr>]\<rparr>)"
proof -
  have "rt_bucket_index_for (rt_new now' self k) (long_id n) = 0"
    by (simp add: rt_bucket_index_for_def rt_new_def kb_covers_def)
  then show ?thesis
    using assms unfolding rt_add_contact_def
    by (subst rt_insert.simps) (simp add: rt_new_def kb_add_node_room)
qed

text \<open>A table of two half-range buckets, used to evaluate the operations on concrete inputs.\<close>

definition rt_halves :: "node \<Rightarrow> nat \<Rightarrow> node list \<Rightarrow> node list \<Rightarrow> routing_table" where
  "rt_halves self k lows highs =
     \<lparr>rt_node = self, rt_ksize = k, rt_buckets =
        [kb_new 0 0 0x7FFFFFFFFFFFFFFFFFFFFFFFFFFFFFFF k\<lparr>kb_nodes := lows\<rparr>,
         kb_new 0 0x80000000000000000000000000000000 (- 1) k\<lparr>kb_nodes := highs\<rparr>]\<rparr>"

abbreviation id_byte :: "u8 \<Rightarrow> bytes" where
  "id_byte x \<equiv> [x, 0, 0, 0, 0, 0, 0, 0, 0, 0, 0, 0, 0, 0, 0, 0, 0, 0, 0, 0]"

lemma id_to_u128_byte [simp]:
  "id_to_u128 (id_byte 0) = 0"
  "id_to_u128 (id_byte 1) = 0x01000000000000000000000000000000"
  "id_to_u128 (id_byte 64) = 0x40000000000000000000000000000000"
  "id_to_u128 (id_byte 128) = 0x80000000000000000000000000000000"
  "id_to_u128 (id_byte 129) = 0x81000000000000000000000000000000"
  "id_to_u128 (id_byte 192) = 0xC0000000000000000000000000000000"
  by (simp_all add: id_to_u128_def from_be_bytes_def be_nat_def)

section \<open>Properties of the routing table\<close>







text \<open>
  C20. \<open>add_contact\<close> never displaces a contact: whatever it splits, every contact known before is a
  contact afterwards, and the only new identifier in the table is that of the node added.
\<close>

theorem rt_add_contact_keeps_contacts:
  assumes "rt_inv rt" and "wf_node n" and "rt_add_contact now n rt = Some (l, rt')"
  shows "node_id ` rt_contacts rt \<subseteq> node_id ` rt_contacts rt' \<and> rt_known rt' \<subseteq> insert n (rt_known rt)"
  using assms rt_insert_keeps [OF assms(1,2)] by (auto simp: rt_add_contact_def split: if_splits)

theorem rt_add_contact_keeps_contacts_witness:
  "\<exists>l rt'. rt_add_contact 0 (from_id (id_byte 1)) (rt_new 0 (from_id (id_byte 0)) 1) = Some (l, rt') \<and>
     rt_known rt' \<subseteq> {from_id (id_byte 1)}"
proof -
  obtain rt' where add: "rt_add_contact 0 (from_id (id_byte 1)) (rt_new 0 (from_id (id_byte 0)) 1) = Some (None, rt')"
    using rt_add_contact_new [of 1 "from_id (id_byte 1)" "from_id (id_byte 0)" 0 0] by simp
  have "rt_known rt' \<subseteq> insert (from_id (id_byte 1)) (rt_known (rt_new 0 (from_id (id_byte 0)) 1))"
    using rt_add_contact_keeps_contacts [OF rt_new_inv _ add] by (simp add: ID_LEN_def)
  then have "rt_known rt' \<subseteq> {from_id (id_byte 1)}" by (simp add: rt_new_def rt_known_def kb_known_def)
  with add show ?thesis by blast
qed

lemma rt_halves_inv:
  assumes "\<forall>n \<in> set lows. wf_node n \<and> long_id n \<le> 0x7FFFFFFFFFFFFFFFFFFFFFFFFFFFFFFF"
    and "\<forall>n \<in> set highs. wf_node n \<and> 0x80000000000000000000000000000000 \<le> long_id n"
    and "distinct (map node_id lows)" and "distinct (map node_id highs)"
    and "length lows \<le> k" and "length highs \<le> k" and "\<forall>n \<in> set lows \<union> set highs. node_id n \<noteq> node_id self"
  shows "rt_inv (rt_halves self k lows highs)"
proof -
  have "unat (- 1 :: u128) = 2 ^ 128 - 1"
    by (simp add: unsigned_minus_1_eq_mask mask_eq_exp_minus_1)
  then show ?thesis
    using assms by (auto simp: rt_inv_def rt_halves_def kb_ok_def kb_inv_def rt_known_def kb_known_def
        kb_covers_def kb_new_def)
qed



text \<open>
  \<open>remove_contact\<close> forgets exactly the given node, as a contact and as a replacement; every
  other known node stays, so a later lookup reports the removed node as new.
\<close>

theorem rt_remove_contact_forgets:
  assumes "rt_inv rt" and "wf_node n"
  shows "rt_known (rt_remove_contact n rt) = {m \<in> rt_known rt. node_id m \<noteq> node_id n} \<and>
    rt_is_new_node (rt_remove_contact n rt) n"
  using rt_remove_contact_known [OF assms] rt_contacts_known [of "rt_remove_contact n rt"]
  by (auto simp: rt_is_new_node_iff [OF rt_remove_contact_inv [OF assms(1)] assms(2)])

theorem rt_remove_contact_forgets_witness:
  "rt_known (rt_remove_contact (from_id (id_byte 128))
      (rt_halves (from_id (id_byte 0)) 1 [] [from_id (id_byte 128)])) = {}"
proof -
  let ?a = "from_id (id_byte 128)" and ?self = "from_id (id_byte 0)"
  have "rt_inv (rt_halves ?self 1 [] [?a])" by (rule rt_halves_inv) (simp_all add: ID_LEN_def)
  from rt_remove_contact_forgets [OF this, of ?a] show ?thesis
    by (simp add: ID_LEN_def) (auto simp: rt_halves_def rt_known_def kb_known_def)
qed

text \<open>
  C26. \<open>find_neighbors\<close> returns contacts sorted by their distance to the target, without
  repetition, never the target or the excluded node, and exactly \<open>k\<close> of them or all that exist
  if there are fewer.
\<close>

theorem rt_find_neighbors_correct:
  assumes "rt_inv rt" and "0 < rt_ksize rt"
  shows "let ns = fst (rt_find_neighbors now rt target exclude);
             eligible = {m \<in> rt_contacts rt. node_id m \<noteq> node_id target \<and>
               (\<forall>ex. exclude = Some ex \<longrightarrow> node_id m \<noteq> node_id ex)}
         in sorted (map (\<lambda>n. distance_to n target) ns) \<and> distinct (map node_id ns) \<and>
            set ns \<subseteq> eligible \<and> length ns = min (rt_ksize rt) (card eligible)"
  using rt_find_neighbors_spec [OF assms refl, where now = now and target = target and exclude = exclude]
  by (simp add: Let_def rt_eligible_def)

theorem rt_find_neighbors_correct_witness:
  "let ns = fst (rt_find_neighbors 5 (rt_halves (from_id (id_byte 0)) 1 [] [from_id (id_byte 128)])
              (from_id (id_byte 1)) None)
   in sorted (map (\<lambda>n. distance_to n (from_id (id_byte 1))) ns) \<and> length ns \<le> 1"
proof -
  let ?a = "from_id (id_byte 128)" and ?self = "from_id (id_byte 0)"
  let ?rt = "rt_halves ?self 1 [] [?a]"
  have inv: "rt_inv ?rt" by (rule rt_halves_inv) (simp_all add: ID_LEN_def)
  have "0 < rt_ksize ?rt" "rt_ksize ?rt = 1" by (simp_all add: rt_halves_def)
  with rt_find_neighbors_correct [OF inv, where now = 5 and target = "from_id (id_byte 1)" and exclude = None] show ?thesis
    unfolding Let_def by auto
qed

text \<open>
  C35. \<open>add_contact\<close> does not return when \<open>k\<close> contacts share the folded identifier of the local
  node and one more such node arrives: the bucket shrinks to that single identifier and splitting
  it reproduces it.
\<close>

theorem rt_add_contact_diverges:
  assumes "rt_inv rt" and "wf_node n" and "node_id n \<noteq> node_id (rt_node rt)"
    and "long_id n = long_id (rt_node rt)" and "rt_is_new_node rt n"
    and "rt_ksize rt \<le> card {m \<in> rt_contacts rt. long_id m = long_id n}"
  shows "rt_add_contact now n rt = None"
proof -
  have "node_id n \<notin> node_id ` rt_contacts rt"
    using assms(5) by (simp add: rt_is_new_node_iff [OF assms(1,2)])
  then have "rt_crowded n rt" unfolding rt_crowded_def using assms(4,6) by blast
  then show ?thesis using rt_insert_diverges [OF assms(1-3)] assms(3) by (simp add: rt_add_contact_def)
qed

abbreviation id_fold :: "u8 \<Rightarrow> bytes" where
  "id_fold x \<equiv> [x, 0, 0, 0, 0, 0, 0, 0, 0, 0, 0, 0, 0, 0, 0, 0, x, 0, 0, 0]"

lemma id_to_u128_fold: "id_to_u128 (id_fold 1) = 0" "id_to_u128 (id_fold 2) = 0"
  by (simp_all add: id_to_u128_def from_be_bytes_def be_nat_def)

theorem rt_add_contact_diverges_witness:
  "rt_add_contact 0 (from_id (id_fold 2))
     (rt_halves (from_id (id_byte 0)) 1 [from_id (id_fold 1)] []) = None"
proof -
  let ?a = "from_id (id_fold 1)" and ?n = "from_id (id_fold 2)" and ?self = "from_id (id_byte 0)"
  let ?rt = "rt_halves ?self 1 [?a] []"
  have inv: "rt_inv ?rt" by (rule rt_halves_inv) (simp_all add: ID_LEN_def id_to_u128_fold)
  have contacts: "rt_contacts ?rt = {?a}" by (simp add: rt_contacts_def rt_halves_def)
  have "{m \<in> rt_contacts ?rt. long_id m = long_id ?n} = {?a}"
    unfolding contacts by (auto simp: id_to_u128_fold)
  then have card: "rt_ksize ?rt \<le> card {m \<in> rt_contacts ?rt. long_id m = long_id ?n}"
    by (simp only: card.insert finite.emptyI) (simp add: rt_halves_def)
  have wf: "wf_node ?n" by (simp add: ID_LEN_def)
  have new: "rt_is_new_node ?rt ?n" unfolding rt_is_new_node_iff [OF inv wf] contacts by simp
  show ?thesis
    by (rule rt_add_contact_diverges [OF inv wf _ _ new card]) (simp_all add: rt_halves_def id_to_u128_fold)
qed

text \<open>
  The documentation of \<open>find_neighbors\<close> promises the \<open>k\<close> nodes closest to the target. The
  traversal drains the left buckets farthest first and stops at \<open>k\<close> candidates, so a well-formed
  table can answer with a contact while a strictly closer one is left out.
\<close>

theorem rt_find_neighbors_not_closest:
  "\<exists>rt target m c. rt_inv rt \<and> 0 < rt_ksize rt \<and> wf_node target \<and>
     m \<in> set (fst (rt_find_neighbors now rt target None)) \<and>
     c \<in> rt_contacts rt \<and> c \<notin> set (fst (rt_find_neighbors now rt target None)) \<and>
     node_id c \<noteq> node_id target \<and> distance_to c target < distance_to m target"
proof -
  let ?m = "from_id (id_byte 1)" and ?c = "from_id (id_byte 64)" and ?target = "from_id (id_byte 192)"
  let ?b0 = "kb_new 0 0 0x3FFFFFFFFFFFFFFFFFFFFFFFFFFFFFFF 1\<lparr>kb_nodes := [?m]\<rparr>"
  let ?b1 = "kb_new 0 0x40000000000000000000000000000000 0x7FFFFFFFFFFFFFFFFFFFFFFFFFFFFFFF 1\<lparr>kb_nodes := [?c]\<rparr>"
  let ?b2 = "kb_new 0 0x80000000000000000000000000000000 (- 1) 1"
  let ?rt = "\<lparr>rt_node = from_id (id_byte 0), rt_ksize = 1, rt_buckets = [?b0, ?b1, ?b2]\<rparr>"
  have "unat (- 1 :: u128) = 2 ^ 128 - 1"
    by (simp add: unsigned_minus_1_eq_mask mask_eq_exp_minus_1)
  then have inv: "rt_inv ?rt"
    by (simp add: rt_inv_def kb_ok_def kb_inv_def rt_known_def kb_known_def kb_covers_def kb_new_def ID_LEN_def)
  have "rt_bucket_index_for ?rt (long_id ?target) = 2"
    by (simp add: rt_bucket_index_for_def kb_covers_def)
  then have "tt_yield (fst (tt_new now ?rt ?target)) = [?m, ?c]"
    by (simp add: tt_new_def tt_yield_def tt_order.simps Let_def)
  then have ns: "fst (rt_find_neighbors now ?rt ?target None) = [?m]"
    by (simp add: rt_find_neighbors_eq rt_eligible_def)
  have "?c \<in> rt_contacts ?rt" by (simp add: rt_contacts_def)
  moreover have "distance_to ?c ?target < distance_to ?m ?target" by (simp add: distance_to_def)
  moreover have "?c \<noteq> ?m"
  proof
    assume "?c = ?m"
    then have "node_id ?c = node_id ?m" by (rule arg_cong)
    then show False by simp
  qed
  ultimately show ?thesis
    using inv ns by (intro exI [of _ ?rt] exI [of _ ?target] exI [of _ ?m] exI [of _ ?c]) (simp add: ID_LEN_def)
qed

end
