(* ===== verification/Storage.thy ===== *)
theory Storage
  imports Prelude
begin

text \<open>
  \<^verbatim>\<open>src/storage.rs\<close>: the \<open>IStorage\<close> interface as a locale and \<open>ForgetfulStorage\<close> with its lazy
  expiry as the instance. The concurrent map is a map from keys to the value and its insertion
  instant; its iteration order is unspecified, so the iterators take the key order \<open>ks\<close>, an
  enumeration of the domain. The time to live is an \<open>i64\<close>, cast to \<open>u64\<close> as in the code.
\<close>

definition DEFAULT_TTL :: "64 word" where
  "DEFAULT_TTL = 604800"

record storage =
  st_data :: "bytes \<rightharpoonup> bytes \<times> instant"
  st_ttl :: "64 word"

definition st_new :: "64 word \<Rightarrow> storage" where
  "st_new ttl = \<lparr>st_data = Map.empty, st_ttl = ttl\<rparr>"

definition st_is_expired :: "instant \<Rightarrow> storage \<Rightarrow> instant \<Rightarrow> bool" where
  "st_is_expired now s inserted_at \<longleftrightarrow>
     (if st_ttl s = - 1 then False
      else elapsed now inserted_at > duration_from_secs (unat (st_ttl s)))"

definition st_set :: "instant \<Rightarrow> bytes \<Rightarrow> bytes \<Rightarrow> storage \<Rightarrow> storage" where
  "st_set now key value s = s\<lparr>st_data := (st_data s)(key \<mapsto> (value, now))\<rparr>"

definition st_insert_if_absent :: "instant \<Rightarrow> bytes \<Rightarrow> bytes \<Rightarrow> storage \<Rightarrow> bool \<times> storage" where
  "st_insert_if_absent now key value s =
     (case st_data s key of
        None \<Rightarrow> (True, s\<lparr>st_data := (st_data s)(key \<mapsto> (value, now))\<rparr>)
      | Some (_, inserted_at) \<Rightarrow>
          if st_is_expired now s inserted_at
          then (True, s\<lparr>st_data := (st_data s)(key \<mapsto> (value, now))\<rparr>)
          else (False, s))"

definition st_get_default :: "instant \<Rightarrow> bytes \<Rightarrow> bytes option \<Rightarrow> storage \<Rightarrow> bytes option" where
  "st_get_default now key dflt s =
     (case st_data s key of
        Some (value, inserted_at) \<Rightarrow> if \<not> st_is_expired now s inserted_at then Some value else dflt
      | None \<Rightarrow> dflt)"

definition st_get :: "instant \<Rightarrow> bytes \<Rightarrow> storage \<Rightarrow> bytes option" where
  "st_get now key s = st_get_default now key None s"

definition st_delete :: "bytes \<Rightarrow> storage \<Rightarrow> storage" where
  "st_delete key s = s\<lparr>st_data := (st_data s)(key := None)\<rparr>"

definition st_entries :: "bytes list \<Rightarrow> storage \<Rightarrow> (bytes \<times> bytes \<times> instant) list" where
  "st_entries ks s =
     concat (map (\<lambda>k. case st_data s k of None \<Rightarrow> [] | Some (v, t) \<Rightarrow> [(k, v, t)]) ks)"

definition st_iter_older_than :: "instant \<Rightarrow> bytes list \<Rightarrow> nat \<Rightarrow> storage \<Rightarrow> (bytes \<times> bytes) list" where
  "st_iter_older_than now ks seconds_old s =
     map (\<lambda>(k, v, t). (k, v))
       (filter (\<lambda>(k, v, t). elapsed now t \<ge> duration_from_secs seconds_old \<and> \<not> st_is_expired now s t)
         (st_entries ks s))"

definition st_iter_all :: "instant \<Rightarrow> bytes list \<Rightarrow> storage \<Rightarrow> (bytes \<times> bytes) list" where
  "st_iter_all now ks s =
     map (\<lambda>(k, v, t). (k, v)) (filter (\<lambda>(k, v, t). \<not> st_is_expired now s t) (st_entries ks s))"

section \<open>The IStorage interface\<close>

text \<open>
  What the clients of a store rely on. Reads take the time of the call; a value may become
  unreadable as time passes but never readable again.
\<close>

locale istorage =
  fixes get :: "instant \<Rightarrow> bytes \<Rightarrow> 's \<Rightarrow> bytes option"
    and put :: "instant \<Rightarrow> bytes \<Rightarrow> bytes \<Rightarrow> 's \<Rightarrow> 's"
    and insert_absent :: "instant \<Rightarrow> bytes \<Rightarrow> bytes \<Rightarrow> 's \<Rightarrow> bool \<times> 's"
    and del :: "bytes \<Rightarrow> 's \<Rightarrow> 's"
  assumes get_put_now: "get now k (put now k v s) = Some v"
    and get_put_later: "get now k (put t k v s) = Some w \<Longrightarrow> w = v"
    and get_put_other: "j \<noteq> k \<Longrightarrow> get now j (put t k v s) = get now j s"
    and get_del: "get now k (del k s) = None"
    and get_del_other: "j \<noteq> k \<Longrightarrow> get now j (del k s) = get now j s"
    and get_earlier: "now \<le> now' \<Longrightarrow> get now' k s = Some v \<Longrightarrow> get now k s = Some v"
    and insert_absent_eq:
      "insert_absent now k v s = (if get now k s = None then (True, put now k v s) else (False, s))"
begin

text \<open>\<open>keeps Q s\<close>: every value that can be read satisfies \<open>Q\<close>.\<close>

definition keeps :: "(bytes \<Rightarrow> bytes \<Rightarrow> bool) \<Rightarrow> 's \<Rightarrow> bool" where
  "keeps Q s \<longleftrightarrow> (\<forall>now k v. get now k s = Some v \<longrightarrow> Q k v)"

lemma keepsD: "keeps Q s \<Longrightarrow> get now k s = Some v \<Longrightarrow> Q k v"
  by (auto simp: keeps_def)

lemma keeps_put: "keeps Q s \<Longrightarrow> Q k v \<Longrightarrow> keeps Q (put now k v s)"
  unfolding keeps_def by (metis get_put_later get_put_other)

lemma keeps_del: "keeps Q s \<Longrightarrow> keeps Q (del k s)"
  unfolding keeps_def by (metis get_del get_del_other option.distinct(1))

lemma keeps_insert_absent: "keeps Q s \<Longrightarrow> Q k v \<Longrightarrow> keeps Q (snd (insert_absent now k v s))"
  by (simp add: insert_absent_eq keeps_put)

text \<open>First writer wins: an insertion of a readable key changes nothing, and after an insertion the key is readable.\<close>

lemma insert_absent_readable: "\<exists>w. get now k (snd (insert_absent now k v s)) = Some w"
  by (cases "get now k s") (simp_all add: insert_absent_eq get_put_now)

lemma insert_absent_again:
  "insert_absent now k w (snd (insert_absent now k v s)) = (False, snd (insert_absent now k v s))"
  using insert_absent_readable [of now k v s] by (auto simp: insert_absent_eq [of now k w])

end

lemma st_data_update_simps [simp, state_simps]:
  "st_data (st_set now k v s) = (st_data s)(k \<mapsto> (v, now))"
  "st_data (st_delete k s) = (st_data s)(k := None)"
  "st_ttl (st_set now k v s) = st_ttl s" "st_ttl (st_delete k s) = st_ttl s"
  "st_ttl (snd (st_insert_if_absent now k v s)) = st_ttl s"
  "st_is_expired now (st_set now' k v s) = st_is_expired now s"
  "st_is_expired now (st_delete k s) = st_is_expired now s"
  by (auto simp: st_set_def st_delete_def st_insert_if_absent_def st_is_expired_def fun_eq_iff split: option.split)

lemma st_get_eq:
  "st_get now k s =
     (case st_data s k of None \<Rightarrow> None | Some (v, t) \<Rightarrow> if st_is_expired now s t then None else Some v)"
  by (auto simp: st_get_def st_get_default_def split: option.split)

lemma st_get_set:
  "st_get now j (st_set t k v s) =
     (if j = k then (if st_is_expired now s t then None else Some v) else st_get now j s)"
  by (simp add: st_get_eq split: option.split)

lemma st_get_delete: "st_get now j (st_delete k s) = (if j = k then None else st_get now j s)"
  by (simp add: st_get_eq split: option.split)

lemma st_insert_if_absent_eq:
  "st_insert_if_absent now k v s =
     (if st_get now k s = None then (True, st_set now k v s) else (False, s))"
  by (auto simp: st_insert_if_absent_def st_get_eq st_set_def split: option.split)

lemma st_is_expired_mono: "now \<le> now' \<Longrightarrow> st_is_expired now s t \<Longrightarrow> st_is_expired now' s t"
  by (auto simp: st_is_expired_def elapsed_def split: if_splits)

lemma st_fresh [simp]: "\<not> st_is_expired now s now"
  by (simp add: st_is_expired_def elapsed_def)

interpretation fs: istorage st_get st_set st_insert_if_absent st_delete
proof unfold_locales
  show "st_get now' k s = Some v \<Longrightarrow> st_get now k s = Some v" if "now \<le> now'" for now now' k s v
    using st_is_expired_mono [OF that] by (auto simp: st_get_eq split: option.splits if_splits)
qed (auto simp: st_get_set st_get_delete st_insert_if_absent_eq split: if_splits)

lemma st_entries_set: "set (st_entries ks s) = {(k, v, t). k \<in> set ks \<and> st_data s k = Some (v, t)}"
  by (auto simp: st_entries_def split: option.splits)

section \<open>Properties of the store\<close>

text \<open>
  A value written at time \<open>t\<close> is read back until its age exceeds the time to live, and forever
  when the time to live is \<open>-1\<close>; writes and deletions of other keys do not affect it.
\<close>

theorem st_read_after_write:
  "st_get now j (st_set t k v s) =
     (if j \<noteq> k then st_get now j s
      else if st_ttl s = - 1 \<or> now - t \<le> unat (st_ttl s) * 1000000000 then Some v else None) \<and>
   st_get now j (st_delete k s) = (if j = k then None else st_get now j s)"
  by (auto simp: st_get_set st_get_delete st_is_expired_def elapsed_def duration_from_secs_def)

text \<open>
  \<open>insert_if_absent\<close> is a first-writer-wins write: it succeeds exactly when the key cannot be
  read (absent or expired), and a second insertion at the same time fails and changes nothing.
\<close>

theorem st_insert_if_absent_first_wins:
  "fst (st_insert_if_absent now k v s) = (st_get now k s = None) \<and>
   st_get now k (snd (st_insert_if_absent now k v s)) =
     (case st_get now k s of None \<Rightarrow> Some v | Some old \<Rightarrow> Some old) \<and>
   st_insert_if_absent now k w (snd (st_insert_if_absent now k v s)) =
     (False, snd (st_insert_if_absent now k v s))"
  using fs.insert_absent_again [of now k w v s]
  by (auto simp: st_insert_if_absent_eq [of now k v s] st_get_set split: option.split)

text \<open>
  For every iteration order of the map, \<open>iter_all\<close> lists exactly the pairs that can be read,
  and \<open>iter_older_than\<close> exactly those of them that were written at least that long ago.
\<close>

theorem st_iter_lists_readable:
  assumes "set ks = dom (st_data s)"
  shows "set (st_iter_all now ks s) = {(k, v). st_get now k s = Some v} \<and>
    set (st_iter_older_than now ks secs s) =
      {(k, v). st_get now k s = Some v \<and> (\<exists>t. st_data s k = Some (v, t) \<and> secs * 1000000000 \<le> now - t)}"
  using assms
  by (auto simp: st_iter_all_def st_iter_older_than_def st_entries_set st_get_eq elapsed_def
      duration_from_secs_def image_iff split: option.splits if_splits) (auto simp: dom_def)

theorem st_iter_lists_readable_witness:
  "set (st_iter_all 5 [[1]] (st_set 3 [1] [2] (st_new (- 1)))) = {([1], [2])}"
proof -
  let ?s = "st_set 3 [1] [2] (st_new (- 1))"
  have "set [[1]] = dom (st_data ?s)" by (simp add: st_set_def st_new_def)
  from st_iter_lists_readable [OF this, of 5 0] show ?thesis
    by (auto simp: st_get_set st_new_def st_get_eq st_is_expired_def split: if_splits)
qed

end
