(* ===== verification/Fragmentation.thy ===== *)
theory Fragmentation
  imports Prelude
begin

text \<open>
  \<^verbatim>\<open>src/fragmentation.rs\<close>: splitting a serialized message into datagrams with a twelve-byte header,
  parsing a datagram and reassembling the message. Header fields are words of the code's widths;
  \<open>as u16\<close> truncates.
\<close>

definition FRAG_MAGIC :: u32 where
  "FRAG_MAGIC = 0x4B414446"

definition FRAG_HEADER_LEN :: nat where
  "FRAG_HEADER_LEN = 4 + 4 + 2 + 2"

definition FRAG_CHUNK_SIZE :: nat where
  "FRAG_CHUNK_SIZE = 1400"

definition REASSEMBLY_TTL :: nat where
  "REASSEMBLY_TTL = duration_from_secs 10"

definition MAX_MESSAGE_SIZE :: nat where
  "MAX_MESSAGE_SIZE = 256 * 1024"

section \<open>ReassemblyEntry\<close>

record reassembly_entry =
  re_total :: u16
  re_received :: u16
  re_chunks :: "bytes option list"
  re_created_at :: instant

definition re_new :: "instant \<Rightarrow> u16 \<Rightarrow> reassembly_entry" where
  "re_new now tot =
     \<lparr>re_total = tot, re_received = 0, re_chunks = replicate (unat tot) None,
      re_created_at = now\<rparr>"

definition re_insert :: "u16 \<Rightarrow> bytes \<Rightarrow> reassembly_entry \<Rightarrow> bool \<times> reassembly_entry" where
  "re_insert index payload e =
     (let idx = unat index
      in if idx \<ge> length (re_chunks e) then (False, e)
         else
           let e' = (if re_chunks e ! idx = None
                     then e\<lparr>re_chunks := (re_chunks e)[idx := Some payload],
                            re_received := re_received e + 1\<rparr>
                     else e)
           in (re_received e' = re_total e', e'))"

fun assemble_chunks :: "bytes option list \<Rightarrow> bytes \<Rightarrow> bytes option" where
  "assemble_chunks [] out = Some out"
| "assemble_chunks (None # cs) out = None"
| "assemble_chunks (Some c # cs) out = assemble_chunks cs (out @ c)"

definition re_assemble :: "reassembly_entry \<Rightarrow> bytes option" where
  "re_assemble e = assemble_chunks (re_chunks e) []"

section \<open>Encoding and parsing\<close>

text \<open>\<open>slice::chunks\<close>; the chunk size of the code is positive.\<close>

function chunks :: "nat \<Rightarrow> 'a list \<Rightarrow> 'a list list" where
  "chunks n xs = (if xs = [] \<or> n = 0 then [] else take n xs # chunks n (drop n xs))"
  by pat_completeness auto
termination by (relation "measure (\<lambda>(n, xs). length xs)") auto

declare chunks.simps [simp del]

definition div_ceil :: "nat \<Rightarrow> nat \<Rightarrow> nat" where
  "div_ceil a b = (if a mod b > 0 then a div b + 1 else a div b)"

definition fragment_header :: "u32 \<Rightarrow> u16 \<Rightarrow> u16 \<Rightarrow> bytes" where
  "fragment_header frag_id index tot =
     to_be_bytes 4 FRAG_MAGIC @ to_be_bytes 4 frag_id @ to_be_bytes 2 index @ to_be_bytes 2 tot"

definition encode_fragments :: "u32 \<Rightarrow> bytes \<Rightarrow> bytes list" where
  "encode_fragments frag_id payload =
     (if payload = [] then [fragment_header frag_id 0 1]
      else
        let tot = of_nat (div_ceil (length payload) FRAG_CHUNK_SIZE)
        in map (\<lambda>(i, chunk). fragment_header frag_id (of_nat i) tot @ chunk)
             (List.enumerate 0 (chunks FRAG_CHUNK_SIZE payload)))"

record frag_header =
  fh_frag_id :: u32
  fh_index :: u16
  fh_total :: u16

definition parse_fragment :: "bytes \<Rightarrow> (frag_header \<times> bytes) option" where
  "parse_fragment data =
     (if length data < FRAG_HEADER_LEN then None
      else if (from_be_bytes (take 4 data) :: u32) \<noteq> FRAG_MAGIC then None
      else
        let frag_id = from_be_bytes (take 4 (drop 4 data)) :: u32;
            index = from_be_bytes (take 2 (drop 8 data)) :: u16;
            tot = from_be_bytes (take 2 (drop 10 data)) :: u16
        in if tot = 0 \<or> index \<ge> tot then None
           else Some (\<lparr>fh_frag_id = frag_id, fh_index = index, fh_total = tot\<rparr>,
                      drop FRAG_HEADER_LEN data))"

section \<open>Chunks\<close>

lemma chunks_Nil [simp]: "chunks n [] = []"
  by (simp add: chunks.simps)

lemma chunks_Cons: "xs \<noteq> [] \<Longrightarrow> 0 < n \<Longrightarrow> chunks n xs = take n xs # chunks n (drop n xs)"
  by (subst chunks.simps) simp

lemma concat_chunks: "0 < n \<Longrightarrow> concat (chunks n xs) = xs"
  by (induction n xs rule: chunks.induct) (subst chunks.simps, simp)

lemma length_chunk_le: "c \<in> set (chunks n xs) \<Longrightarrow> length c \<le> n"
proof (induction n xs rule: chunks.induct)
  case (1 n xs)
  then show ?case by (auto simp: chunks.simps [of n xs] split: if_splits)
qed

lemma div_ceil_step: "0 < n \<Longrightarrow> 0 < m \<Longrightarrow> div_ceil m n = Suc (div_ceil (m - n) n)"
proof (cases "n \<le> m")
  case True
  assume "0 < n"
  moreover obtain d where "m = n + d" using True le_Suc_ex by blast
  ultimately show ?thesis by (simp add: div_ceil_def div_add_self1)
next
  case False
  assume "0 < m"
  with False show ?thesis by (simp add: div_ceil_def)
qed

lemma length_chunks: "0 < n \<Longrightarrow> length (chunks n xs) = div_ceil (length xs) n"
proof (induction n xs rule: chunks.induct)
  case (1 n xs)
  show ?case
  proof (cases "xs = []")
    case False
    with 1 show ?thesis by (simp add: chunks_Cons div_ceil_step)
  qed (simp add: div_ceil_def)
qed

lemma div_ceil_le: "0 < n \<Longrightarrow> m \<le> k * n \<Longrightarrow> div_ceil m n \<le> k"
proof -
  assume n: "0 < n" and le: "m \<le> k * n"
  show ?thesis
  proof (cases "m mod n = 0")
    case True
    then show ?thesis using n le by (simp add: div_ceil_def) (metis div_le_mono nonzero_mult_div_cancel_right not_gr0)
  next
    case False
    then have "m div n * n < m" by (metis div_mult_mod_eq less_add_same_cancel1 neq0_conv)
    then have "m div n * n < k * n" using le by linarith
    then have "m div n < k" using n by simp
    then show ?thesis using False by (simp add: div_ceil_def)
  qed
qed

section \<open>Encoding and parsing agree\<close>

definition frag_chunks :: "bytes \<Rightarrow> bytes list" where
  "frag_chunks payload = (if payload = [] then [[]] else chunks FRAG_CHUNK_SIZE payload)"

lemma chunk_size_pos [simp]: "0 < FRAG_CHUNK_SIZE"
  by (simp add: FRAG_CHUNK_SIZE_def)

lemma concat_frag_chunks: "concat (frag_chunks payload) = payload"
  by (simp add: frag_chunks_def concat_chunks)

lemma length_frag_chunks_pos: "0 < length (frag_chunks payload)"
  by (simp add: frag_chunks_def chunks_Cons)

lemma length_frag_chunks_le:
  "length payload \<le> 65535 * FRAG_CHUNK_SIZE \<Longrightarrow> length (frag_chunks payload) \<le> 65535"
  by (simp add: frag_chunks_def length_chunks div_ceil_le)

text \<open>The datagrams that carry a given list of chunks, whatever the length of the chunks.\<close>

definition fragments_of :: "u32 \<Rightarrow> bytes list \<Rightarrow> bytes list" where
  "fragments_of frag_id cs =
     map (\<lambda>(i, chunk). fragment_header frag_id (of_nat i) (of_nat (length cs)) @ chunk) (List.enumerate 0 cs)"

lemma encode_fragments_eq: "encode_fragments frag_id payload = fragments_of frag_id (frag_chunks payload)"
  by (simp add: encode_fragments_def fragments_of_def frag_chunks_def length_chunks Let_def)

lemma length_fragments_of [simp]: "length (fragments_of frag_id cs) = length cs"
  by (simp add: fragments_of_def)

lemma length_encode_fragments [simp]:
  "length (encode_fragments frag_id payload) = length (frag_chunks payload)"
  by (simp add: encode_fragments_eq)

lemma nth_fragments_of:
  "i < length cs \<Longrightarrow> fragments_of frag_id cs ! i =
     fragment_header frag_id (of_nat i) (of_nat (length cs)) @ cs ! i"
  by (simp add: fragments_of_def nth_enumerate_eq)

lemma nth_encode_fragments:
  "i < length (frag_chunks payload) \<Longrightarrow> encode_fragments frag_id payload ! i =
     fragment_header frag_id (of_nat i) (of_nat (length (frag_chunks payload))) @ frag_chunks payload ! i"
  by (simp add: encode_fragments_eq nth_fragments_of)

lemma length_fragment_header [simp]: "length (fragment_header frag_id i t) = FRAG_HEADER_LEN"
  by (simp add: fragment_header_def FRAG_HEADER_LEN_def)

lemma parse_fragment_header:
  assumes "i < t"
  shows "parse_fragment (fragment_header frag_id i t @ c) =
    Some (\<lparr>fh_frag_id = frag_id, fh_index = i, fh_total = t\<rparr>, c)"
proof -
  have "from_be_bytes (to_be_bytes 4 (w :: u32)) = w" for w
    by (rule from_be_bytes_to_be_bytes) simp
  moreover have "from_be_bytes (to_be_bytes 2 (w :: u16)) = w" for w
    by (rule from_be_bytes_to_be_bytes) simp
  moreover have "t \<noteq> 0" "\<not> t \<le> i" using assms by auto
  ultimately show ?thesis
    by (simp add: parse_fragment_def fragment_header_def FRAG_HEADER_LEN_def Let_def)
qed

lemma unat_of_nat_u16: "n \<le> 65535 \<Longrightarrow> unat (of_nat n :: u16) = n"
  by (simp add: unsigned_of_nat take_bit_nat_eq_self)

lemma parse_nth_fragment:
  assumes "length cs \<le> 65535" and "i < length cs"
  shows "parse_fragment (fragments_of frag_id cs ! i) =
    Some (\<lparr>fh_frag_id = frag_id, fh_index = of_nat i, fh_total = of_nat (length cs)\<rparr>, cs ! i)"
proof -
  have "(of_nat i :: u16) < of_nat (length cs)"
    using assms by (simp add: word_less_nat_alt unat_of_nat_u16)
  then show ?thesis by (simp add: nth_fragments_of [OF assms(2)] parse_fragment_header)
qed

lemma fragments_of_distinct:
  assumes "length cs \<le> 65535"
  shows "distinct (fragments_of frag_id cs)"
proof -
  have "i = j" if "i < length cs" "j < length cs" "fragments_of frag_id cs ! i = fragments_of frag_id cs ! j" for i j
  proof -
    have "(of_nat i :: u16) = of_nat j"
      using parse_nth_fragment [OF assms that(1), of frag_id] parse_nth_fragment [OF assms that(2), of frag_id] that(3) by simp
    moreover have "unat (of_nat i :: u16) = i" "unat (of_nat j :: u16) = j"
      using that(1,2) assms by (auto intro!: unat_of_nat_u16)
    ultimately show ?thesis by metis
  qed
  then show ?thesis unfolding distinct_conv_nth by auto
qed

section \<open>Reassembly\<close>

definition re_inv :: "reassembly_entry \<Rightarrow> bool" where
  "re_inv e \<longleftrightarrow> length (re_chunks e) = unat (re_total e) \<and>
     unat (re_received e) = length (filter (\<lambda>c. c \<noteq> None) (re_chunks e))"

lemma re_new_inv [wf_intros]: "re_inv (re_new now t)"
  by (simp add: re_inv_def re_new_def)

lemma length_filter_list_update:
  "i < length xs \<Longrightarrow> \<not> P (xs ! i) \<Longrightarrow> P v \<Longrightarrow> length (filter P (xs[i := v])) = Suc (length (filter P xs))"
proof (induction xs arbitrary: i)
  case (Cons x xs)
  then show ?case by (cases i) auto
qed simp

lemma re_insert_chunks:
  "re_chunks (snd (re_insert i c e)) =
     (if unat i < length (re_chunks e) \<and> re_chunks e ! unat i = None
      then (re_chunks e)[unat i := Some c] else re_chunks e)"
  "re_total (snd (re_insert i c e)) = re_total e"
  "re_created_at (snd (re_insert i c e)) = re_created_at e"
  by (simp_all add: re_insert_def Let_def)

lemma re_insert_inv [wf_intros]:
  assumes "re_inv e"
  shows "re_inv (snd (re_insert i c e))"
proof (cases "unat i < length (re_chunks e) \<and> re_chunks e ! unat i = None")
  case False
  then have "snd (re_insert i c e) = e" by (auto simp: re_insert_def Let_def)
  with assms show ?thesis by simp
next
  case True
  then have eq: "snd (re_insert i c e) = e\<lparr>re_chunks := (re_chunks e)[unat i := Some c], re_received := re_received e + 1\<rparr>"
    by (simp add: re_insert_def Let_def)
  have count: "length (filter (\<lambda>c. c \<noteq> None) ((re_chunks e)[unat i := Some c])) = Suc (unat (re_received e))"
    using True assms by (simp add: length_filter_list_update re_inv_def)
  then have "Suc (unat (re_received e)) \<le> unat (re_total e)"
    using assms length_filter_le [of "\<lambda>c. c \<noteq> None" "(re_chunks e)[unat i := Some c]"] by (simp add: re_inv_def)
  then have "unat (re_received e) + unat (1 :: u16) < 2 ^ LENGTH(16)"
    using unat_lt_len [of "re_total e"] by simp
  then have "unat (re_received e + 1) = Suc (unat (re_received e))" by (simp add: unat_add_lem [THEN iffD1])
  with count assms show ?thesis by (simp add: eq re_inv_def)
qed

lemma length_filter_eq_iff: "length (filter P xs) = length xs \<longleftrightarrow> (\<forall>x \<in> set xs. P x)"
proof (induction xs)
  case (Cons x xs)
  have "length (filter P xs) \<noteq> Suc (length xs)" using length_filter_le [of P xs] by linarith
  with Cons show ?case by simp
qed simp

lemma re_inv_complete_iff: "re_inv e \<Longrightarrow> re_received e = re_total e \<longleftrightarrow> None \<notin> set (re_chunks e)"
proof -
  assume inv: "re_inv e"
  have "re_received e = re_total e \<longleftrightarrow> length (filter (\<lambda>c. c \<noteq> None) (re_chunks e)) = length (re_chunks e)"
    using inv by (simp add: re_inv_def word_unat_eq_iff)
  also have "\<dots> \<longleftrightarrow> (\<forall>c \<in> set (re_chunks e). c \<noteq> None)"
    by (rule length_filter_eq_iff)
  also have "\<dots> \<longleftrightarrow> None \<notin> set (re_chunks e)" by metis
  finally show ?thesis .
qed

lemma assemble_chunks_eq:
  "assemble_chunks cs out = (if None \<in> set cs then None else Some (out @ concat (map the cs)))"
  by (induction cs out rule: assemble_chunks.induct) auto

text \<open>Feeding one datagram of a message to its entry, as \<open>handle_datagram\<close> does.\<close>

definition re_receive :: "bytes \<Rightarrow> reassembly_entry \<Rightarrow> reassembly_entry" where
  "re_receive d e =
     (case parse_fragment d of None \<Rightarrow> e | Some (h, c) \<Rightarrow> snd (re_insert (fh_index h) c e))"

lemma re_receive_inv: "re_inv e \<Longrightarrow> re_inv (re_receive d e)"
  by (auto simp: re_receive_def re_insert_inv split: option.split)

definition re_holds :: "bytes list \<Rightarrow> nat set \<Rightarrow> reassembly_entry \<Rightarrow> bool" where
  "re_holds cs I e \<longleftrightarrow> re_chunks e = map (\<lambda>i. if i \<in> I then Some (cs ! i) else None) [0..<length cs]"

lemma re_holds_new: "length cs \<le> 65535 \<Longrightarrow> re_holds cs {} (re_new now (of_nat (length cs)))"
  by (simp add: re_holds_def re_new_def unat_of_nat_u16 map_replicate_const)

lemma re_holds_complete: "re_holds cs I e \<Longrightarrow> None \<notin> set (re_chunks e) \<longleftrightarrow> {..<length cs} \<subseteq> I"
  by (auto simp: re_holds_def)

lemma re_holds_concat: "re_holds cs I e \<Longrightarrow> {..<length cs} \<subseteq> I \<Longrightarrow> map the (re_chunks e) = cs"
  by (auto simp: re_holds_def intro!: nth_equalityI)

lemma re_holds_receive:
  assumes "length cs \<le> 65535" and "i < length cs" and "re_holds cs I e"
  shows "re_holds cs (insert i I) (re_receive (fragments_of frag_id cs ! i) e)"
proof -
  have i: "unat (of_nat i :: u16) = i" using assms(1,2) by (simp add: unat_of_nat_u16)
  have "re_chunks (re_receive (fragments_of frag_id cs ! i) e) =
      (if re_chunks e ! i = None then (re_chunks e)[i := Some (cs ! i)] else re_chunks e)"
    using assms(2,3) by (simp add: re_receive_def parse_nth_fragment [OF assms(1,2)] re_insert_chunks i re_holds_def)
  then show ?thesis
    using assms(2,3) by (auto simp: re_holds_def intro!: nth_equalityI simp: nth_list_update split: if_splits)
qed

lemma re_holds_all:
  assumes "length cs \<le> 65535" and "set ds \<subseteq> set (fragments_of frag_id cs)"
    and "re_holds cs I e" and "re_inv e"
  shows "re_inv (fold re_receive ds e) \<and>
    re_holds cs (I \<union> {i. i < length cs \<and> fragments_of frag_id cs ! i \<in> set ds}) (fold re_receive ds e)"
  using assms(2-4)
proof (induction ds arbitrary: I e)
  case (Cons d ds)
  obtain i where i: "i < length cs" "d = fragments_of frag_id cs ! i"
    using Cons.prems(1) by (auto simp: in_set_conv_nth)
  have uniq: "j = i" if "j < length cs" "fragments_of frag_id cs ! j = d" for j
    using that i nth_eq_iff_index_eq [OF fragments_of_distinct [OF assms(1), of frag_id], of j i] by simp
  have "re_holds cs (insert i I) (re_receive d e)"
    using re_holds_receive [OF assms(1) i(1) Cons.prems(2)] i(2) by simp
  from Cons.IH [OF _ this re_receive_inv [OF Cons.prems(3)]] Cons.prems(1)
  have "re_inv (fold re_receive ds (re_receive d e)) \<and>
    re_holds cs (insert i I \<union> {i. i < length cs \<and> fragments_of frag_id cs ! i \<in> set ds})
      (fold re_receive ds (re_receive d e))" by simp
  moreover have "insert i I \<union> {j. j < length cs \<and> fragments_of frag_id cs ! j \<in> set ds} =
      I \<union> {j. j < length cs \<and> fragments_of frag_id cs ! j \<in> set (d # ds)}"
    using i uniq by auto
  ultimately show ?case by simp
qed simp

text \<open>An entry that received datagrams of one list of chunks, in any order and with repetitions.\<close>

lemma reassembly_result:
  assumes "length cs \<le> 65535" and "set ds \<subseteq> set (fragments_of frag_id cs)"
  shows "let e = fold re_receive ds (re_new now (of_nat (length cs))) in
    re_inv e \<and> (re_received e = re_total e \<longleftrightarrow> set ds = set (fragments_of frag_id cs)) \<and>
    re_assemble e = (if set ds = set (fragments_of frag_id cs) then Some (concat cs) else None)"
proof -
  let ?en = "fragments_of frag_id cs"
  let ?e = "fold re_receive ds (re_new now (of_nat (length cs)))"
  let ?I = "{i. i < length cs \<and> ?en ! i \<in> set ds}"
  have inv: "re_inv ?e" and holds: "re_holds cs ?I ?e"
    using re_holds_all [OF assms re_holds_new [OF assms(1)] re_new_inv] by simp_all
  have sub: "{..<length cs} \<subseteq> ?I \<longleftrightarrow> set ds = set ?en"
    using assms(2) by (auto simp: set_conv_nth [of ?en])
  have all: "None \<notin> set (re_chunks ?e) \<longleftrightarrow> set ds = set ?en"
    unfolding re_holds_complete [OF holds] by (rule sub)
  have "concat (map the (re_chunks ?e)) = concat cs" if "set ds = set ?en"
    using re_holds_concat [OF holds] that sub by metis
  with all inv show ?thesis
    by (auto simp: Let_def re_inv_complete_iff [OF inv] re_assemble_def assemble_chunks_eq)
qed

section \<open>Properties of fragmentation\<close>

text \<open>
  Every datagram of an encoded message parses back to the message's fragment id, its index,
  the number of fragments and its chunk, and stays within the header plus 1400 bytes.
\<close>

theorem encode_parse_fragments:
  assumes "length payload \<le> 65535 * FRAG_CHUNK_SIZE"
  shows "let ds = encode_fragments frag_id payload in
    (\<forall>i < length ds. \<exists>c. parse_fragment (ds ! i) =
       Some (\<lparr>fh_frag_id = frag_id, fh_index = of_nat i, fh_total = of_nat (length ds)\<rparr>, c) \<and>
       length (ds ! i) \<le> FRAG_HEADER_LEN + FRAG_CHUNK_SIZE) \<and>
    concat (map (\<lambda>d. drop FRAG_HEADER_LEN d) ds) = payload"
proof -
  let ?ds = "encode_fragments frag_id payload"
  have le: "length (frag_chunks payload) \<le> 65535" using length_frag_chunks_le [OF assms] .
  have "length c \<le> FRAG_CHUNK_SIZE" if "c \<in> set (frag_chunks payload)" for c
    using that by (auto simp: frag_chunks_def dest: length_chunk_le split: if_splits)
  then have "\<exists>c. parse_fragment (?ds ! i) =
       Some (\<lparr>fh_frag_id = frag_id, fh_index = of_nat i, fh_total = of_nat (length ?ds)\<rparr>, c) \<and>
       length (?ds ! i) \<le> FRAG_HEADER_LEN + FRAG_CHUNK_SIZE" if "i < length ?ds" for i
    using that parse_nth_fragment [OF le, of i frag_id] by (simp add: encode_fragments_eq nth_fragments_of)
  moreover have "map (\<lambda>d. drop FRAG_HEADER_LEN d) ?ds = frag_chunks payload"
    by (rule nth_equalityI) (simp_all add: nth_encode_fragments)
  ultimately show ?thesis by (simp add: concat_frag_chunks)
qed

theorem encode_parse_fragments_witness:
  "concat (map (\<lambda>d. drop FRAG_HEADER_LEN d) (encode_fragments 7 (replicate 3000 1))) = replicate 3000 1"
  using encode_parse_fragments [of "replicate 3000 1" 7] by (simp add: FRAG_CHUNK_SIZE_def Let_def)

text \<open>
  Reassembly is independent of order, duplication and loss: after any sequence of datagrams of
  one message the entry is complete exactly when every datagram arrived, then it yields the
  message, and before that it yields nothing.
\<close>

theorem reassembly_any_order:
  assumes "length payload \<le> 65535 * FRAG_CHUNK_SIZE"
    and "set ds \<subseteq> set (encode_fragments frag_id payload)"
  shows "let e = fold re_receive ds (re_new now (of_nat (length (encode_fragments frag_id payload)))) in
    (re_received e = re_total e \<longleftrightarrow> set ds = set (encode_fragments frag_id payload)) \<and>
    re_assemble e = (if set ds = set (encode_fragments frag_id payload) then Some payload else None)"
  using reassembly_result [OF length_frag_chunks_le [OF assms(1)], of ds frag_id now] assms(2)
  by (auto simp: Let_def encode_fragments_eq concat_frag_chunks)

theorem reassembly_any_order_witness:
  "re_assemble (fold re_receive (rev (encode_fragments 9 (replicate 3000 2)))
     (re_new 0 (of_nat (length (encode_fragments 9 (replicate 3000 2)))))) = Some (replicate 3000 2)"
  using reassembly_any_order [of "replicate 3000 2" "rev (encode_fragments 9 (replicate 3000 2))" 9 0]
  by (simp add: FRAG_CHUNK_SIZE_def Let_def)

end
