(* ===== verification/Crypto.thy ===== *)
theory Crypto
  imports Rust_Str
begin

text \<open>
  \<^verbatim>\<open>src/crypto/signature_verifier.rs\<close>, \<^verbatim>\<open>factory.rs\<close>, \<^verbatim>\<open>dilithium.rs\<close>, \<^verbatim>\<open>ed25519.rs\<close> and \<^verbatim>\<open>rsa.rs\<close>: the algorithm
  registry, the verifier and signer factories, and the length checks and error paths around the
  cryptographic crates. The crates themselves are the record \<open>crypto_lib\<close>; error texts are not
  modelled. A trait object is a value of the datatypes \<open>verifier\<close> and \<open>signer\<close>.
\<close>

datatype verifier_error = UnsupportedAlgorithm | InvalidKeyLength nat | VerificationFailed

type_synonym 'a verifier_result = "verifier_error + 'a"

section \<open>The cryptographic crates\<close>

text \<open>One Dilithium parameter set of \<open>pqcrypto_dilithium\<close>: which byte strings its \<open>from_bytes\<close> accept, verification and signing.\<close>

record dilithium_mod =
  pk_from_bytes :: "bytes \<Rightarrow> bool"
  sig_from_bytes :: "bytes \<Rightarrow> bool"
  sk_from_bytes :: "bytes \<Rightarrow> bool"
  verify_detached_signature :: "bytes \<Rightarrow> bytes \<Rightarrow> bytes \<Rightarrow> bool"
  detached_sign :: "bytes \<Rightarrow> bytes \<Rightarrow> bytes"

typedecl rsa_public_key
typedecl rsa_private_key

record crypto_lib =
  dilithium2 :: dilithium_mod
  dilithium3 :: dilithium_mod
  dilithium5 :: dilithium_mod
  ed_verifying_key_from_bytes :: "bytes \<Rightarrow> bool"
  ed_verify :: "bytes \<Rightarrow> bytes \<Rightarrow> bytes \<Rightarrow> bool"
  ed_sign :: "bytes \<Rightarrow> bytes \<Rightarrow> bytes"
  rsa_from_public_key_der :: "bytes \<Rightarrow> rsa_public_key option"
  rsa_from_public_key_pem :: "rust_str \<Rightarrow> rsa_public_key option"
  rsa_from_pkcs8_der :: "bytes \<Rightarrow> rsa_private_key option"
  rsa_from_pkcs8_pem :: "rust_str \<Rightarrow> rsa_private_key option"
  rsa_signature_try_from :: "bytes \<Rightarrow> bool"
  rsa_verify :: "rsa_public_key \<Rightarrow> bytes \<Rightarrow> bytes \<Rightarrow> bool"
  rsa_sign_with_rng :: "bytes \<Rightarrow> rsa_private_key \<Rightarrow> bytes \<Rightarrow> bytes"

section \<open>signature\_verifier.rs\<close>

definition resolve_alg_and_length :: "rust_str \<Rightarrow> (rust_str \<times> nat) verifier_result" where
  "resolve_alg_and_length algorithm_str =
     (let alg = trim (split_first (of_char (CHR ''-'')) algorithm_str);
          level_str = splitn2_rest (of_char (CHR ''-'')) algorithm_str
      in if alg = str_lit ''RSA'' then Inr (str_lit ''RSA'', 256)
         else if alg = str_lit ''Ed25519'' then Inr (str_lit ''Ed25519'', 64)
         else if alg = str_lit ''Dilithium'' then
           (case Option.bind level_str (\<lambda>s. parse_u8 (trim s)) of
              None \<Rightarrow> Inl UnsupportedAlgorithm
            | Some level \<Rightarrow>
                if level = 2 then Inr (str_lit ''Dilithium'', 2420)
                else if level = 3 then Inr (str_lit ''Dilithium'', 3293)
                else if level = 5 then Inr (str_lit ''Dilithium'', 4595)
                else Inl UnsupportedAlgorithm)
         else Inl UnsupportedAlgorithm)"

definition dilithium_level_from_pubkey_len :: "nat \<Rightarrow> nat option" where
  "dilithium_level_from_pubkey_len len =
     (if len = 1312 then Some 2 else if len = 1952 then Some 3
      else if len = 2592 then Some 5 else None)"

definition dilithium_level_from_privkey_len :: "nat \<Rightarrow> nat option" where
  "dilithium_level_from_privkey_len len =
     (if len = 2560 then Some 2 else if len = 4032 then Some 3
      else if len = 4896 then Some 5 else None)"

section \<open>dilithium.rs\<close>

definition verify_d :: "dilithium_mod \<Rightarrow> bytes \<Rightarrow> bytes \<Rightarrow> bytes \<Rightarrow> bool verifier_result" where
  "verify_d m pk sig msg =
     (if \<not> pk_from_bytes m pk then Inl (InvalidKeyLength (length pk))
      else if \<not> sig_from_bytes m sig then Inl VerificationFailed
      else Inr (verify_detached_signature m sig msg pk))"

definition dilithium_verify ::
  "'x crypto_lib_scheme \<Rightarrow> bytes \<Rightarrow> bytes \<Rightarrow> bytes \<Rightarrow> bool verifier_result" where
  "dilithium_verify lib public_key signature message =
     (case dilithium_level_from_pubkey_len (length public_key) of
        None \<Rightarrow> Inl (InvalidKeyLength (length public_key))
      | Some level \<Rightarrow>
          if level = 2 then verify_d (dilithium2 lib) public_key signature message
          else if level = 3 then verify_d (dilithium3 lib) public_key signature message
          else verify_d (dilithium5 lib) public_key signature message)"

definition sign_d :: "dilithium_mod \<Rightarrow> bytes \<Rightarrow> bytes \<Rightarrow> bytes verifier_result" where
  "sign_d m sk msg =
     (if \<not> sk_from_bytes m sk then Inl (InvalidKeyLength (length sk))
      else Inr (detached_sign m msg sk))"

definition dilithium_sign :: "'x crypto_lib_scheme \<Rightarrow> bytes \<Rightarrow> bytes \<Rightarrow> bytes verifier_result" where
  "dilithium_sign lib private_key message =
     (case dilithium_level_from_privkey_len (length private_key) of
        None \<Rightarrow> Inl (InvalidKeyLength (length private_key))
      | Some level \<Rightarrow>
          if level = 2 then sign_d (dilithium2 lib) private_key message
          else if level = 3 then sign_d (dilithium3 lib) private_key message
          else sign_d (dilithium5 lib) private_key message)"

section \<open>ed25519.rs\<close>

definition ed25519_verify ::
  "'x crypto_lib_scheme \<Rightarrow> bytes \<Rightarrow> bytes \<Rightarrow> bytes \<Rightarrow> bool verifier_result" where
  "ed25519_verify lib public_key signature message =
     (if length public_key \<noteq> 32 then Inl (InvalidKeyLength (length public_key))
      else if length signature \<noteq> 64 then Inl VerificationFailed
      else if \<not> ed_verifying_key_from_bytes lib public_key then Inl VerificationFailed
      else Inr (ed_verify lib public_key message signature))"

definition ed25519_sign :: "'x crypto_lib_scheme \<Rightarrow> bytes \<Rightarrow> bytes \<Rightarrow> bytes verifier_result" where
  "ed25519_sign lib private_key message =
     (if length private_key \<noteq> 32 then Inl (InvalidKeyLength (length private_key))
      else Inr (ed_sign lib private_key message))"

section \<open>rsa.rs\<close>

definition load_public_key :: "'x crypto_lib_scheme \<Rightarrow> bytes \<Rightarrow> rsa_public_key verifier_result" where
  "load_public_key lib key =
     (case rsa_from_public_key_der lib key of
        Some pk \<Rightarrow> Inr pk
      | None \<Rightarrow>
          (case from_utf8 key of
             None \<Rightarrow> Inl VerificationFailed
           | Some pem \<Rightarrow>
               (case rsa_from_public_key_pem lib pem of
                  None \<Rightarrow> Inl VerificationFailed
                | Some pk \<Rightarrow> Inr pk)))"

definition rsa_verify_sig ::
  "'x crypto_lib_scheme \<Rightarrow> bytes \<Rightarrow> bytes \<Rightarrow> bytes \<Rightarrow> bool verifier_result" where
  "rsa_verify_sig lib public_key signature message =
     (case load_public_key lib public_key of
        Inl e \<Rightarrow> Inl e
      | Inr rsa_pub \<Rightarrow>
          if \<not> rsa_signature_try_from lib signature then Inl VerificationFailed
          else Inr (rsa_verify lib rsa_pub message signature))"

definition load_private_key :: "'x crypto_lib_scheme \<Rightarrow> bytes \<Rightarrow> rsa_private_key verifier_result" where
  "load_private_key lib key =
     (case rsa_from_pkcs8_der lib key of
        Some sk \<Rightarrow> Inr sk
      | None \<Rightarrow>
          (case from_utf8 key of
             None \<Rightarrow> Inl VerificationFailed
           | Some pem \<Rightarrow>
               (case rsa_from_pkcs8_pem lib pem of
                  None \<Rightarrow> Inl VerificationFailed
                | Some sk \<Rightarrow> Inr sk)))"

definition rsa_sign :: "'x crypto_lib_scheme \<Rightarrow> bytes \<Rightarrow> bytes \<Rightarrow> bytes \<Rightarrow> bytes verifier_result" where
  "rsa_sign lib rng private_key message =
     (case load_private_key lib private_key of
        Inl e \<Rightarrow> Inl e
      | Inr rsa_priv \<Rightarrow> Inr (rsa_sign_with_rng lib rng rsa_priv message))"

section \<open>factory.rs\<close>

datatype verifier = RSASignatureVerifier | Ed25519SignatureVerifier | DilithiumSignatureVerifier

datatype signer = RSASigner | Ed25519Signer | DilithiumSigner

definition get_verifier :: "rust_str \<Rightarrow> verifier verifier_result" where
  "get_verifier algorithm =
     (let base = trim (split_first (of_char (CHR ''-'')) algorithm)
      in if base = str_lit ''RSA'' then Inr RSASignatureVerifier
         else if base = str_lit ''Ed25519'' then Inr Ed25519SignatureVerifier
         else if base = str_lit ''Dilithium'' then Inr DilithiumSignatureVerifier
         else Inl UnsupportedAlgorithm)"

definition get_signer :: "rust_str \<Rightarrow> signer verifier_result" where
  "get_signer algorithm =
     (let base = trim (split_first (of_char (CHR ''-'')) algorithm)
      in if base = str_lit ''RSA'' then Inr RSASigner
         else if base = str_lit ''Ed25519'' then Inr Ed25519Signer
         else if base = str_lit ''Dilithium'' then Inr DilithiumSigner
         else Inl UnsupportedAlgorithm)"

text \<open>Dynamic dispatch of \<open>SignatureVerifier::verify\<close> and \<open>Signer::sign\<close>.\<close>

fun verify :: "'x crypto_lib_scheme \<Rightarrow> verifier \<Rightarrow> bytes \<Rightarrow> bytes \<Rightarrow> bytes \<Rightarrow> bool verifier_result" where
  "verify lib RSASignatureVerifier pk sig msg = rsa_verify_sig lib pk sig msg"
| "verify lib Ed25519SignatureVerifier pk sig msg = ed25519_verify lib pk sig msg"
| "verify lib DilithiumSignatureVerifier pk sig msg = dilithium_verify lib pk sig msg"

fun sign :: "'x crypto_lib_scheme \<Rightarrow> bytes \<Rightarrow> signer \<Rightarrow> bytes \<Rightarrow> bytes \<Rightarrow> bytes verifier_result" where
  "sign lib rng RSASigner sk msg = rsa_sign lib rng sk msg"
| "sign lib rng Ed25519Signer sk msg = ed25519_sign lib sk msg"
| "sign lib rng DilithiumSigner sk msg = dilithium_sign lib sk msg"

section \<open>Lemmas\<close>

lemma str_lit_neq [simp]:
  "str_lit ''RSA'' \<noteq> str_lit ''Ed25519''" "str_lit ''RSA'' \<noteq> str_lit ''Dilithium''"
  "str_lit ''Ed25519'' \<noteq> str_lit ''RSA''" "str_lit ''Ed25519'' \<noteq> str_lit ''Dilithium''"
  "str_lit ''Dilithium'' \<noteq> str_lit ''RSA''" "str_lit ''Dilithium'' \<noteq> str_lit ''Ed25519''"
  by (simp_all add: str_lit_def)

lemma resolve_alg_and_length_verifier:
  assumes "resolve_alg_and_length a = Inr (base, len)"
  shows "(base = str_lit ''RSA'' \<and> len = 256 \<and> get_verifier a = Inr RSASignatureVerifier \<and> get_signer a = Inr RSASigner) \<or>
    (base = str_lit ''Ed25519'' \<and> len = 64 \<and> get_verifier a = Inr Ed25519SignatureVerifier \<and> get_signer a = Inr Ed25519Signer) \<or>
    (base = str_lit ''Dilithium'' \<and> len \<in> {2420, 3293, 4595} \<and> get_verifier a = Inr DilithiumSignatureVerifier \<and>
     get_signer a = Inr DilithiumSigner)"
  using assms
  by (auto simp: resolve_alg_and_length_def get_verifier_def get_signer_def Let_def
      split: if_splits option.splits)

lemma resolve_error: "resolve_alg_and_length a = Inl e \<Longrightarrow> e = UnsupportedAlgorithm"
  by (auto simp: resolve_alg_and_length_def Let_def split: if_splits option.splits)

lemma get_verifier_error: "get_verifier a = Inl e \<Longrightarrow> resolve_alg_and_length a = Inl UnsupportedAlgorithm"
  by (auto simp: resolve_alg_and_length_def get_verifier_def Let_def split: if_splits)

section \<open>Properties of the registry\<close>

text \<open>
  The record format and the factories agree: whenever \<open>resolve_alg_and_length\<close> knows an
  algorithm string and so the length of its signature, the factories return the verifier and the
  signer of that same algorithm, and an algorithm without a verifier has no signature length.
\<close>

theorem registry_agrees:
  "(case resolve_alg_and_length a of
      Inr (base, len) \<Rightarrow>
        (base, len, get_verifier a, get_signer a) \<in>
          {(str_lit ''RSA'', 256, Inr RSASignatureVerifier, Inr RSASigner),
           (str_lit ''Ed25519'', 64, Inr Ed25519SignatureVerifier, Inr Ed25519Signer)} \<union>
          (\<lambda>l. (str_lit ''Dilithium'', l, Inr DilithiumSignatureVerifier, Inr DilithiumSigner)) `
            {2420, 3293, 4595}
    | Inl e \<Rightarrow> e = UnsupportedAlgorithm) \<and>
   (case get_verifier a of Inl e \<Rightarrow> resolve_alg_and_length a = Inl UnsupportedAlgorithm | Inr v \<Rightarrow> True)"
proof (rule conjI)
  show "case get_verifier a of Inl e \<Rightarrow> resolve_alg_and_length a = Inl UnsupportedAlgorithm | Inr v \<Rightarrow> True"
    using get_verifier_error [of a] by (auto split: sum.split)
  show "case resolve_alg_and_length a of
      Inr (base, len) \<Rightarrow>
        (base, len, get_verifier a, get_signer a) \<in>
          {(str_lit ''RSA'', 256, Inr RSASignatureVerifier, Inr RSASigner),
           (str_lit ''Ed25519'', 64, Inr Ed25519SignatureVerifier, Inr Ed25519Signer)} \<union>
          (\<lambda>l. (str_lit ''Dilithium'', l, Inr DilithiumSignatureVerifier, Inr DilithiumSigner)) `
            {2420, 3293, 4595}
    | Inl e \<Rightarrow> e = UnsupportedAlgorithm"
  proof (cases "resolve_alg_and_length a")
    case (Inl e)
    then show ?thesis using resolve_error [of a e] by simp
  next
    case (Inr r)
    obtain base len where r: "r = (base, len)" by fastforce
    show ?thesis using resolve_alg_and_length_verifier [of a base len] Inr r by auto
  qed
qed

text \<open>
  Signing and verifying through the factories round-trips for Dilithium: with a key pair of
  one parameter set for which the crate's signatures verify, and the registered key lengths, the
  signature produced by the signer is accepted by the verifier.
\<close>

theorem dilithium_sign_verify:
  assumes "(length pk, length sk, m) \<in>
      {(1312, 2560, dilithium2 lib), (1952, 4032, dilithium3 lib), (2592, 4896, dilithium5 lib)}"
    and "pk_from_bytes m pk" and "sk_from_bytes m sk"
    and "\<forall>msg. sig_from_bytes m (detached_sign m msg sk)"
    and "\<forall>msg. verify_detached_signature m (detached_sign m msg sk) msg pk"
  shows "\<exists>sig. sign lib rng DilithiumSigner sk msg = Inr sig \<and>
    verify lib DilithiumSignatureVerifier pk sig msg = Inr True"
proof -
  have sign: "sign_d m sk msg = Inr (detached_sign m msg sk)"
    using assms(3) by (simp add: sign_d_def)
  have verify: "verify_d m pk (detached_sign m msg sk) msg = Inr True"
    using assms(2,4,5) by (simp add: verify_d_def)
  from assms(1) consider
      "length pk = 1312" "length sk = 2560" "m = dilithium2 lib"
    | "length pk = 1952" "length sk = 4032" "m = dilithium3 lib"
    | "length pk = 2592" "length sk = 4896" "m = dilithium5 lib" by auto
  then show ?thesis
    using sign verify
    by cases (simp_all add: dilithium_sign_def dilithium_verify_def
        dilithium_level_from_pubkey_len_def dilithium_level_from_privkey_len_def)
qed

text \<open>A stand-in for the crates in which a signature is the message itself: enough to evaluate the model.\<close>

definition echo_mod :: dilithium_mod where
  "echo_mod = \<lparr>pk_from_bytes = (\<lambda>_. True), sig_from_bytes = (\<lambda>_. True), sk_from_bytes = (\<lambda>_. True),
     verify_detached_signature = (\<lambda>sig msg pk. sig = msg), detached_sign = (\<lambda>msg sk. msg)\<rparr>"

definition echo_lib :: crypto_lib where
  "echo_lib = \<lparr>dilithium2 = echo_mod, dilithium3 = echo_mod, dilithium5 = echo_mod,
     ed_verifying_key_from_bytes = (\<lambda>_. True), ed_verify = (\<lambda>pk msg sig. True), ed_sign = (\<lambda>sk msg. replicate 64 0),
     rsa_from_public_key_der = (\<lambda>_. None), rsa_from_public_key_pem = (\<lambda>_. None),
     rsa_from_pkcs8_der = (\<lambda>_. None), rsa_from_pkcs8_pem = (\<lambda>_. None),
     rsa_signature_try_from = (\<lambda>_. False), rsa_verify = (\<lambda>_ _ _. False), rsa_sign_with_rng = (\<lambda>_ _ _. [])\<rparr>"

theorem dilithium_sign_verify_witness:
  "\<exists>sig. sign echo_lib [] DilithiumSigner (replicate 2560 1) [1, 2] = Inr sig \<and>
     verify echo_lib DilithiumSignatureVerifier (replicate 1312 1) sig [1, 2] = Inr True"
  by (rule dilithium_sign_verify [where m = echo_mod]) (simp_all add: echo_lib_def echo_mod_def)

end
