(* ===== verification/Json_Value.thy ===== *)
theory Json_Value
  imports Rust_Str "HOL-Library.List_Lexorder"
begin

text \<open>
  JSON documents as \<open>serde_json::Value\<close> represents them, and ordered maps. An object is the list of
  its entries in iteration order. Collecting pairs into a \<open>BTreeMap\<close> orders them by key, the last
  of several entries with the same key winning; strings are compared lexicographically.
\<close>

section \<open>Ordered maps\<close>

fun btree_insert :: "'k::linorder \<Rightarrow> 'v \<Rightarrow> ('k \<times> 'v) list \<Rightarrow> ('k \<times> 'v) list" where
  "btree_insert k v [] = [(k, v)]"
| "btree_insert k v ((k', v') # m) =
     (if k < k' then (k, v) # (k', v') # m
      else if k = k' then (k, v) # m
      else (k', v') # btree_insert k v m)"

definition btree_collect :: "('k::linorder \<times> 'v) list \<Rightarrow> ('k \<times> 'v) list" where
  "btree_collect xs = fold (\<lambda>(k, v). btree_insert k v) xs []"

abbreviation ordered :: "('k::linorder \<times> 'v) list \<Rightarrow> bool" where
  "ordered m \<equiv> sorted (map fst m) \<and> distinct (map fst m)"

lemma btree_insert_keys [simp]: "fst ` set (btree_insert k v m) = insert k (fst ` set m)"
  by (induction k v m rule: btree_insert.induct) auto

lemma btree_insert_set: "set (btree_insert k v m) \<subseteq> insert (k, v) (set m)"
  by (induction k v m rule: btree_insert.induct) auto

lemma btree_insert_ordered: "ordered m \<Longrightarrow> ordered (btree_insert k v m)"
proof (induction k v m rule: btree_insert.induct)
  case (2 k v k' v' m)
  then show ?case
    using btree_insert_keys [of k v m] by (auto simp: image_iff simp flip: set_map)
qed simp

lemma map_of_btree_insert: "ordered m \<Longrightarrow> map_of (btree_insert k v m) = (map_of m)(k \<mapsto> v)"
  by (induction k v m rule: btree_insert.induct) (auto simp: fun_eq_iff dest: map_of_SomeD)

lemma btree_fold:
  "ordered m \<Longrightarrow> ordered (fold (\<lambda>(k, v). btree_insert k v) xs m) \<and>
     map_of (fold (\<lambda>(k, v). btree_insert k v) xs m) = map_of m ++ map_of (rev xs)"
proof (induction xs arbitrary: m)
  case (Cons x xs)
  then show ?case
    using btree_insert_ordered [of m "fst x" "snd x"] map_of_btree_insert [of m "fst x" "snd x"]
    by (cases x) (simp add: map_add_def fun_eq_iff split: option.split)
qed simp

lemma btree_collect_ordered [simp]: "sorted (map fst (btree_collect xs))" "distinct (map fst (btree_collect xs))"
  using btree_fold [of "[]" xs] by (simp_all add: btree_collect_def)

lemma map_of_btree_collect: "map_of (btree_collect xs) = map_of (rev xs)"
  using btree_fold [of "[]" xs] by (simp add: btree_collect_def)

lemma map_of_rev_distinct: "distinct (map fst xs) \<Longrightarrow> map_of (rev xs) = map_of xs"
  by (rule map_of_eqI) (auto simp: rev_map [symmetric] map_of_eq_Some_iff)

lemma ordered_set_unique:
  assumes "ordered xs" and "ordered ys" and "set xs = set ys"
  shows "xs = ys"
proof -
  have "inj_on fst (set xs \<union> set ys)" using assms by (simp add: distinct_map)
  then show ?thesis using assms by (intro map_sorted_distinct_set_unique) auto
qed

lemma ordered_unique: "ordered xs \<Longrightarrow> ordered ys \<Longrightarrow> map_of xs = map_of ys \<Longrightarrow> xs = ys"
  using map_of_inject_set [of xs ys] ordered_set_unique [of xs ys] by simp

lemma btree_collect_set: "distinct (map fst xs) \<Longrightarrow> set (btree_collect xs) = set xs"
  using map_of_inject_set [of "btree_collect xs" xs] by (simp add: map_of_btree_collect map_of_rev_distinct)

lemma btree_collect_subset: "set (btree_collect xs) \<subseteq> set xs"
proof -
  have "set (fold (\<lambda>(k, v). btree_insert k v) xs m) \<subseteq> set m \<union> set xs" for m
    by (induction xs arbitrary: m) (use btree_insert_set in fastforce)+
  from this [of "[]"] show ?thesis by (simp add: btree_collect_def)
qed

lemma btree_collect_id: "ordered xs \<Longrightarrow> btree_collect xs = xs"
  by (rule ordered_unique) (simp_all add: map_of_btree_collect map_of_rev_distinct)

lemma btree_collect_cong:
  "distinct (map fst xs) \<Longrightarrow> distinct (map fst ys) \<Longrightarrow> set xs = set ys \<Longrightarrow> btree_collect xs = btree_collect ys"
  by (rule ordered_unique)
    (simp_all add: map_of_btree_collect map_of_rev_distinct map_of_inject_set)

section \<open>Values\<close>

typedecl json_number

datatype json_value =
    Null | Bool bool | Number json_number | String rust_str | Array "json_value list"
  | Object "(rust_str \<times> json_value) list"

text \<open>An object literal of the \<open>json!\<close> macro.\<close>

definition json_object :: "(rust_str \<times> json_value) list \<Rightarrow> json_value" where
  "json_object kvs = Object (btree_collect kvs)"

text \<open>Every object in a value has each key once; in a canonical one the keys also ascend.\<close>

fun keys_distinct :: "json_value \<Rightarrow> bool" where
  "keys_distinct (Object m) \<longleftrightarrow> distinct (map fst m) \<and> (\<forall>kv \<in> set m. keys_distinct (snd kv))"
| "keys_distinct (Array vs) \<longleftrightarrow> (\<forall>v \<in> set vs. keys_distinct v)"
| "keys_distinct _ \<longleftrightarrow> True"

fun canonical :: "json_value \<Rightarrow> bool" where
  "canonical (Object m) \<longleftrightarrow> ordered m \<and> (\<forall>kv \<in> set m. canonical (snd kv))"
| "canonical (Array vs) \<longleftrightarrow> (\<forall>v \<in> set vs. canonical v)"
| "canonical _ \<longleftrightarrow> True"

lemma canonical_keys: "canonical v \<Longrightarrow> keys_distinct v"
  by (induction v rule: canonical.induct) auto

text \<open>The same document up to the order of the entries of its objects.\<close>

function json_equiv :: "json_value \<Rightarrow> json_value \<Rightarrow> bool" where
  "json_equiv v w =
     (case (v, w) of
        (Object m, Object n) \<Rightarrow>
          fst ` set m = fst ` set n \<and>
          (\<forall>kv \<in> set m. \<forall>kw \<in> set n. fst kv = fst kw \<longrightarrow> json_equiv (snd kv) (snd kw))
      | (Array xs, Array ys) \<Rightarrow> list_all2 json_equiv xs ys
      | _ \<Rightarrow> v = w)"
  by pat_completeness auto

lemma size_json_members [termination_simp]:
  "v \<in> set vs \<Longrightarrow> size v < Suc (size_list size vs)"
  "kv \<in> set m \<Longrightarrow> size (snd kv) < Suc (size_list (size_prod (\<lambda>x. 0) size) m)"
  by (auto simp: less_Suc_eq_le size_prod_simp intro!: size_list_estimation')

termination json_equiv
  by (relation "measure (size \<circ> fst)") (auto simp: termination_simp)

declare json_equiv.simps [simp del]

end
