(* ===== verification/Auth_Handler.thy ===== *)
theory Auth_Handler
  imports Crypto Json_Value
begin

text \<open>
  \<^verbatim>\<open>src/auth_handler.rs\<close>: the record format, the four verification handlers of
  \<open>DIDSignatureVerifierHandler\<close> and the handler interface as a locale. JSON and base64 are fields
  of \<open>auth_lib\<close>; the content of the issuer key file, read at every call, is an argument. Also
  the part of \<open>build_signed_record\<close> of \<^verbatim>\<open>scripts/dht_node.rs\<close> that signs a serialised document.
\<close>

datatype auth_error =
    CryptoError verifier_error | Json | Base64 | Io | MissingField | Utf8 | InvalidFormat

type_synonym 'a auth_result = "auth_error + 'a"

record auth_lib = crypto_lib +
  json_from_slice :: "bytes \<Rightarrow> json_value option"
  json_index_str :: "json_value \<Rightarrow> rust_str \<Rightarrow> json_value"
  json_index_usize :: "json_value \<Rightarrow> nat \<Rightarrow> json_value"
  json_as_str :: "json_value \<Rightarrow> rust_str option"
  b64_decode :: "rust_str \<Rightarrow> bytes option"

text \<open>\<open>?\<close> on a verifier error converts it with \<open>From\<close>.\<close>

definition crypto_err :: "'a verifier_result \<Rightarrow> 'a auth_result" where
  "crypto_err r = (case r of Inl e \<Rightarrow> Inl (CryptoError e) | Inr a \<Rightarrow> Inr a)"

definition ok_or :: "'e \<Rightarrow> 'a option \<Rightarrow> 'e + 'a" where
  "ok_or e x = (case x of None \<Rightarrow> Inl e | Some a \<Rightarrow> Inr a)"

section \<open>The record format\<close>

definition get_alg_string :: "bytes \<Rightarrow> rust_str auth_result" where
  "get_alg_string value =
     (if length value < 12 then Inl InvalidFormat
      else
        let raw = take 12 value;
            fin = (case position (\<lambda>b. b = 0) raw of Some i \<Rightarrow> i | None \<Rightarrow> length raw)
        in ok_or Utf8 (from_utf8 (take fin raw)))"

definition extract_sig_and_data :: "bytes \<Rightarrow> nat \<Rightarrow> (bytes \<times> bytes) auth_result" where
  "extract_sig_and_data value sig_length =
     (let data_start = 12 + sig_length
      in if length value < data_start then Inl InvalidFormat
         else Inr (take sig_length (drop 12 value), drop data_start value))"

definition decode_b64url :: "'x auth_lib_scheme \<Rightarrow> rust_str \<Rightarrow> bytes auth_result" where
  "decode_b64url lib key =
     ok_or Base64 (b64_decode lib (trim_end_matches (\<lambda>c. c = of_char (CHR ''='')) key))"

definition public_key_from_did_doc :: "'x auth_lib_scheme \<Rightarrow> bytes \<Rightarrow> bytes auth_result" where
  "public_key_from_did_doc lib data =
     and_then (ok_or Json (json_from_slice lib data)) (\<lambda>doc.
     and_then
       (ok_or MissingField
         (json_as_str lib
           (json_index_str lib
             (json_index_str lib
               (json_index_usize lib (json_index_str lib doc (str_lit ''verificationMethod'')) 0)
               (str_lit ''publicKeyJwk''))
             (str_lit ''x'')))) (\<lambda>x.
     decode_b64url lib x))"

section \<open>DIDSignatureVerifierHandler\<close>

definition verify_self_signed :: "'x auth_lib_scheme \<Rightarrow> bytes \<Rightarrow> bool auth_result" where
  "verify_self_signed lib value =
     and_then (get_alg_string value) (\<lambda>alg.
     and_then (crypto_err (resolve_alg_and_length alg)) (\<lambda>(_, sig_len).
     and_then (extract_sig_and_data value sig_len) (\<lambda>(signature, data).
     and_then (public_key_from_did_doc lib data) (\<lambda>pub_key.
     and_then (crypto_err (get_verifier alg)) (\<lambda>verifier.
     crypto_err (verify lib verifier pub_key signature data))))))"

definition verify_key_rotation ::
  "'x auth_lib_scheme \<Rightarrow> bytes \<Rightarrow> bytes \<Rightarrow> bytes \<Rightarrow> bool auth_result" where
  "verify_key_rotation lib new_value old_value auth_signature =
     and_then (get_alg_string old_value) (\<lambda>old_alg.
     and_then (crypto_err (resolve_alg_and_length old_alg)) (\<lambda>(_, old_sig_len).
     and_then (extract_sig_and_data old_value old_sig_len) (\<lambda>(_, old_data).
     and_then (public_key_from_did_doc lib old_data) (\<lambda>old_pub_key.
     and_then (crypto_err (get_verifier old_alg)) (\<lambda>verifier.
     and_then (crypto_err (verify lib verifier old_pub_key auth_signature new_value)) (\<lambda>ok.
     if \<not> ok then Inr False else verify_self_signed lib new_value))))))"

definition handle_signature_verification :: "'x auth_lib_scheme \<Rightarrow> bytes \<Rightarrow> bool auth_result" where
  "handle_signature_verification lib value = verify_self_signed lib value"

definition handle_update_verification ::
  "'x auth_lib_scheme \<Rightarrow> bytes \<Rightarrow> bytes \<Rightarrow> bytes \<Rightarrow> bool auth_result" where
  "handle_update_verification lib value old_value auth_signature =
     verify_key_rotation lib value old_value auth_signature"

definition handle_signature_delete_operation ::
  "'x auth_lib_scheme \<Rightarrow> bytes \<Rightarrow> bytes \<Rightarrow> bytes \<Rightarrow> bool auth_result" where
  "handle_signature_delete_operation lib value auth_signature delete_msg =
     and_then (get_alg_string value) (\<lambda>alg.
     and_then (crypto_err (resolve_alg_and_length alg)) (\<lambda>(_, sig_len).
     and_then (extract_sig_and_data value sig_len) (\<lambda>(_, data).
     and_then (public_key_from_did_doc lib data) (\<lambda>pub_key.
     and_then (crypto_err (get_verifier alg)) (\<lambda>verifier.
     crypto_err (verify lib verifier pub_key auth_signature delete_msg))))))"

text \<open>\<open>issuer_file\<close> is what reading the issuer key file yields at the time of the call.\<close>

definition load_issuer_pub_key :: "bytes option \<Rightarrow> bytes auth_result" where
  "load_issuer_pub_key issuer_file = ok_or Io issuer_file"

definition handle_issuer_node_signature_verification ::
  "'x auth_lib_scheme \<Rightarrow> bytes option \<Rightarrow> bytes \<Rightarrow> bool auth_result" where
  "handle_issuer_node_signature_verification lib issuer_file value =
     and_then (get_alg_string value) (\<lambda>alg.
     and_then (crypto_err (resolve_alg_and_length alg)) (\<lambda>(_, sig_len).
     and_then (extract_sig_and_data value sig_len) (\<lambda>(signature, data).
     and_then (load_issuer_pub_key issuer_file) (\<lambda>issuer_pub_key.
     and_then (crypto_err (get_verifier alg)) (\<lambda>verifier.
     crypto_err (verify lib verifier issuer_pub_key signature data))))))"

text \<open>A \<open>dyn SignatureVerifierHandler\<close>.\<close>

record sig_handler =
  sh_signature :: "bytes \<Rightarrow> bool auth_result"
  sh_update :: "bytes \<Rightarrow> bytes \<Rightarrow> bytes \<Rightarrow> bool auth_result"
  sh_delete :: "bytes \<Rightarrow> bytes \<Rightarrow> bytes \<Rightarrow> bool auth_result"
  sh_issuer :: "bytes \<Rightarrow> bool auth_result"

definition did_handler :: "'x auth_lib_scheme \<Rightarrow> bytes option \<Rightarrow> sig_handler" where
  "did_handler lib issuer_file =
     \<lparr>sh_signature = handle_signature_verification lib,
      sh_update = handle_update_verification lib,
      sh_delete = handle_signature_delete_operation lib,
      sh_issuer = handle_issuer_node_signature_verification lib issuer_file\<rparr>"

section \<open>Building records\<close>

definition alg_field :: "rust_str \<Rightarrow> bytes" where
  "alg_field algorithm =
     (let copy_len = min (length (as_bytes algorithm)) 12
      in take copy_len (as_bytes algorithm) @ replicate (12 - copy_len) 0)"

definition assemble_record :: "'x crypto_lib_scheme \<Rightarrow> bytes \<Rightarrow> bytes \<Rightarrow> rust_str \<Rightarrow> bytes" where
  "assemble_record lib doc_bytes secret_key algorithm =
     alg_field algorithm @ detached_sign (dilithium2 lib) doc_bytes secret_key @ doc_bytes"

section \<open>What acceptance means\<close>

lemma crypto_err_Inr [simp]: "crypto_err r = Inr a \<longleftrightarrow> r = Inr a"
  by (cases r) (simp_all add: crypto_err_def)

lemma ok_or_Inr [simp]: "ok_or e x = Inr a \<longleftrightarrow> x = Some a"
  by (cases x) (simp_all add: ok_or_def)

lemma extract_sig_and_data_Inr:
  "extract_sig_and_data value n = Inr (sig, data) \<longleftrightarrow>
     (\<exists>field. length field = 12 \<and> length sig = n \<and> value = field @ sig @ data)"
proof
  assume "extract_sig_and_data value n = Inr (sig, data)"
  then have len: "12 + n \<le> length value" and sd: "sig = take n (drop 12 value)" "data = drop (12 + n) value"
    by (auto simp: extract_sig_and_data_def Let_def split: if_splits)
  have "take 12 value @ sig @ data = take 12 value @ take n (drop 12 value) @ drop n (drop 12 value)"
    by (simp only: sd drop_drop add.commute)
  then have "value = take 12 value @ sig @ data" by (simp only: append_take_drop_id)
  moreover have "length (take 12 value) = 12" "length sig = n" using len sd by simp_all
  ultimately show "\<exists>field. length field = 12 \<and> length sig = n \<and> value = field @ sig @ data" by blast
next
  assume "\<exists>field. length field = 12 \<and> length sig = n \<and> value = field @ sig @ data"
  then show "extract_sig_and_data value n = Inr (sig, data)" by (auto simp: extract_sig_and_data_def)
qed

text \<open>
  The parts of a record that the handlers use: the verifier its algorithm field names, its
  signature and its data.
\<close>

definition record_parts :: "bytes \<Rightarrow> verifier \<Rightarrow> bytes \<Rightarrow> bytes \<Rightarrow> bool" where
  "record_parts value v signature data \<longleftrightarrow>
     (\<exists>alg base field. get_alg_string value = Inr alg \<and>
        resolve_alg_and_length alg = Inr (base, length signature) \<and> get_verifier alg = Inr v \<and>
        length field = 12 \<and> value = field @ signature @ data)"

lemma record_partsI:
  assumes "get_alg_string value = Inr alg" and "resolve_alg_and_length alg = Inr (base, n)"
    and "extract_sig_and_data value n = Inr (sig, data)" and "get_verifier alg = Inr v"
  shows "record_parts value v sig data"
  using assms by (auto simp: record_parts_def extract_sig_and_data_Inr)

lemma record_partsE:
  assumes "record_parts value v sig data"
  obtains alg base where "get_alg_string value = Inr alg"
    "resolve_alg_and_length alg = Inr (base, length sig)" "get_verifier alg = Inr v"
    "extract_sig_and_data value (length sig) = Inr (sig, data)"
  using assms by (auto simp: record_parts_def extract_sig_and_data_Inr)

lemma record_parts_unique:
  assumes "record_parts value v sig data" and "record_parts value v' sig' data'"
  shows "v = v' \<and> sig = sig' \<and> data = data'"
  using assms by (elim record_partsE) simp

lemma verify_self_signed_iff:
  "verify_self_signed lib value = Inr b \<longleftrightarrow>
     (\<exists>v sig data pk. record_parts value v sig data \<and> public_key_from_did_doc lib data = Inr pk \<and>
        verify lib v pk sig data = Inr b)"
proof
  assume "verify_self_signed lib value = Inr b"
  then show "\<exists>v sig data pk. record_parts value v sig data \<and> public_key_from_did_doc lib data = Inr pk \<and>
      verify lib v pk sig data = Inr b"
    by (auto simp: verify_self_signed_def and_then_eq_Inr) (blast intro: record_partsI)
next
  assume "\<exists>v sig data pk. record_parts value v sig data \<and> public_key_from_did_doc lib data = Inr pk \<and>
      verify lib v pk sig data = Inr b"
  then show "verify_self_signed lib value = Inr b"
    by (auto simp: verify_self_signed_def crypto_err_def elim!: record_partsE)
qed

lemma delete_operation_iff:
  "handle_signature_delete_operation lib value auth msg = Inr b \<longleftrightarrow>
     (\<exists>v sig data pk. record_parts value v sig data \<and> public_key_from_did_doc lib data = Inr pk \<and>
        verify lib v pk auth msg = Inr b)"
proof
  assume "handle_signature_delete_operation lib value auth msg = Inr b"
  then show "\<exists>v sig data pk. record_parts value v sig data \<and> public_key_from_did_doc lib data = Inr pk \<and>
      verify lib v pk auth msg = Inr b"
    by (auto simp: handle_signature_delete_operation_def and_then_eq_Inr) (blast intro: record_partsI)
next
  assume "\<exists>v sig data pk. record_parts value v sig data \<and> public_key_from_did_doc lib data = Inr pk \<and>
      verify lib v pk auth msg = Inr b"
  then show "handle_signature_delete_operation lib value auth msg = Inr b"
    by (auto simp: handle_signature_delete_operation_def crypto_err_def elim!: record_partsE)
qed

lemma issuer_verification_iff:
  "handle_issuer_node_signature_verification lib issuer_file value = Inr b \<longleftrightarrow>
     (\<exists>v sig data pk. record_parts value v sig data \<and> issuer_file = Some pk \<and>
        verify lib v pk sig data = Inr b)"
proof
  assume "handle_issuer_node_signature_verification lib issuer_file value = Inr b"
  then show "\<exists>v sig data pk. record_parts value v sig data \<and> issuer_file = Some pk \<and>
      verify lib v pk sig data = Inr b"
    by (auto simp: handle_issuer_node_signature_verification_def load_issuer_pub_key_def and_then_eq_Inr)
      (blast intro: record_partsI)
next
  assume "\<exists>v sig data pk. record_parts value v sig data \<and> issuer_file = Some pk \<and>
      verify lib v pk sig data = Inr b"
  then show "handle_issuer_node_signature_verification lib issuer_file value = Inr b"
    by (auto simp: handle_issuer_node_signature_verification_def load_issuer_pub_key_def crypto_err_def
        ok_or_def elim!: record_partsE)
qed

lemma key_rotation_iff:
  "verify_key_rotation lib new_value old_value auth = Inr True \<longleftrightarrow>
     (\<exists>v sig data pk. record_parts old_value v sig data \<and> public_key_from_did_doc lib data = Inr pk \<and>
        verify lib v pk auth new_value = Inr True) \<and> verify_self_signed lib new_value = Inr True"
proof
  assume "verify_key_rotation lib new_value old_value auth = Inr True"
  then show "(\<exists>v sig data pk. record_parts old_value v sig data \<and> public_key_from_did_doc lib data = Inr pk \<and>
        verify lib v pk auth new_value = Inr True) \<and> verify_self_signed lib new_value = Inr True"
    by (auto simp: verify_key_rotation_def and_then_eq_Inr split: if_splits) (blast intro: record_partsI)
next
  assume "(\<exists>v sig data pk. record_parts old_value v sig data \<and> public_key_from_did_doc lib data = Inr pk \<and>
        verify lib v pk auth new_value = Inr True) \<and> verify_self_signed lib new_value = Inr True"
  then show "verify_key_rotation lib new_value old_value auth = Inr True"
    by (auto simp: verify_key_rotation_def crypto_err_def elim!: record_partsE)
qed

section \<open>The handler interface\<close>

text \<open>
  What the protocol and the server rely on: a record accepted as an update of another is itself
  accepted as a record.
\<close>

locale auth_contract =
  fixes h :: sig_handler
  assumes update_self_signed: "sh_update h v old auth = Inr True \<Longrightarrow> sh_signature h v = Inr True"
begin

text \<open>The records a store may hold: accepted as self-signed or as issued by the issuer.\<close>

definition authentic :: "bytes \<Rightarrow> bool" where
  "authentic v \<longleftrightarrow> sh_signature h v = Inr True \<or> sh_issuer h v = Inr True"

lemma authentic_update: "unwrap_or_false (sh_update h v old auth) \<Longrightarrow> authentic v"
  by (auto simp: authentic_def dest: update_self_signed)

lemma authentic_issuer: "unwrap_or_false (sh_issuer h v) \<Longrightarrow> authentic v"
  by (simp add: authentic_def)

lemma authentic_self: "unwrap_or_false (sh_signature h v) \<Longrightarrow> authentic v"
  by (simp add: authentic_def)

end

interpretation did: auth_contract "did_handler lib issuer_file" for lib issuer_file
  by unfold_locales
    (simp add: did_handler_def handle_update_verification_def handle_signature_verification_def key_rotation_iff)

lemma did_handler_sel [simp]:
  "sh_signature (did_handler lib f) = handle_signature_verification lib"
  "sh_update (did_handler lib f) = handle_update_verification lib"
  "sh_delete (did_handler lib f) = handle_signature_delete_operation lib"
  "sh_issuer (did_handler lib f) = handle_issuer_node_signature_verification lib f"
  by (simp_all add: did_handler_def)

section \<open>Records that are built are accepted\<close>

lemma alg_field_dilithium2:
  "alg_field (str_lit ''Dilithium-2'') = [68, 105, 108, 105, 116, 104, 105, 117, 109, 45, 50, 0]"
  by (simp add: alg_field_def str_lit_def utf8_encode_char_def of_char_def Let_def)

lemma get_alg_string_dilithium2:
  "get_alg_string (alg_field (str_lit ''Dilithium-2'') @ rest) = Inr (str_lit ''Dilithium-2'')"
  unfolding alg_field_dilithium2
  by (simp add: get_alg_string_def str_lit_def of_char_def from_utf8_ascii ok_or_def Let_def)

lemma dilithium2_registered:
  "resolve_alg_and_length (str_lit ''Dilithium-2'') = Inr (str_lit ''Dilithium'', 2420)"
  "get_verifier (str_lit ''Dilithium-2'') = Inr DilithiumSignatureVerifier"
  by (simp_all add: resolve_alg_and_length_def get_verifier_def str_lit_def of_char_def split_first_def
      splitn2_rest_def trim_def trim_end_matches_def is_whitespace_def parse_u8_def is_digit_def Let_def)

lemma assemble_record_parts:
  assumes "length (detached_sign (dilithium2 lib) doc sk) = 2420"
  shows "record_parts (assemble_record lib doc sk (str_lit ''Dilithium-2'')) DilithiumSignatureVerifier
    (detached_sign (dilithium2 lib) doc sk) doc"
proof (rule record_partsI)
  show "get_alg_string (assemble_record lib doc sk (str_lit ''Dilithium-2'')) = Inr (str_lit ''Dilithium-2'')"
    unfolding assemble_record_def by (rule get_alg_string_dilithium2)
  show "extract_sig_and_data (assemble_record lib doc sk (str_lit ''Dilithium-2'')) 2420 =
      Inr (detached_sign (dilithium2 lib) doc sk, doc)"
    using assms by (simp add: assemble_record_def extract_sig_and_data_def alg_field_dilithium2)
qed (rule dilithium2_registered)+

section \<open>Properties of the handlers\<close>

text \<open>
  A record built by \<open>assemble_record\<close> with a Dilithium-2 key whose public half is in the
  DID document is accepted by the handler, given that the crate's signature has 2420 bytes and
  verifies under that key.
\<close>

theorem built_record_accepted:
  assumes "public_key_from_did_doc lib doc = Inr pk" and "length pk = 1312"
    and "pk_from_bytes (dilithium2 lib) pk"
    and "sig_from_bytes (dilithium2 lib) (detached_sign (dilithium2 lib) doc sk)"
    and "length (detached_sign (dilithium2 lib) doc sk) = 2420"
    and "verify_detached_signature (dilithium2 lib) (detached_sign (dilithium2 lib) doc sk) doc pk"
  shows "handle_signature_verification lib (assemble_record lib doc sk (str_lit ''Dilithium-2'')) = Inr True"
proof -
  have "verify lib DilithiumSignatureVerifier pk (detached_sign (dilithium2 lib) doc sk) doc = Inr True"
    using assms by (simp add: dilithium_verify_def dilithium_level_from_pubkey_len_def verify_d_def)
  then show ?thesis
    unfolding handle_signature_verification_def verify_self_signed_iff
    using assemble_record_parts [OF assms(5)] assms(1) by blast
qed

definition echo_auth_lib :: auth_lib where
  "echo_auth_lib = \<lparr>dilithium2 = echo_mod, dilithium3 = echo_mod, dilithium5 = echo_mod,
     ed_verifying_key_from_bytes = (\<lambda>_. True), ed_verify = (\<lambda>pk msg sig. True), ed_sign = (\<lambda>sk msg. replicate 64 0),
     rsa_from_public_key_der = (\<lambda>_. None), rsa_from_public_key_pem = (\<lambda>_. None),
     rsa_from_pkcs8_der = (\<lambda>_. None), rsa_from_pkcs8_pem = (\<lambda>_. None),
     rsa_signature_try_from = (\<lambda>_. False), rsa_verify = (\<lambda>_ _ _. False), rsa_sign_with_rng = (\<lambda>_ _ _. []),
     json_from_slice = (\<lambda>_. Some Null), json_index_str = (\<lambda>v _. v), json_index_usize = (\<lambda>v _. v),
     json_as_str = (\<lambda>_. Some []), b64_decode = (\<lambda>_. Some (replicate 1312 1))\<rparr>"

lemma echo_auth_lib_simps [simp]:
  "dilithium2 echo_auth_lib = echo_mod"
  "public_key_from_did_doc echo_auth_lib data = Inr (replicate 1312 1)"
  by (simp_all add: echo_auth_lib_def public_key_from_did_doc_def decode_b64url_def ok_or_def)

theorem built_record_accepted_witness:
  "handle_signature_verification echo_auth_lib
     (assemble_record echo_auth_lib (replicate 2420 7) [] (str_lit ''Dilithium-2'')) = Inr True"
  by (rule built_record_accepted [where pk = "replicate 1312 1"]) (simp_all add: echo_mod_def)


text \<open>
  C38. Deletion is not tied to a deletion request: for every accepted self-signed record, the
  signature and the data that the record itself carries authorise deleting it.
\<close>

theorem delete_authorised_by_record:
  assumes "handle_signature_verification lib value = Inr True"
  shows "\<exists>field sig data. value = field @ sig @ data \<and> length field = 12 \<and>
    handle_signature_delete_operation lib value sig data = Inr True"
proof -
  obtain v sig data pk where p: "record_parts value v sig data" "public_key_from_did_doc lib data = Inr pk"
    "verify lib v pk sig data = Inr True"
    using assms by (auto simp: handle_signature_verification_def verify_self_signed_iff)
  then have "handle_signature_delete_operation lib value sig data = Inr True"
    by (auto simp: delete_operation_iff)
  moreover obtain field where "length field = 12" "value = field @ sig @ data"
    using p(1) by (auto simp: record_parts_def)
  ultimately show ?thesis by blast
qed

theorem delete_authorised_by_record_witness:
  "\<exists>field sig data. assemble_record echo_auth_lib (replicate 2420 7) [] (str_lit ''Dilithium-2'') = field @ sig @ data \<and>
     length field = 12 \<and> handle_signature_delete_operation echo_auth_lib
       (assemble_record echo_auth_lib (replicate 2420 7) [] (str_lit ''Dilithium-2'')) sig data = Inr True"
proof -
  let ?r = "assemble_record echo_auth_lib (replicate 2420 7) [] (str_lit ''Dilithium-2'')"
  have "record_parts ?r DilithiumSignatureVerifier (replicate 2420 7) (replicate 2420 7)"
    using assemble_record_parts [of echo_auth_lib "replicate 2420 7" "[]"] by (simp add: echo_mod_def)
  moreover have "verify echo_auth_lib DilithiumSignatureVerifier (replicate 1312 1) (replicate 2420 7) (replicate 2420 7) = Inr True"
    by (simp add: dilithium_verify_def dilithium_level_from_pubkey_len_def verify_d_def echo_mod_def)
  ultimately have "handle_signature_verification echo_auth_lib ?r = Inr True"
    unfolding handle_signature_verification_def verify_self_signed_iff by fastforce
  then show ?thesis by (rule delete_authorised_by_record)
qed

end
