(* ===== verification/Crawling.thy ===== *)
theory Crawling
  imports Node
begin

text \<open>
  \<^verbatim>\<open>src/crawling.rs\<close>: the iterative lookups. The protocol is its state \<open>'p\<close> and the functions
  \<open>rpc\<close> and \<open>store\<close> that its trait methods are; concurrent calls of one round run in list order,
  with any answer and any effect. The answers of a round are collected in a \<open>HashMap\<close>, whose
  iteration order is the argument \<open>order\<close>. A lookup loops until its frontier is exhausted, so it
  is a partial function, and it is proved to return.
\<close>

section \<open>Responses\<close>

datatype find_payload =
    Nodes "(bytes \<times> rust_str option \<times> u16 option) list"
  | Value bytes
  | Empty

type_synonym raw_response = "bool \<times> find_payload"

definition happened :: "raw_response \<Rightarrow> bool" where
  "happened r = fst r"

definition has_value :: "raw_response \<Rightarrow> bool" where
  "has_value r = (case snd r of Value _ \<Rightarrow> True | _ \<Rightarrow> False)"

definition get_value :: "raw_response \<Rightarrow> bytes option" where
  "get_value r = (case snd r of Value v \<Rightarrow> Some v | _ \<Rightarrow> None)"

definition get_node_list :: "raw_response \<Rightarrow> node list" where
  "get_node_list r =
     (case snd r of
        Nodes tuples \<Rightarrow>
          List.map_filter (\<lambda>(id_bytes, ip, port).
            if length id_bytes \<noteq> ID_LEN then None else Some (new_node id_bytes ip port)) tuples
      | _ \<Rightarrow> [])"

section \<open>SpiderCrawl\<close>

type_synonym 'p find_rpc = "node \<Rightarrow> node \<Rightarrow> 'p \<Rightarrow> raw_response \<times> 'p"

type_synonym responses = "(bytes \<times> raw_response) list"

record crawl =
  cr_ksize :: nat
  cr_alpha :: nat
  cr_node :: node
  cr_nearest :: node_heap
  cr_last_ids_crawled :: "bytes list"

definition crawl_new :: "node \<Rightarrow> node list \<Rightarrow> nat \<Rightarrow> nat \<Rightarrow> crawl" where
  "crawl_new n peers ksize alpha =
     \<lparr>cr_ksize = ksize, cr_alpha = alpha, cr_node = n, cr_nearest = nh_push peers (nh_new n ksize),
      cr_last_ids_crawled = []\<rparr>"

fun join_all :: "'p find_rpc \<Rightarrow> node \<Rightarrow> node list \<Rightarrow> 'p \<Rightarrow> responses \<times> 'p" where
  "join_all rpc target [] p = ([], p)"
| "join_all rpc target (peer # peers) p =
     (let (r, p1) = rpc peer target p;
          (rs, p2) = join_all rpc target peers p1
      in ((node_id peer, r) # rs, p2))"

definition find_round :: "'p find_rpc \<Rightarrow> crawl \<Rightarrow> 'p \<Rightarrow> responses \<times> crawl \<times> 'p" where
  "find_round rpc c p =
     (let current_ids = nh_get_ids (cr_nearest c);
          count = (if current_ids = cr_last_ids_crawled c then nh_len (cr_nearest c) else cr_alpha c);
          uncontacted = take count (nh_get_uncontacted (cr_nearest c));
          (rs, p1) = join_all rpc (cr_node c) uncontacted p
      in (rs, c\<lparr>cr_last_ids_crawled := current_ids,
               cr_nearest := fold nh_mark_contacted uncontacted (cr_nearest c)\<rparr>, p1))"

section \<open>NodeSpiderCrawl\<close>

fun node_absorb :: "responses \<Rightarrow> bytes list \<Rightarrow> node_heap \<Rightarrow> bytes list \<times> node_heap" where
  "node_absorb [] to_remove nearest = (to_remove, nearest)"
| "node_absorb ((peer_id, r) # rs) to_remove nearest =
     (if \<not> happened r then node_absorb rs (to_remove @ [peer_id]) nearest
      else node_absorb rs to_remove (nh_push (get_node_list r) nearest))"

definition node_round ::
  "'p find_rpc \<Rightarrow> (responses \<Rightarrow> responses) \<Rightarrow> crawl \<Rightarrow> 'p \<Rightarrow> crawl \<times> 'p" where
  "node_round rpc order c p =
     (let (responses, c1, p1) = find_round rpc c p;
          (to_remove, nearest) = node_absorb (order responses) [] (cr_nearest c1)
      in (c1\<lparr>cr_nearest := nh_remove to_remove nearest\<rparr>, p1))"

partial_function (option) node_find ::
  "'p find_rpc \<Rightarrow> (responses \<Rightarrow> responses) \<Rightarrow> crawl \<Rightarrow> 'p \<Rightarrow> (node list \<times> 'p) option" where
  "node_find rpc order c p =
     (let (c1, p1) = node_round rpc order c p
      in if nh_have_contacted_all (cr_nearest c1) then Some (nh_to_vec (cr_nearest c1), p1)
         else node_find rpc order c1 p1)"

section \<open>ValueSpiderCrawl\<close>

record value_crawl =
  vc_base :: crawl
  vc_nearest_without_value :: node_heap

definition value_crawl_new :: "node \<Rightarrow> node list \<Rightarrow> nat \<Rightarrow> nat \<Rightarrow> value_crawl" where
  "value_crawl_new n peers ksize alpha =
     \<lparr>vc_base = crawl_new n peers ksize alpha, vc_nearest_without_value = nh_new n 1\<rparr>"

record absorbed =
  ab_to_remove :: "bytes list"
  ab_found_values :: "bytes list"
  ab_nearest :: node_heap
  ab_without_value :: node_heap

fun value_absorb :: "responses \<Rightarrow> absorbed \<Rightarrow> absorbed" where
  "value_absorb [] a = a"
| "value_absorb ((peer_id, r) # rs) a =
     value_absorb rs
       (if \<not> happened r then a\<lparr>ab_to_remove := ab_to_remove a @ [peer_id]\<rparr>
        else if has_value r then
          (case get_value r of
             Some v \<Rightarrow> a\<lparr>ab_found_values := ab_found_values a @ [v]\<rparr>
           | None \<Rightarrow> a)
        else
          a\<lparr>ab_without_value :=
              (case nh_get_node (ab_nearest a) peer_id of
                 Some peer \<Rightarrow> nh_push_one peer (ab_without_value a)
               | None \<Rightarrow> ab_without_value a),
            ab_nearest := nh_push (get_node_list r) (ab_nearest a)\<rparr>)"

definition value_round ::
  "'p find_rpc \<Rightarrow> (responses \<Rightarrow> responses) \<Rightarrow> value_crawl \<Rightarrow> 'p \<Rightarrow> bytes list \<times> value_crawl \<times> 'p" where
  "value_round rpc order c p =
     (let (responses, c1, p1) = find_round rpc (vc_base c) p;
          a = value_absorb (order responses)
                \<lparr>ab_to_remove = [], ab_found_values = [], ab_nearest = cr_nearest c1,
                 ab_without_value = vc_nearest_without_value c\<rparr>
      in (ab_found_values a,
          \<lparr>vc_base = c1\<lparr>cr_nearest := nh_remove (ab_to_remove a) (ab_nearest a)\<rparr>,
           vc_nearest_without_value = ab_without_value a\<rparr>, p1))"

text \<open>
  The counts of the found values are a \<open>HashMap\<close> iterated in the order \<open>vorder\<close>;
  \<open>max_by_key\<close> returns the last element with a maximal key.
\<close>

definition value_counts :: "bytes list \<Rightarrow> (bytes \<times> nat) list" where
  "value_counts vs = map (\<lambda>v. (v, count_list vs v)) (remdups vs)"

definition max_by_count :: "(bytes \<times> nat) list \<Rightarrow> bytes option" where
  "max_by_count xs =
     map_option fst (foldl (\<lambda>acc x. case acc of
         None \<Rightarrow> Some x
       | Some m \<Rightarrow> Some (if snd x \<ge> snd m then x else m)) None xs)"

definition value_hit ::
  "(node \<Rightarrow> bytes \<Rightarrow> bytes \<Rightarrow> 'p \<Rightarrow> bool \<times> 'p) \<Rightarrow> ((bytes \<times> nat) list \<Rightarrow> (bytes \<times> nat) list) \<Rightarrow>
   bytes list \<Rightarrow> value_crawl \<Rightarrow> 'p \<Rightarrow> (bytes option \<times> node list) \<times> 'p" where
  "value_hit store vorder found c p =
     (let value = max_by_count (vorder (value_counts found))
      in case value of
           None \<Rightarrow> ((None, []), p)
         | Some v \<Rightarrow>
             (case fst (nh_popleft (vc_nearest_without_value c)) of
                None \<Rightarrow> ((value, []), p)
              | Some peer \<Rightarrow>
                  let (_, p1) = store peer (node_id (cr_node (vc_base c))) v p
                  in ((value, []), p1)))"

partial_function (option) value_find ::
  "'p find_rpc \<Rightarrow> (node \<Rightarrow> bytes \<Rightarrow> bytes \<Rightarrow> 'p \<Rightarrow> bool \<times> 'p) \<Rightarrow> (responses \<Rightarrow> responses) \<Rightarrow>
   ((bytes \<times> nat) list \<Rightarrow> (bytes \<times> nat) list) \<Rightarrow> value_crawl \<Rightarrow> 'p \<Rightarrow>
   ((bytes option \<times> node list) \<times> 'p) option" where
  "value_find rpc store order vorder c p =
     (let (found, c1, p1) = value_round rpc order c p
      in if found \<noteq> [] then Some (value_hit store vorder found c1 p1)
         else if nh_have_contacted_all (cr_nearest (vc_base c1))
         then Some ((None, nh_to_vec (cr_nearest (vc_base c1))), p1)
         else value_find rpc store order vorder c1 p1)"

section \<open>One round\<close>

text \<open>Iterating a \<open>HashMap\<close> collected from a list of pairs yields pairs of the list, and all of them when the keys are distinct.\<close>

definition hash_iteration :: "(('k \<times> 'v) list \<Rightarrow> ('k \<times> 'v) list) \<Rightarrow> bool" where
  "hash_iteration order \<longleftrightarrow>
     (\<forall>rs. set (order rs) \<subseteq> set rs \<and> (distinct (map fst rs) \<longrightarrow> mset (order rs) = mset rs))"

lemma hash_iterationD:
  assumes "hash_iteration order"
  shows "set (order rs) \<subseteq> set rs" and "order [] = []"
    and "distinct (map fst rs) \<Longrightarrow> mset (order rs) = mset rs"
    and "distinct (map fst rs) \<Longrightarrow> set (order rs) = set rs"
  using assms unfolding hash_iteration_def
  by (simp, metis empty_subsetI list.set(1) set_empty subset_empty, simp, metis mset_eq_setD)

lemma wf_get_node_list: "n \<in> set (get_node_list r) \<Longrightarrow> wf_node n"
  by (auto simp: get_node_list_def List.map_filter_def split: find_payload.splits if_splits)

lemma join_all_ids: "map fst (fst (join_all rpc target peers p)) = map node_id peers"
  by (induction peers arbitrary: p) (auto simp: split_def Let_def)

definition round_peers :: "crawl \<Rightarrow> node list" where
  "round_peers c =
     take (if nh_get_ids (cr_nearest c) = cr_last_ids_crawled c then nh_len (cr_nearest c) else cr_alpha c)
       (nh_get_uncontacted (cr_nearest c))"

lemma find_round_eq:
  "find_round rpc c p =
     (fst (join_all rpc (cr_node c) (round_peers c) p),
      c\<lparr>cr_last_ids_crawled := nh_get_ids (cr_nearest c),
        cr_nearest := fold nh_mark_contacted (round_peers c) (cr_nearest c)\<rparr>,
      snd (join_all rpc (cr_node c) (round_peers c) p))"
  by (simp add: find_round_def round_peers_def Let_def split_def)

lemma round_peers_uncontacted: "set (round_peers c) \<subseteq> set (nh_get_uncontacted (cr_nearest c))"
  by (simp add: round_peers_def set_take_subset)

lemma node_absorb_heap:
  assumes "nh_inv h"
  shows "nh_inv (snd (node_absorb rs rem h)) \<and> nh_contacted (snd (node_absorb rs rem h)) = nh_contacted h \<and>
    nh_node (snd (node_absorb rs rem h)) = nh_node h \<and> nh_maxsize (snd (node_absorb rs rem h)) = nh_maxsize h"
  using assms
  by (induction rs rem h rule: node_absorb.induct) (auto simp: nh.invar_push wf_get_node_list)

lemma value_absorb_heap:
  assumes "nh_inv (ab_nearest a)"
  shows "nh_inv (ab_nearest (value_absorb rs a)) \<and>
    nh_contacted (ab_nearest (value_absorb rs a)) = nh_contacted (ab_nearest a) \<and>
    nh_node (ab_nearest (value_absorb rs a)) = nh_node (ab_nearest a) \<and>
    nh_maxsize (ab_nearest (value_absorb rs a)) = nh_maxsize (ab_nearest a)"
  using assms
proof (induction rs a rule: value_absorb.induct)
  case (2 i r rs a)
  then show ?case by (cases "get_value r") (auto simp: nh.invar_push wf_get_node_list)
qed simp

text \<open>
  What one round of either lookup does to the shared crawl state: it queries \<open>round_peers\<close>,
  remembers the identifiers it saw, and leaves the frontier alone if it queried nobody.
\<close>

definition crawl_advances :: "crawl \<Rightarrow> crawl \<Rightarrow> bool" where
  "crawl_advances c c' \<longleftrightarrow>
     nh_inv (cr_nearest c') \<and>
     nh_contacted (cr_nearest c') = nh_contacted (cr_nearest c) \<union> node_id ` set (round_peers c) \<and>
     nh_node (cr_nearest c') = nh_node (cr_nearest c) \<and>
     nh_maxsize (cr_nearest c') = nh_maxsize (cr_nearest c) \<and>
     cr_last_ids_crawled c' = nh_get_ids (cr_nearest c) \<and> cr_node c' = cr_node c \<and>
     (round_peers c = [] \<longrightarrow> cr_nearest c' = cr_nearest c)"

lemma nh_mark_all:
  "nh_contacted (fold nh_mark_contacted ns h) = nh_contacted h \<union> node_id ` set ns"
  "nh_inv h \<Longrightarrow> nh_inv (fold nh_mark_contacted ns h)"
  "nh_node (fold nh_mark_contacted ns h) = nh_node h"
  "nh_maxsize (fold nh_mark_contacted ns h) = nh_maxsize h"
  using nh.mark_all [of ns h] by (blast+) (induction ns arbitrary: h, simp_all)+

lemma node_round_advances:
  assumes "hash_iteration order" and "nh_inv (cr_nearest c)"
  shows "crawl_advances c (fst (node_round rpc order c p))"
proof -
  let ?h = "fold nh_mark_contacted (round_peers c) (cr_nearest c)"
  let ?rs = "order (fst (join_all rpc (cr_node c) (round_peers c) p))"
  have inv: "nh_inv ?h" by (rule nh_mark_all(2) [OF assms(2)])
  have eq: "fst (node_round rpc order c p) = c\<lparr>cr_last_ids_crawled := nh_get_ids (cr_nearest c),
      cr_nearest := nh_remove (fst (node_absorb ?rs [] ?h)) (snd (node_absorb ?rs [] ?h))\<rparr>"
    by (simp add: node_round_def find_round_eq split_def Let_def)
  have "node_absorb ?rs [] ?h = ([], cr_nearest c)" if "round_peers c = []"
    using that hash_iterationD(2) [OF assms(1)] by simp
  then show ?thesis
    using node_absorb_heap [OF inv, of ?rs "[]"]
    by (simp add: eq crawl_advances_def nh_mark_all nh_remove_inv) (auto simp: nh_remove_def)
qed

lemma value_round_advances:
  assumes "hash_iteration order" and "nh_inv (cr_nearest (vc_base c))"
  shows "crawl_advances (vc_base c) (vc_base (fst (snd (value_round rpc order c p))))"
proof -
  let ?c = "vc_base c"
  let ?h = "fold nh_mark_contacted (round_peers ?c) (cr_nearest ?c)"
  let ?rs = "order (fst (join_all rpc (cr_node ?c) (round_peers ?c) p))"
  let ?a = "\<lparr>ab_to_remove = [], ab_found_values = [], ab_nearest = ?h,
    ab_without_value = vc_nearest_without_value c\<rparr>"
  have inv: "nh_inv (ab_nearest ?a)" using nh_mark_all(2) [OF assms(2)] by simp
  have eq: "vc_base (fst (snd (value_round rpc order c p))) =
      ?c\<lparr>cr_last_ids_crawled := nh_get_ids (cr_nearest ?c),
        cr_nearest := nh_remove (ab_to_remove (value_absorb ?rs ?a)) (ab_nearest (value_absorb ?rs ?a))\<rparr>"
    by (simp add: value_round_def find_round_eq split_def Let_def)
  have "value_absorb ?rs ?a = ?a \<and> ?h = cr_nearest ?c" if "round_peers ?c = []"
    using that hash_iterationD(2) [OF assms(1)] by simp
  then show ?thesis
    using value_absorb_heap [OF inv, of ?rs]
    by (simp add: eq crawl_advances_def nh_mark_all nh_remove_inv) (auto simp: nh_remove_def)
qed

definition crawl_measure :: "crawl \<Rightarrow> nat \<times> nat" where
  "crawl_measure c = (card (id_space - nh_contacted (cr_nearest c)),
     if nh_get_ids (cr_nearest c) = cr_last_ids_crawled c then 0 else 1)"

lemma crawl_advances_decreases:
  assumes "nh_inv (cr_nearest c)" and "crawl_advances c c'" and "\<not> nh_have_contacted_all (cr_nearest c')"
  shows "(crawl_measure c', crawl_measure c) \<in> less_than <*lex*> less_than"
proof (cases "round_peers c = []")
  case True
  then have same: "cr_nearest c' = cr_nearest c" using assms(2) by (simp add: crawl_advances_def)
  have "nh_get_uncontacted (cr_nearest c) \<noteq> []"
    using assms(3) same by (simp add: nh_have_contacted_all_def)
  moreover from this have "nh_iter (cr_nearest c) \<noteq> []" by (auto simp: nh_get_uncontacted_def)
  then have "nh_len (cr_nearest c) \<noteq> 0" by (metis length_0_conv length_nh_iter)
  ultimately have "nh_get_ids (cr_nearest c) \<noteq> cr_last_ids_crawled c"
    using True by (auto simp: round_peers_def split: if_splits)
  then show ?thesis
    using same assms(2) by (simp add: crawl_measure_def crawl_advances_def)
next
  case False
  have "nh_contacted (cr_nearest c') = nh_contacted (fold nh_mark_contacted (round_peers c) (cr_nearest c))"
    using assms(2) by (simp add: crawl_advances_def nh_mark_all)
  then show ?thesis
    using nh.mark_progress [OF assms(1) round_peers_uncontacted False] by (simp add: crawl_measure_def)
qed

lemma wf_lex: "wf (less_than <*lex*> less_than)"
  by (simp add: wf_lex_prod)

text \<open>Induction over the run of a lookup on a well-formed frontier.\<close>

lemma node_find_induct [consumes 2, case_names finished again]:
  assumes order: "hash_iteration order" and inv: "nh_inv (cr_nearest c)"
    and fin: "\<And>c p c1 p1. nh_inv (cr_nearest c) \<Longrightarrow> node_round rpc order c p = (c1, p1) \<Longrightarrow>
      crawl_advances c c1 \<Longrightarrow> nh_have_contacted_all (cr_nearest c1) \<Longrightarrow>
      P c p (Some (nh_to_vec (cr_nearest c1), p1))"
    and step: "\<And>c p c1 p1. nh_inv (cr_nearest c) \<Longrightarrow> node_round rpc order c p = (c1, p1) \<Longrightarrow>
      crawl_advances c c1 \<Longrightarrow> P c1 p1 (node_find rpc order c1 p1) \<Longrightarrow> P c p (node_find rpc order c1 p1)"
  shows "P c p (node_find rpc order c p)"
  using inv
proof (induction "crawl_measure c" arbitrary: c p rule: wf_induct_rule [OF wf_lex])
  case (1 c)
  obtain c1 p1 where rd: "node_round rpc order c p = (c1, p1)" by fastforce
  then have adv: "crawl_advances c c1" using node_round_advances [OF order 1(2), of rpc p] by simp
  then have inv1: "nh_inv (cr_nearest c1)" by (simp add: crawl_advances_def)
  show ?case
  proof (cases "nh_have_contacted_all (cr_nearest c1)")
    case True
    then have "node_find rpc order c p = Some (nh_to_vec (cr_nearest c1), p1)"
      by (subst node_find.simps) (simp add: rd)
    then show ?thesis using fin [OF 1(2) rd adv True] by simp
  next
    case False
    then have eq: "node_find rpc order c p = node_find rpc order c1 p1"
      by (subst node_find.simps) (simp add: rd)
    have "P c1 p1 (node_find rpc order c1 p1)"
      using 1(1) [OF crawl_advances_decreases [OF 1(2) adv False] inv1] .
    then show ?thesis unfolding eq by (rule step [OF 1(2) rd adv])
  qed
qed

lemma value_find_induct [consumes 2, case_names hit miss again]:
  assumes order: "hash_iteration order" and inv: "nh_inv (cr_nearest (vc_base c))"
    and hit: "\<And>c p found c1 p1. nh_inv (cr_nearest (vc_base c)) \<Longrightarrow> value_round rpc order c p = (found, c1, p1) \<Longrightarrow>
      crawl_advances (vc_base c) (vc_base c1) \<Longrightarrow> found \<noteq> [] \<Longrightarrow>
      P c p (Some (value_hit store vorder found c1 p1))"
    and miss: "\<And>c p c1 p1. nh_inv (cr_nearest (vc_base c)) \<Longrightarrow> value_round rpc order c p = ([], c1, p1) \<Longrightarrow>
      crawl_advances (vc_base c) (vc_base c1) \<Longrightarrow> nh_have_contacted_all (cr_nearest (vc_base c1)) \<Longrightarrow>
      P c p (Some ((None, nh_to_vec (cr_nearest (vc_base c1))), p1))"
    and step: "\<And>c p c1 p1. nh_inv (cr_nearest (vc_base c)) \<Longrightarrow> value_round rpc order c p = ([], c1, p1) \<Longrightarrow>
      crawl_advances (vc_base c) (vc_base c1) \<Longrightarrow> P c1 p1 (value_find rpc store order vorder c1 p1) \<Longrightarrow>
      P c p (value_find rpc store order vorder c1 p1)"
  shows "P c p (value_find rpc store order vorder c p)"
  using inv
proof (induction "crawl_measure (vc_base c)" arbitrary: c p rule: wf_induct_rule [OF wf_lex])
  case (1 c)
  obtain found c1 p1 where rd: "value_round rpc order c p = (found, c1, p1)" by (metis surj_pair)
  then have adv: "crawl_advances (vc_base c) (vc_base c1)"
    using value_round_advances [OF order 1(2), of rpc p] by simp
  then have inv1: "nh_inv (cr_nearest (vc_base c1))" by (simp add: crawl_advances_def)
  note unf = value_find.simps [of rpc store order vorder c p]
  consider "found \<noteq> []" | "found = []" "nh_have_contacted_all (cr_nearest (vc_base c1))"
    | "found = []" "\<not> nh_have_contacted_all (cr_nearest (vc_base c1))" by blast
  then show ?case
  proof cases
    case 1
    then show ?thesis using hit [OF \<open>nh_inv (cr_nearest (vc_base c))\<close> rd adv] unf by (simp add: rd)
  next
    case 2
    then show ?thesis using miss [OF \<open>nh_inv (cr_nearest (vc_base c))\<close> _ adv] rd unf by simp
  next
    case 3
    then have eq: "value_find rpc store order vorder c p = value_find rpc store order vorder c1 p1"
      using unf by (simp add: rd)
    have "P c1 p1 (value_find rpc store order vorder c1 p1)"
      using 1(1) [OF crawl_advances_decreases [OF 1(2) adv 3(2)] inv1] .
    then show ?thesis unfolding eq using step [OF 1(2) _ adv] rd 3(1) by simp
  qed
qed

section \<open>What a lookup asked and was told\<close>

text \<open>
  To speak about the queries of a run, the protocol state is paired with a log of the peers asked
  and their answers.
\<close>

definition logged :: "'p find_rpc \<Rightarrow> ('p \<times> responses) find_rpc" where
  "logged rpc peer target s =
     (let (r, p1) = rpc peer target (fst s) in (r, (p1, snd s @ [(node_id peer, r)])))"

definition logged_store ::
  "(node \<Rightarrow> bytes \<Rightarrow> bytes \<Rightarrow> 'p \<Rightarrow> bool \<times> 'p) \<Rightarrow> node \<Rightarrow> bytes \<Rightarrow> bytes \<Rightarrow> 'p \<times> responses \<Rightarrow> bool \<times> 'p \<times> responses" where
  "logged_store store peer key v s = (let (b, p1) = store peer key v (fst s) in (b, (p1, snd s)))"

lemma join_all_logged:
  "snd (snd (join_all (logged rpc) target peers s)) = snd s @ fst (join_all (logged rpc) target peers s)"
  by (induction peers arbitrary: s) (simp_all add: logged_def split_def Let_def)

lemma node_round_logged:
  assumes "node_round (logged rpc) order c s = (c1, s1)"
  shows "\<exists>rs. snd s1 = snd s @ rs \<and> map fst rs = map node_id (round_peers c)"
proof -
  have "s1 = snd (join_all (logged rpc) (cr_node c) (round_peers c) s)"
    using assms by (auto simp: node_round_def find_round_eq split_def Let_def)
  then show ?thesis
    using join_all_logged [of rpc "cr_node c" "round_peers c" s]
      join_all_ids [of "logged rpc" "cr_node c" "round_peers c" s] by blast
qed

lemma distinct_round_peers:
  "nh_inv (cr_nearest c) \<Longrightarrow> distinct (map node_id (round_peers c))"
  by (simp add: round_peers_def nh_get_uncontacted_def distinct_map_filterI distinct_nh_iter take_map [symmetric])

lemma round_peers_new:
  "nh_inv (cr_nearest c) \<Longrightarrow> node_id ` set (round_peers c) \<inter> nh_contacted (cr_nearest c) = {}"
  using round_peers_uncontacted [of c] by (auto simp: set_nh_uncontacted)

definition log_ok :: "crawl \<Rightarrow> responses \<Rightarrow> bool" where
  "log_ok c log \<longleftrightarrow> distinct (map fst log) \<and> fst ` set log = nh_contacted (cr_nearest c)"

lemma log_ok_round:
  assumes "log_ok c log" and "nh_inv (cr_nearest c)" and "crawl_advances c c1"
    and "map fst rs = map node_id (round_peers c)"
  shows "log_ok c1 (log @ rs)"
proof -
  have ids: "fst ` set rs = node_id ` set (round_peers c)"
    using arg_cong [OF assms(4), of set] by simp
  moreover have "distinct (map fst rs)" using assms(2,4) by (simp add: distinct_round_peers)
  moreover have "fst ` set log \<inter> fst ` set rs = {}"
    using round_peers_new [OF assms(2)] assms(1) ids by (auto simp: log_ok_def)
  ultimately show ?thesis
    using assms(1,3) by (simp add: log_ok_def crawl_advances_def image_Un)
qed

text \<open>A finished frontier: the answer of a lookup for the nodes closest to a target.\<close>

definition closest_result :: "node \<Rightarrow> nat \<Rightarrow> responses \<Rightarrow> node list \<Rightarrow> bool" where
  "closest_result target k log ns \<longleftrightarrow>
     length ns \<le> k \<and> sorted (map (distance_to target) ns) \<and> distinct (map node_id ns) \<and>
     node_id ` set ns \<subseteq> fst ` set log"

lemma closest_resultI:
  assumes "nh_inv h" and "nh_have_contacted_all h" and "fst ` set log = nh_contacted h"
  shows "closest_result (nh_node h) (nh_maxsize h) log (nh_to_vec h)"
proof -
  have "node_id ` set (nh_iter h) \<subseteq> nh_contacted h"
    using assms(1,2) by (simp add: nh_have_contacted_all_iff nh_ids_def set_nh_iter)
  then show ?thesis
    using assms by (simp add: closest_result_def nh_to_vec_def sorted_nh_iter distinct_nh_iter
        length_nh_iter nh_len_def)
qed

lemma crawl_new_inv:
  "\<forall>n \<in> set peers. wf_node n \<Longrightarrow> nh_inv (cr_nearest (crawl_new target peers k alpha))"
  unfolding crawl_new_def by (simp add: nh.invar_push)

lemma crawl_new_frame:
  "nh_node (cr_nearest (crawl_new target peers k alpha)) = target"
  "nh_maxsize (cr_nearest (crawl_new target peers k alpha)) = k"
  "log_ok (crawl_new target peers k alpha) []"
  by (simp_all add: crawl_new_def nh_new_def log_ok_def)

lemma node_find_runs:
  assumes "hash_iteration order" and "nh_inv (cr_nearest c)"
  shows "log_ok c (snd s) \<longrightarrow> (\<exists>ns p1 log. node_find (logged rpc) order c s = Some (ns, (p1, log)) \<and>
    distinct (map fst log) \<and>
    closest_result (nh_node (cr_nearest c)) (nh_maxsize (cr_nearest c)) log ns)"
proof -
  let ?P = "\<lambda>c s r. log_ok c (snd s) \<longrightarrow> (\<exists>ns p1 log. r = Some (ns, (p1, log)) \<and>
    distinct (map fst log) \<and> closest_result (nh_node (cr_nearest c)) (nh_maxsize (cr_nearest c)) log ns)"
  have next_log: "log_ok c1 (snd s1)"
    if "node_round (logged rpc) order c s = (c1, s1)" "log_ok c (snd s)" "nh_inv (cr_nearest c)" "crawl_advances c c1"
    for c c1 :: crawl and s s1
    using node_round_logged [OF that(1)] log_ok_round [OF that(2-4)] by auto
  show "?P c s (node_find (logged rpc) order c s)"
  proof (rule node_find_induct [where P = ?P and rpc = "logged rpc", OF assms], goal_cases)
    case (1 c s c1 s1)
    show ?case
    proof
      assume "log_ok c (snd s)"
      then have log: "log_ok c1 (snd s1)" by (rule next_log [OF 1(2) _ 1(1,3)])
      have "nh_inv (cr_nearest c1)" "nh_node (cr_nearest c1) = nh_node (cr_nearest c)"
        "nh_maxsize (cr_nearest c1) = nh_maxsize (cr_nearest c)"
        using 1(3) by (simp_all add: crawl_advances_def)
      then have "closest_result (nh_node (cr_nearest c)) (nh_maxsize (cr_nearest c)) (snd s1) (nh_to_vec (cr_nearest c1))"
        using closest_resultI [of "cr_nearest c1" "snd s1"] 1(4) log by (simp add: log_ok_def)
      then show "\<exists>ns p1 log. Some (nh_to_vec (cr_nearest c1), s1) = Some (ns, (p1, log)) \<and>
          distinct (map fst log) \<and> closest_result (nh_node (cr_nearest c)) (nh_maxsize (cr_nearest c)) log ns"
        using log by (cases s1) (simp add: log_ok_def)
    qed
  next
    case (2 c s c1 s1)
    have "nh_node (cr_nearest c1) = nh_node (cr_nearest c)" "nh_maxsize (cr_nearest c1) = nh_maxsize (cr_nearest c)"
      using 2(3) by (simp_all add: crawl_advances_def)
    then show ?case using 2(4) next_log [OF 2(2) _ 2(1,3)] by simp
  qed
qed

section \<open>Votes for a value\<close>

definition votes :: "bytes \<Rightarrow> responses \<Rightarrow> nat" where
  "votes v rs = length (filter (\<lambda>(i, r). happened r \<and> get_value r = Some v) rs)"

lemma votes_append [simp]: "votes v (xs @ ys) = votes v xs + votes v ys"
  by (simp add: votes_def)

lemma votes_mset: "mset xs = mset ys \<Longrightarrow> votes v xs = votes v ys"
  unfolding votes_def by (simp flip: size_mset)

lemma value_absorb_found:
  "ab_found_values (value_absorb rs a) = ab_found_values a @
     List.map_filter (\<lambda>(i, r). if happened r then get_value r else None) rs"
proof (induction rs a rule: value_absorb.induct)
  case (2 i r rs a)
  have "has_value r \<longleftrightarrow> get_value r \<noteq> None"
    by (simp add: has_value_def get_value_def split: find_payload.split)
  with 2 show ?case by (auto simp: List.map_filter_def split: option.splits)
qed (simp add: List.map_filter_def)

lemma count_list_found:
  "count_list (List.map_filter (\<lambda>(i, r). if happened r then get_value r else None) rs) v = votes v rs"
proof (induction rs)
  case (Cons a rs)
  obtain i r where a: "a = (i, r)" by (cases a)
  have split: "List.map_filter f (a # rs) = (case f a of None \<Rightarrow> [] | Some x \<Rightarrow> [x]) @ List.map_filter f rs"
    for f :: "bytes \<times> raw_response \<Rightarrow> bytes option"
    by (simp add: List.map_filter_def split: option.split)
  show ?case unfolding split using Cons by (simp add: a votes_def split: option.split)
qed (simp add: votes_def List.map_filter_def)

lemma max_by_count_max:
  assumes "xs \<noteq> []"
  shows "\<exists>x \<in> set xs. max_by_count xs = Some (fst x) \<and> (\<forall>y \<in> set xs. snd y \<le> snd x)"
proof -
  let ?f = "\<lambda>acc x. case acc of None \<Rightarrow> Some x | Some m \<Rightarrow> Some (if snd x \<ge> snd m then x else m)"
  have "\<exists>x \<in> set xs. foldl ?f None xs = Some x \<and> (\<forall>y \<in> set xs. snd y \<le> snd x)"
    using assms
  proof (induction xs rule: rev_induct)
    case (snoc z xs)
    show ?case
    proof (cases "xs = []")
      case False
      then obtain x where x: "x \<in> set xs" "foldl ?f None xs = Some x" "\<forall>y \<in> set xs. snd y \<le> snd x"
        using snoc.IH by blast
      show ?thesis
      proof (cases "snd x \<le> snd z")
        case True
        then show ?thesis using x by (intro bexI [of _ z]) (auto intro: le_trans)
      next
        case False
        then show ?thesis using x by (intro bexI [of _ x]) auto
      qed
    qed simp
  qed simp
  then obtain x where "x \<in> set xs" "foldl ?f None xs = Some x" "\<forall>y \<in> set xs. snd y \<le> snd x" by blast
  then show ?thesis by (intro bexI [of _ x]) (simp_all add: max_by_count_def)
qed

lemma value_hit_majority:
  assumes "hash_iteration vorder" and "found \<noteq> []"
  shows "\<exists>v p1. value_hit store vorder found c p = ((Some v, []), p1) \<and> v \<in> set found \<and>
    (\<forall>w. count_list found w \<le> count_list found v)"
proof -
  let ?xs = "vorder (value_counts found)"
  have "distinct (map fst (value_counts found))" by (simp add: value_counts_def comp_def)
  then have set: "set ?xs = set (value_counts found)" using hash_iterationD(4) [OF assms(1)] by blast
  then have "?xs \<noteq> []" using assms(2) by (auto simp: value_counts_def)
  then obtain x where x: "x \<in> set ?xs" "max_by_count ?xs = Some (fst x)" "\<forall>y \<in> set ?xs. snd y \<le> snd x"
    using max_by_count_max by blast
  obtain v where v: "x = (v, count_list found v)" "v \<in> set found"
    using x(1) set by (auto simp: value_counts_def)
  have "count_list found w \<le> count_list found v" for w
  proof (cases "w \<in> set found")
    case True
    then have "(w, count_list found w) \<in> set ?xs" using set by (simp add: value_counts_def)
    with x(3) v(1) show ?thesis by fastforce
  qed (simp add: count_list_0_iff)
  moreover have "\<exists>p1. value_hit store vorder found c p = ((Some v, []), p1)"
    using x(2) v(1) by (auto simp: value_hit_def Let_def split_def split: option.split)
  ultimately show ?thesis using v(2) by blast
qed

definition value_result :: "node \<Rightarrow> nat \<Rightarrow> responses \<Rightarrow> bytes option \<times> node list \<Rightarrow> bool" where
  "value_result target k log res =
     (case res of
        (Some v, ns) \<Rightarrow> ns = [] \<and> 0 < votes v log \<and> (\<forall>w. votes w log \<le> votes v log)
      | (None, ns) \<Rightarrow> (\<forall>w. votes w log = 0) \<and> closest_result target k log ns)"

lemma value_round_logged:
  assumes "hash_iteration order" and "nh_inv (cr_nearest (vc_base c))"
    and "value_round (logged rpc) order c s = (found, c1, s1)"
  shows "\<exists>rs. snd s1 = snd s @ rs \<and> map fst rs = map node_id (round_peers (vc_base c)) \<and>
    (\<forall>v. count_list found v = votes v rs)"
proof -
  define rs where "rs = fst (join_all (logged rpc) (cr_node (vc_base c)) (round_peers (vc_base c)) s)"
  have ids: "map fst rs = map node_id (round_peers (vc_base c))"
    unfolding rs_def by (rule join_all_ids)
  then have "mset (order rs) = mset rs"
    using hash_iterationD(3) [OF assms(1)] distinct_round_peers [OF assms(2)] by simp
  moreover have "found = List.map_filter (\<lambda>(i, r). if happened r then get_value r else None) (order rs)"
    using arg_cong [OF assms(3), of fst] unfolding rs_def
    by (simp add: value_round_def find_round_eq Let_def value_absorb_found)
  ultimately have "count_list found v = votes v rs" for v
    using votes_mset [of "order rs" rs v] by (simp add: count_list_found)
  moreover have "snd s1 = snd s @ rs"
    using arg_cong [OF assms(3), of "\<lambda>x. snd (snd (snd x))"]
      join_all_logged [of rpc "cr_node (vc_base c)" "round_peers (vc_base c)" s] unfolding rs_def
    by (simp add: value_round_def find_round_eq Let_def)
  ultimately show ?thesis using ids by blast
qed

lemma value_hit_log:
  "snd (snd (value_hit (logged_store store) vorder found c s)) = snd s"
  by (simp add: value_hit_def logged_store_def Let_def split_def split: option.split)

lemma value_hit_result:
  assumes "hash_iteration vorder" and "found \<noteq> []" and "\<forall>v. votes v (snd s) = count_list found v"
  shows "\<exists>v p1. value_hit (logged_store store) vorder found c s = ((Some v, []), (p1, snd s)) \<and> value_result t k (snd s) (Some v, [])"
proof -
  obtain v p1 where v: "value_hit (logged_store store) vorder found c s = ((Some v, []), p1)"
    "v \<in> set found" "\<forall>w. count_list found w \<le> count_list found v"
    using value_hit_majority [OF assms(1,2), of "logged_store store" c s] by blast
  have "snd p1 = snd s" using value_hit_log [of store vorder found c s] v(1) by simp
  moreover have "0 < count_list found v" using v(2) count_list_0_iff [of found v] by linarith
  ultimately show ?thesis using v(1,3) assms(3) by (cases p1) (simp add: value_result_def)
qed

lemma value_find_runs:
  assumes "hash_iteration order" and "hash_iteration vorder" and "nh_inv (cr_nearest (vc_base c))"
  shows "log_ok (vc_base c) (snd s) \<and> (\<forall>v. votes v (snd s) = 0) \<longrightarrow>
    (\<exists>res p1 log. value_find (logged rpc) (logged_store store) order vorder c s = Some (res, (p1, log)) \<and>
      distinct (map fst log) \<and>
      value_result (nh_node (cr_nearest (vc_base c))) (nh_maxsize (cr_nearest (vc_base c))) log res)"
proof -
  let ?post = "\<lambda>c log res. distinct (map fst log) \<and>
    value_result (nh_node (cr_nearest (vc_base c))) (nh_maxsize (cr_nearest (vc_base c))) log res"
  let ?P = "\<lambda>c s r. log_ok (vc_base c) (snd s) \<and> (\<forall>v. votes v (snd s) = 0) \<longrightarrow>
    (\<exists>res p1 log. r = Some (res, (p1, log)) \<and> ?post c log res)"
  have next_log: "log_ok (vc_base c1) (snd s1) \<and> (\<forall>v. votes v (snd s1) = count_list found v)"
    if "value_round (logged rpc) order c s = (found, c1, s1)" "log_ok (vc_base c) (snd s)"
      "\<forall>v. votes v (snd s) = 0" "nh_inv (cr_nearest (vc_base c))" "crawl_advances (vc_base c) (vc_base c1)"
    for c c1 :: value_crawl and s s1 found
    using value_round_logged [OF assms(1) that(4,1)] log_ok_round [OF that(2,4,5)] that(3) by auto
  show "?P c s (value_find (logged rpc) (logged_store store) order vorder c s)"
  proof (rule value_find_induct [where P = ?P and rpc = "logged rpc", OF assms(1,3)], goal_cases)
    case (1 c s found c1 s1)
    show ?case
    proof
      assume "log_ok (vc_base c) (snd s) \<and> (\<forall>v. votes v (snd s) = 0)"
      then have log: "log_ok (vc_base c1) (snd s1)" "\<forall>v. votes v (snd s1) = count_list found v"
        using next_log [OF 1(2) _ _ 1(1,3)] by blast+
      obtain v p1 where "value_hit (logged_store store) vorder found c1 s1 = ((Some v, []), (p1, snd s1))"
        "value_result (nh_node (cr_nearest (vc_base c))) (nh_maxsize (cr_nearest (vc_base c))) (snd s1) (Some v, [])"
        using value_hit_result [OF assms(2) 1(4) log(2)] by blast
      then show "\<exists>res p1 log. Some (value_hit (logged_store store) vorder found c1 s1) = Some (res, (p1, log)) \<and> ?post c log res"
        using log(1) by (simp add: log_ok_def)
    qed
  next
    case (2 c s c1 s1)
    show ?case
    proof
      assume "log_ok (vc_base c) (snd s) \<and> (\<forall>v. votes v (snd s) = 0)"
      then have log: "log_ok (vc_base c1) (snd s1)" "\<forall>v. votes v (snd s1) = 0"
        using next_log [OF 2(2) _ _ 2(1,3)] by auto
      have "nh_inv (cr_nearest (vc_base c1))" "nh_node (cr_nearest (vc_base c1)) = nh_node (cr_nearest (vc_base c))"
        "nh_maxsize (cr_nearest (vc_base c1)) = nh_maxsize (cr_nearest (vc_base c))"
        using 2(3) by (simp_all add: crawl_advances_def)
      then have "?post c (snd s1) (None, nh_to_vec (cr_nearest (vc_base c1)))"
        using closest_resultI [of "cr_nearest (vc_base c1)" "snd s1"] 2(4) log
        by (simp add: log_ok_def value_result_def)
      then show "\<exists>res p1 log. Some ((None, nh_to_vec (cr_nearest (vc_base c1))), s1) = Some (res, (p1, log)) \<and> ?post c log res"
        by (cases s1) auto
    qed
  next
    case (3 c s c1 s1)
    have "nh_node (cr_nearest (vc_base c1)) = nh_node (cr_nearest (vc_base c))"
      "nh_maxsize (cr_nearest (vc_base c1)) = nh_maxsize (cr_nearest (vc_base c))"
      using 3(3) by (simp_all add: crawl_advances_def)
    then show ?case using 3(4) next_log [OF 3(2) _ _ 3(1,3)] by auto
  qed
qed

section \<open>Lookups always return, with a checked answer\<close>

text \<open>
  C11. The node lookup always returns, whatever the peers answer and whatever the RPCs do to the
  protocol state. The nodes returned are at most k, sorted by distance to the target, pairwise
  distinct, and every one of them was queried; no peer is queried twice. The log of the run lists
  the peers queried with their answers.
\<close>

theorem node_find_correct:
  assumes "hash_iteration order" and "\<forall>n \<in> set peers. wf_node n"
  shows "\<exists>ns p1 log. node_find (logged rpc) order (crawl_new target peers k alpha) (p, []) = Some (ns, (p1, log)) \<and>
    length ns \<le> k \<and> sorted (map (distance_to target) ns) \<and> distinct (map node_id ns) \<and>
    node_id ` set ns \<subseteq> fst ` set log \<and> distinct (map fst log)"
  using node_find_runs [OF assms(1) crawl_new_inv [OF assms(2), of target k alpha], of "(p, [])" rpc]
  by (auto simp: crawl_new_frame closest_result_def)

theorem node_find_correct_witness:
  "\<exists>ns p1 log. node_find (logged (\<lambda>peer target s. ((True, Nodes [(replicate 20 3, None, None)]), s))) id
      (crawl_new (from_id (replicate 20 0)) [from_id (replicate 20 1), from_id (replicate 20 2)] 2 3) ((), []) = Some (ns, (p1, log)) \<and>
    length ns \<le> 2 \<and> sorted (map (distance_to (from_id (replicate 20 0))) ns) \<and> distinct (map node_id ns) \<and>
    node_id ` set ns \<subseteq> fst ` set log \<and> distinct (map fst log)"
  by (rule node_find_correct) (simp_all add: hash_iteration_def wf_node_def from_id_def new_node_def ID_LEN_def)

text \<open>
  C12. The value lookup always returns. When it returns a value, some queried peer answered with
  that value and no value had more votes among the answers; then no nodes are returned. When it
  returns no value, no queried peer answered with a value and the nodes are as for the node lookup.
\<close>

theorem value_find_correct:
  assumes "hash_iteration order" and "hash_iteration vorder" and "\<forall>n \<in> set peers. wf_node n"
  shows "\<exists>value ns p1 log.
    value_find (logged rpc) (logged_store store) order vorder (value_crawl_new target peers k alpha) (p, []) =
      Some ((value, ns), (p1, log)) \<and> distinct (map fst log) \<and>
    (case value of
       Some v \<Rightarrow> ns = [] \<and> 0 < votes v log \<and> (\<forall>w. votes w log \<le> votes v log)
     | None \<Rightarrow> (\<forall>w. votes w log = 0) \<and> length ns \<le> k \<and> sorted (map (distance_to target) ns) \<and>
         distinct (map node_id ns) \<and> node_id ` set ns \<subseteq> fst ` set log)"
proof -
  let ?c = "value_crawl_new target peers k alpha"
  have base: "vc_base ?c = crawl_new target peers k alpha" by (simp add: value_crawl_new_def)
  have inv: "nh_inv (cr_nearest (vc_base ?c))" unfolding base by (rule crawl_new_inv [OF assms(3)])
  have zero: "\<forall>v. votes v (snd (p, [])) = 0" by (simp add: votes_def)
  obtain res p1 log where run:
    "value_find (logged rpc) (logged_store store) order vorder ?c (p, []) = Some (res, (p1, log))"
    "distinct (map fst log)" "value_result target k log res"
    using value_find_runs [OF assms(1,2) inv, of "(p, [])" rpc store] zero
    by (auto simp: base crawl_new_frame)
  obtain found ns where res: "res = (found, ns)" by (cases res)
  show ?thesis
    using run unfolding res
    by (intro exI [of _ found] exI [of _ ns] exI [of _ p1] exI [of _ log])
      (auto simp: value_result_def closest_result_def split: option.splits)
qed

theorem value_find_correct_witness:
  "\<exists>value ns p1 log.
    value_find (logged (\<lambda>peer target s. ((True, Value [7]), s))) (logged_store (\<lambda>peer key v s. (True, s))) id id
      (value_crawl_new (from_id (replicate 20 0)) [from_id (replicate 20 1)] 2 3) ((), []) =
      Some ((value, ns), (p1, log)) \<and> distinct (map fst log) \<and>
    (case value of
       Some v \<Rightarrow> ns = [] \<and> 0 < votes v log \<and> (\<forall>w. votes w log \<le> votes v log)
     | None \<Rightarrow> (\<forall>w. votes w log = 0) \<and> length ns \<le> 2 \<and> sorted (map (distance_to (from_id (replicate 20 0))) ns) \<and>
         distinct (map node_id ns) \<and> node_id ` set ns \<subseteq> fst ` set log)"
  by (rule value_find_correct) (simp_all add: hash_iteration_def wf_node_def from_id_def new_node_def ID_LEN_def)

section \<open>What the calls of a lookup keep, the lookup keeps\<close>

lemma round_peers_wf: "nh_inv (cr_nearest c) \<Longrightarrow> n \<in> set (round_peers c) \<Longrightarrow> wf_node n"
  using round_peers_uncontacted [of c]
  by (auto simp: nh_get_uncontacted_def set_nh_iter nh_inv_def nh_wf_def nh_entry_ok_def nh_members_def)

lemma nh_to_vec_wf: "nh_inv h \<Longrightarrow> n \<in> set (nh_to_vec h) \<Longrightarrow> wf_node n"
  by (auto simp: nh_to_vec_def set_nh_iter nh_inv_def nh_wf_def nh_entry_ok_def nh_members_def)

definition rpc_keeps :: "('p \<Rightarrow> bool) \<Rightarrow> 'p find_rpc \<Rightarrow> bool" where
  "rpc_keeps I rpc \<longleftrightarrow> (\<forall>peer target p. wf_node peer \<longrightarrow> I p \<longrightarrow> I (snd (rpc peer target p)))"

lemma join_all_keeps:
  "rpc_keeps I rpc \<Longrightarrow> \<forall>n \<in> set peers. wf_node n \<Longrightarrow> I p \<Longrightarrow> I (snd (join_all rpc target peers p))"
  by (induction peers arbitrary: p) (auto simp: rpc_keeps_def Let_def split_def)

lemma node_find_keeps:
  assumes "hash_iteration order" and "nh_inv (cr_nearest c)" and "rpc_keeps I rpc"
  shows "I p \<longrightarrow> (\<exists>ns p1. node_find rpc order c p = Some (ns, p1) \<and> I p1 \<and> (\<forall>n \<in> set ns. wf_node n))"
proof -
  let ?P = "\<lambda>c p r. I p \<longrightarrow> (\<exists>ns p1. r = Some (ns, p1) \<and> I p1 \<and> (\<forall>n \<in> set ns. wf_node n))"
  have keep: "I p1" if "nh_inv (cr_nearest c)" "node_round rpc order c p = (c1, p1)" "I p" for c p c1 p1
  proof -
    have "p1 = snd (join_all rpc (cr_node c) (round_peers c) p)"
      using arg_cong [OF that(2), of snd] by (simp add: node_round_def find_round_eq Let_def split_def)
    then show ?thesis using join_all_keeps [OF assms(3) _ that(3)] round_peers_wf [OF that(1)] by blast
  qed
  show "?P c p (node_find rpc order c p)"
  proof (rule node_find_induct [where P = ?P and rpc = rpc, OF assms(1,2)], goal_cases)
    case (1 c p c1 p1)
    then have "nh_inv (cr_nearest c1)" by (simp add: crawl_advances_def)
    then show ?case using keep [OF 1(1,2)] nh_to_vec_wf by blast
  next
    case (2 c p c1 p1)
    then show ?case using keep [OF 2(1,2)] by blast
  qed
qed

lemma value_find_keeps:
  assumes "hash_iteration order" and "nh_inv (cr_nearest (vc_base c))" and "rpc_keeps I rpc"
    and "\<forall>peer k v p. I p \<longrightarrow> I (snd (store peer k v p))"
  shows "I p \<longrightarrow> (\<exists>v ns p1. value_find rpc store order vorder c p = Some ((v, ns), p1) \<and> I p1 \<and>
    (\<forall>n \<in> set ns. wf_node n) \<and> (v \<noteq> None \<longrightarrow> ns = []))"
proof -
  let ?P = "\<lambda>c p r. I p \<longrightarrow> (\<exists>v ns p1. r = Some ((v, ns), p1) \<and> I p1 \<and> (\<forall>n \<in> set ns. wf_node n) \<and>
    (v \<noteq> None \<longrightarrow> ns = []))"
  have keep: "I p1" if "nh_inv (cr_nearest (vc_base c))" "value_round rpc order c p = (found, c1, p1)" "I p"
    for c p found c1 p1
  proof -
    have "p1 = snd (join_all rpc (cr_node (vc_base c)) (round_peers (vc_base c)) p)"
      using arg_cong [OF that(2), of "\<lambda>x. snd (snd x)"] by (simp add: value_round_def find_round_eq Let_def)
    then show ?thesis using join_all_keeps [OF assms(3) _ that(3)] round_peers_wf [OF that(1)] by blast
  qed
  have hit: "\<exists>v p1. value_hit store vorder found c q = ((v, []), p1) \<and> I p1" if "I q" for found c q
    using that assms(4) by (auto simp: value_hit_def Let_def split_def split: option.split)
  show "?P c p (value_find rpc store order vorder c p)"
  proof (rule value_find_induct [where P = ?P and rpc = rpc, OF assms(1,2)], goal_cases)
    case (1 c p found c1 p1)
    then show ?case using keep [OF 1(1,2)] hit [of p1 found c1] by fastforce
  next
    case (2 c p c1 p1)
    then have "nh_inv (cr_nearest (vc_base c1))" by (simp add: crawl_advances_def)
    then show ?case using keep [OF 2(1,2)] nh_to_vec_wf by blast
  next
    case (3 c p c1 p1)
    then show ?case using keep [OF 3(1,2)] by blast
  qed
qed

end
