(* ===== verification/Socket_Addr.thy ===== *)
theory Socket_Addr
  imports Rust_Str
begin

text \<open>
  The socket addresses of Rust's standard library as \<^verbatim>\<open>src/protocol.rs\<close> uses them: the text of
  \<open>peer.ip()\<close> is what a node stores as its address, and \<open>format!("{}:{}", ip, port).parse()\<close>
  turns it back into a \<open>SocketAddr\<close> before every call.
\<close>

datatype socket_addr =
    V4 "u8 \<times> u8 \<times> u8 \<times> u8" u16
  | V6 "u16 list" u16 u32 u32

section \<open>Text of an address\<close>

fun digits_in :: "nat \<Rightarrow> nat \<Rightarrow> nat list" where
  "digits_in radix n = (if n < radix \<or> radix < 2 then [n] else digits_in radix (n div radix) @ [n mod radix])"

declare digits_in.simps [simp del]

definition digit_char :: "nat \<Rightarrow> nat" where
  "digit_char d = (if d < 10 then 48 + d else 87 + d)"

definition fmt_dec :: "nat \<Rightarrow> rust_str" where
  "fmt_dec n = map digit_char (digits_in 10 n)"

definition fmt_hex :: "nat \<Rightarrow> rust_str" where
  "fmt_hex n = map digit_char (digits_in 16 n)"

definition ipv4_to_string :: "u8 \<times> u8 \<times> u8 \<times> u8 \<Rightarrow> rust_str" where
  "ipv4_to_string ip = (case ip of (a, b, c, d) \<Rightarrow>
     fmt_dec (unat a) @ 46 # fmt_dec (unat b) @ 46 # fmt_dec (unat c) @ 46 # fmt_dec (unat d))"

text \<open>The longest run of zero segments, as (start, length); the first of several longest runs.\<close>

fun zero_span :: "u16 list \<Rightarrow> nat \<Rightarrow> nat \<times> nat \<Rightarrow> nat \<times> nat \<Rightarrow> nat \<times> nat" where
  "zero_span [] i current longest = longest"
| "zero_span (s # segs) i current longest =
     (if s = 0 then
        let current1 = (if snd current = 0 then i else fst current, snd current + 1)
        in zero_span segs (i + 1) current1 (if snd current1 > snd longest then current1 else longest)
      else zero_span segs (i + 1) (0, 0) longest)"

fun fmt_subslice :: "u16 list \<Rightarrow> rust_str" where
  "fmt_subslice [] = []"
| "fmt_subslice [s] = fmt_hex (unat s)"
| "fmt_subslice (s # segs) = fmt_hex (unat s) @ 58 # fmt_subslice segs"

definition ipv6_to_string :: "u16 list \<Rightarrow> rust_str" where
  "ipv6_to_string segs =
     (if length segs = 8 \<and> take 6 segs = [0, 0, 0, 0, 0, 0xFFFF] then
        str_lit ''::ffff:'' @
          ipv4_to_string (ucast (drop_bit 8 (segs ! 6)), ucast (segs ! 6),
                          ucast (drop_bit 8 (segs ! 7)), ucast (segs ! 7))
      else
        let zeroes = zero_span segs 0 (0, 0) (0, 0)
        in if snd zeroes > 1 then
             fmt_subslice (take (fst zeroes) segs) @ 58 # 58 #
               fmt_subslice (drop (fst zeroes + snd zeroes) segs)
           else fmt_subslice segs)"

fun sa_ip_string :: "socket_addr \<Rightarrow> rust_str" where
  "sa_ip_string (V4 ip port) = ipv4_to_string ip"
| "sa_ip_string (V6 segs port flowinfo scope_id) = ipv6_to_string segs"

fun sa_port :: "socket_addr \<Rightarrow> u16" where
  "sa_port (V4 ip port) = port"
| "sa_port (V6 segs port flowinfo scope_id) = port"

section \<open>Parsing\<close>

text \<open>A reader consumes a prefix of the text and returns the rest, or fails and consumes nothing.\<close>

definition to_digit :: "nat \<Rightarrow> nat \<Rightarrow> nat option" where
  "to_digit radix c =
     (let d = (if 48 \<le> c \<and> c \<le> 57 then c - 48
               else if 97 \<le> c \<and> c \<le> 122 then c - 87
               else if 65 \<le> c \<and> c \<le> 90 then c - 55 else radix)
      in if d < radix then Some d else None)"

definition read_given_char :: "nat \<Rightarrow> rust_str \<Rightarrow> rust_str option" where
  "read_given_char c s = (case s of x # r \<Rightarrow> if x = c then Some r else None | [] \<Rightarrow> None)"

definition read_number ::
  "nat \<Rightarrow> nat option \<Rightarrow> bool \<Rightarrow> nat \<Rightarrow> rust_str \<Rightarrow> (nat \<times> rust_str) option" where
  "read_number radix max_digits allow_zero_prefix bound s =
     (let ds = takeWhile (\<lambda>c. to_digit radix c \<noteq> None) s;
          n = foldl (\<lambda>acc c. acc * radix + the (to_digit radix c)) 0 ds
      in if (case max_digits of Some m \<Rightarrow> length ds > m | None \<Rightarrow> False) then None
         else if ds = [] then None
         else if \<not> allow_zero_prefix \<and> hd ds = 48 \<and> length ds > 1 then None
         else if n \<ge> bound then None
         else Some (n, drop (length ds) s))"

definition read_separator ::
  "nat \<Rightarrow> nat \<Rightarrow> (rust_str \<Rightarrow> ('a \<times> rust_str) option) \<Rightarrow> rust_str \<Rightarrow> ('a \<times> rust_str) option" where
  "read_separator sep index inner s =
     (if index > 0 then Option.bind (read_given_char sep s) inner else inner s)"

fun read_octets :: "nat \<Rightarrow> nat \<Rightarrow> rust_str \<Rightarrow> (nat list \<times> rust_str) option" where
  "read_octets 0 i s = Some ([], s)"
| "read_octets (Suc n) i s =
     (case read_separator 46 i (read_number 10 (Some 3) False 256) s of
        None \<Rightarrow> None
      | Some (b, r) \<Rightarrow> map_option (\<lambda>(bs, r'). (b # bs, r')) (read_octets n (Suc i) r))"

definition read_ipv4_addr :: "rust_str \<Rightarrow> ((u8 \<times> u8 \<times> u8 \<times> u8) \<times> rust_str) option" where
  "read_ipv4_addr s =
     (case read_octets 4 0 s of
        Some ([a, b, c, d], r) \<Rightarrow> Some ((of_nat a, of_nat b, of_nat c, of_nat d), r)
      | _ \<Rightarrow> None)"

function read_groups :: "nat \<Rightarrow> nat \<Rightarrow> rust_str \<Rightarrow> u16 list \<times> bool \<times> rust_str" where
  "read_groups limit i s =
     (if i \<ge> limit then ([], False, s)
      else
        case (if i < limit - 1 then read_separator 58 i read_ipv4_addr s else None) of
          Some ((a, b, c, d), r) \<Rightarrow>
            ([from_be_bytes [a, b], from_be_bytes [c, d]], True, r)
        | None \<Rightarrow>
            (case read_separator 58 i (read_number 16 (Some 4) True 65536) s of
               None \<Rightarrow> ([], False, s)
             | Some (g, r) \<Rightarrow>
                 (case read_groups limit (Suc i) r of (gs, v4, r') \<Rightarrow> (of_nat g # gs, v4, r'))))"
  by pat_completeness auto
termination by (relation "measure (\<lambda>(limit, i, s). limit - i)") auto

declare read_groups.simps [simp del]

definition read_ipv6_addr :: "rust_str \<Rightarrow> (u16 list \<times> rust_str) option" where
  "read_ipv6_addr s =
     (case read_groups 8 0 s of (head, head_ipv4, r) \<Rightarrow>
        if length head = 8 then Some (head, r)
        else if head_ipv4 then None
        else
          Option.bind (read_given_char 58 r) (\<lambda>r1.
          Option.bind (read_given_char 58 r1) (\<lambda>r2.
          case read_groups (8 - (length head + 1)) 0 r2 of (tail, _, r3) \<Rightarrow>
            Some (head @ replicate (8 - length head - length tail) 0 @ tail, r3))))"

definition read_port :: "rust_str \<Rightarrow> (nat \<times> rust_str) option" where
  "read_port s = Option.bind (read_given_char 58 s) (read_number 10 None True 65536)"

definition read_scope_id :: "rust_str \<Rightarrow> (nat \<times> rust_str) option" where
  "read_scope_id s = Option.bind (read_given_char 37 s) (read_number 10 None True (2 ^ 32))"

definition read_socket_addr_v4 :: "rust_str \<Rightarrow> (socket_addr \<times> rust_str) option" where
  "read_socket_addr_v4 s =
     Option.bind (read_ipv4_addr s) (\<lambda>(ip, r).
     map_option (\<lambda>(port, r'). (V4 ip (of_nat port), r')) (read_port r))"

definition read_socket_addr_v6 :: "rust_str \<Rightarrow> (socket_addr \<times> rust_str) option" where
  "read_socket_addr_v6 s =
     Option.bind (read_given_char 91 s) (\<lambda>r0.
     Option.bind (read_ipv6_addr r0) (\<lambda>(ip, r1).
     let (scope_id, r2) = (case read_scope_id r1 of Some x \<Rightarrow> x | None \<Rightarrow> (0, r1))
     in Option.bind (read_given_char 93 r2) (\<lambda>r3.
        map_option (\<lambda>(port, r4). (V6 ip (of_nat port) 0 (of_nat scope_id), r4)) (read_port r3))))"

definition parse_socket_addr :: "rust_str \<Rightarrow> socket_addr option" where
  "parse_socket_addr s =
     (case (case read_socket_addr_v4 s of Some x \<Rightarrow> Some x | None \<Rightarrow> read_socket_addr_v6 s) of
        Some (addr, []) \<Rightarrow> Some addr
      | _ \<Rightarrow> None)"

text \<open>\<open>format!("{}:{}", addr.0, addr.1).parse()\<close>, the first step of every outgoing call.\<close>

definition sock_addr_of :: "rust_str \<times> u16 \<Rightarrow> socket_addr option" where
  "sock_addr_of addr = parse_socket_addr (fst addr @ 58 # fmt_dec (unat (snd addr)))"

section \<open>Reading back a decimal number\<close>

lemma digits_in_less: "2 \<le> radix \<Longrightarrow> d \<in> set (digits_in radix n) \<Longrightarrow> d < radix"
  by (induction radix n rule: digits_in.induct) (subst (asm) digits_in.simps, auto split: if_splits)

lemma digits_in_value:
  "2 \<le> radix \<Longrightarrow> foldl (\<lambda>acc d. acc * radix + d) 0 (digits_in radix n) = n"
  by (induction radix n rule: digits_in.induct) (subst digits_in.simps, auto)

lemma digits_in_nonempty [simp]: "digits_in radix n \<noteq> []"
  by (subst digits_in.simps) simp

lemma digits_in_hd: "2 \<le> radix \<Longrightarrow> radix \<le> n \<Longrightarrow> hd (digits_in radix n) \<noteq> 0"
proof (induction radix n rule: digits_in.induct)
  case (1 radix n)
  show ?case
  proof (cases "n div radix < radix")
    case True
    have "0 < n div radix" using 1(2,3) by (simp add: div_greater_zero_iff)
    with True 1 show ?thesis by (simp add: digits_in.simps [of radix n] digits_in.simps [of radix "n div radix"])
  next
    case False
    with 1 show ?thesis by (simp add: digits_in.simps [of radix n] hd_append)
  qed
qed

lemma length_digits_in: "2 \<le> radix \<Longrightarrow> n < radix ^ k \<Longrightarrow> 0 < k \<Longrightarrow> length (digits_in radix n) \<le> k"
proof (induction k arbitrary: n)
  case (Suc k)
  show ?case
  proof (cases "n < radix")
    case True
    then show ?thesis by (simp add: digits_in.simps [of radix n])
  next
    case False
    then have "0 < k" using Suc.prems by (cases k) auto
    moreover have "n div radix < radix ^ k"
      using Suc.prems by (simp add: less_mult_imp_div_less mult.commute)
    ultimately have "length (digits_in radix (n div radix)) \<le> k" using Suc.IH Suc.prems(1) by blast
    with False Suc.prems(1) show ?thesis by (simp add: digits_in.simps [of radix n])
  qed
qed simp

lemma to_digit_char [simp]: "d < radix \<Longrightarrow> radix \<le> 36 \<Longrightarrow> to_digit radix (digit_char d) = Some d"
  by (auto simp: to_digit_def digit_char_def Let_def)

text \<open>A decimal number followed by something that is not a digit is read back.\<close>

lemma read_number_fmt_dec:
  assumes "n < bound" and "(case max_digits of Some m \<Rightarrow> length (digits_in 10 n) \<le> m | None \<Rightarrow> True)"
    and "case rest of [] \<Rightarrow> True | c # _ \<Rightarrow> to_digit 10 c = None"
  shows "read_number 10 max_digits z bound (fmt_dec n @ rest) = Some (n, rest)"
proof -
  let ?ds = "map digit_char (digits_in 10 n)"
  have "\<forall>c \<in> set ?ds. to_digit 10 c \<noteq> None" using digits_in_less [of 10 _ n] by auto
  then have "takeWhile (\<lambda>c. to_digit 10 c \<noteq> None) (?ds @ rest) = ?ds @ takeWhile (\<lambda>c. to_digit 10 c \<noteq> None) rest"
    by (intro takeWhile_append2) blast
  moreover have "takeWhile (\<lambda>c. to_digit 10 c \<noteq> None) rest = []" using assms(3) by (cases rest) simp_all
  ultimately have tw: "takeWhile (\<lambda>c. to_digit 10 c \<noteq> None) (?ds @ rest) = ?ds" by simp
  have "foldl (\<lambda>acc c. acc * 10 + the (to_digit 10 c)) 0 ?ds = foldl (\<lambda>acc d. acc * 10 + d) 0 (digits_in 10 n)"
    unfolding foldl_map by (rule foldl_cong) (auto dest: digits_in_less [rotated])
  then have val: "foldl (\<lambda>acc c. acc * 10 + the (to_digit 10 c)) 0 ?ds = n" by (simp add: digits_in_value)
  have "\<not> (hd ?ds = 48 \<and> length ?ds > 1)"
  proof (cases "10 \<le> n")
    case True
    then have "hd (digits_in 10 n) \<noteq> 0" by (simp add: digits_in_hd)
    then show ?thesis by (simp add: hd_map digit_char_def)
  next
    case False
    then show ?thesis by (simp add: digits_in.simps [of 10 n])
  qed
  with assms(1,2) tw val show ?thesis
    by (auto simp: read_number_def fmt_dec_def Let_def split: option.splits)
qed

lemma read_octets_four: "read_octets 4 = read_octets (Suc (Suc (Suc (Suc 0))))"
  by (simp add: numeral_eq_Suc)

lemma octet_digits: "length (digits_in 10 (unat (b :: u8))) \<le> 3"
proof (rule length_digits_in)
  have "unat b < 256" using unat_lt_len [of b] by simp
  then have "unat b < 1000" by linarith
  then show "unat b < 10 ^ 3" by simp
qed simp_all

lemma read_ipv4_to_string:
  assumes "case rest of [] \<Rightarrow> True | c # _ \<Rightarrow> to_digit 10 c = None"
  shows "read_ipv4_addr (ipv4_to_string ip @ rest) = Some (ip, rest)"
proof -
  obtain a b c d where ip: "ip = (a, b, c, d)" by (cases ip)
  have octet: "read_number 10 (Some 3) False 256 (fmt_dec (unat x) @ r) = Some (unat x, r)"
    if "case r of [] \<Rightarrow> True | c # _ \<Rightarrow> to_digit 10 c = None" for x :: u8 and r
    using unat_lt_len [of x] octet_digits [of x] that by (intro read_number_fmt_dec) simp_all
  have dot: "case 46 # r of [] \<Rightarrow> True | c # _ \<Rightarrow> to_digit 10 c = None" for r
    by (simp add: to_digit_def)
  have "read_octets 4 0 (ipv4_to_string ip @ rest) = Some ([unat a, unat b, unat c, unat d], rest)"
    by (simp add: ip ipv4_to_string_def read_octets_four read_separator_def read_given_char_def
        octet [OF dot] octet [OF assms])
  then show ?thesis by (simp add: read_ipv4_addr_def ip)
qed

lemma read_port_fmt_dec: "read_port (58 # fmt_dec (unat (port :: u16))) = Some (unat port, [])"
  using read_number_fmt_dec [of "unat port" 65536 None "[]" True] unat_lt_len [of port]
  by (simp add: read_port_def read_given_char_def)

section \<open>Which peers can be called back\<close>

lemma digit_char_hex: "d < 16 \<Longrightarrow> digit_char d \<noteq> 46 \<and> digit_char d \<noteq> 58 \<and> digit_char d \<noteq> 91"
  by (simp add: digit_char_def)

definition no_dot_prefix :: "rust_str \<Rightarrow> bool" where
  "no_dot_prefix s \<longleftrightarrow> (\<exists>ds rest. s = ds @ 58 # rest \<and> 46 \<notin> set ds \<and> 91 \<notin> set ds)"

lemma no_dot_prefixI: "46 \<notin> set ds \<Longrightarrow> 91 \<notin> set ds \<Longrightarrow> no_dot_prefix (ds @ 58 # rest)"
  by (auto simp: no_dot_prefix_def)

lemma fmt_hex_chars: "46 \<notin> set (fmt_hex n)" "91 \<notin> set (fmt_hex n)"
  using digits_in_less [of 16 _ n] digit_char_hex by (force simp: fmt_hex_def)+

lemma fmt_subslice_prefix: "no_dot_prefix (fmt_subslice segs @ 58 # rest)"
proof (cases segs rule: fmt_subslice.cases)
  case 1
  then show ?thesis using no_dot_prefixI [of "[]" rest] by simp
next
  case (2 s)
  then show ?thesis using no_dot_prefixI [OF fmt_hex_chars] by simp
next
  case (3 s v va)
  then show ?thesis using no_dot_prefixI [OF fmt_hex_chars, of "unat s" "fmt_subslice (v # va) @ 58 # rest"] by simp
qed

lemma ipv6_prefix: "no_dot_prefix (ipv6_to_string segs @ 58 # rest)"
proof -
  have "no_dot_prefix (str_lit ''::ffff:'' @ r)" for r
    using no_dot_prefixI [of "[]"] by (simp add: str_lit_def of_char_def)
  moreover have "no_dot_prefix (fmt_subslice a @ 58 # 58 # b @ 58 # rest)" for a b
    by (rule fmt_subslice_prefix)
  ultimately show ?thesis
    using fmt_subslice_prefix [of segs rest] by (simp add: ipv6_to_string_def Let_def)
qed

lemma no_dot_prefix_unparsed:
  assumes "no_dot_prefix s"
  shows "parse_socket_addr s = None"
proof -
  obtain ds rest where s: "s = ds @ 58 # rest" "46 \<notin> set ds" "91 \<notin> set ds"
    using assms by (auto simp: no_dot_prefix_def)
  have "read_separator 46 1 f (drop (length (takeWhile P s)) s) = None"
    if "\<not> P 58" for P and f :: "rust_str \<Rightarrow> (nat \<times> rust_str) option"
  proof -
    have "hd (dropWhile P s) \<in> set ds \<union> {58} \<and> dropWhile P s \<noteq> []"
      using that s(1) by (induction ds arbitrary: s) auto
    then show ?thesis
      using s(2) by (auto simp: read_separator_def read_given_char_def dropWhile_eq_drop [symmetric] split: list.split)
  qed
  note no_dot = this
  have "read_octets 4 0 s = None"
    using no_dot [of "\<lambda>c. to_digit 10 c \<noteq> None" "read_number 10 (Some 3) False 256"]
    by (auto simp: read_octets_four read_separator_def [of _ 0] read_number_def [of _ _ _ _ s] to_digit_def [of 10 58] Let_def
        split: option.splits)
  then have "read_socket_addr_v4 s = None" by (simp add: read_socket_addr_v4_def read_ipv4_addr_def)
  moreover have "hd s \<noteq> 91" using s by (cases ds) auto
  then have "read_given_char 91 s = None" by (auto simp: read_given_char_def split: list.split)
  ultimately show ?thesis by (simp add: parse_socket_addr_def read_socket_addr_v6_def)
qed

lemma sock_addr_of_v4: "sock_addr_of (ipv4_to_string ip, port) = Some (V4 ip port)"
proof -
  have "case 58 # r of [] \<Rightarrow> True | c # _ \<Rightarrow> to_digit 10 c = None" for r by (simp add: to_digit_def)
  then have "read_ipv4_addr (ipv4_to_string ip @ 58 # fmt_dec (unat port)) = Some (ip, 58 # fmt_dec (unat port))"
    by (rule read_ipv4_to_string)
  then show ?thesis
    by (simp add: sock_addr_of_def parse_socket_addr_def read_socket_addr_v4_def read_port_fmt_dec)
qed

text \<open>
  The address a node keeps for a peer, the text of the peer's IP and its port, parses back to
  the peer's socket address when the peer is an IPv4 peer, and never parses when it is an IPv6
  peer: the text has no brackets. Every outgoing call to an IPv6 peer therefore fails at once.
\<close>

theorem peer_address_reparse:
  "sock_addr_of (sa_ip_string addr, sa_port addr) =
     (case addr of V4 ip port \<Rightarrow> Some (V4 ip port) | V6 segs port flowinfo scope_id \<Rightarrow> None)"
proof (cases addr)
  case (V4 ip port)
  then show ?thesis by (simp add: sock_addr_of_v4)
next
  case (V6 segs port flowinfo scope_id)
  then show ?thesis by (simp add: sock_addr_of_def no_dot_prefix_unparsed ipv6_prefix)
qed

end
