(* ===== verification/Signature_Cache.thy ===== *)
theory Signature_Cache
  imports Prelude
begin

text \<open>
  \<^verbatim>\<open>src/signature_cache.rs\<close>: the cache of verification results. The underlying \<open>moka\<close> cache is the
  log of its insertions, newest first; which entries it still holds is the parameter \<open>moka_get\<close>.
  SHA-256 is the parameter \<open>sha256\<close>.
\<close>

record signature_cache =
  sc_max_capacity :: u64
  sc_time_to_live :: nat
  sc_log :: "(instant \<times> bytes \<times> bool) list"

type_synonym moka_get = "signature_cache \<Rightarrow> instant \<Rightarrow> bytes \<Rightarrow> bool option"

definition sc_new :: "u64 \<Rightarrow> signature_cache" where
  "sc_new max_capacity =
     \<lparr>sc_max_capacity = max_capacity, sc_time_to_live = duration_from_secs 3600, sc_log = []\<rparr>"

definition compute_key :: "(bytes \<Rightarrow> bytes) \<Rightarrow> bytes \<Rightarrow> bytes" where
  "compute_key sha256 value = sha256 value"

definition get_by_key :: "moka_get \<Rightarrow> instant \<Rightarrow> bytes \<Rightarrow> signature_cache \<Rightarrow> bool option" where
  "get_by_key moka now key c = moka c now key"

definition insert_by_key :: "instant \<Rightarrow> bytes \<Rightarrow> bool \<Rightarrow> signature_cache \<Rightarrow> signature_cache" where
  "insert_by_key now key result c = c\<lparr>sc_log := (now, key, result) # sc_log c\<rparr>"

definition sc_get :: "(bytes \<Rightarrow> bytes) \<Rightarrow> moka_get \<Rightarrow> instant \<Rightarrow> bytes \<Rightarrow> signature_cache \<Rightarrow> bool option" where
  "sc_get sha256 moka now value c = moka c now (compute_key sha256 value)"

definition sc_insert :: "(bytes \<Rightarrow> bytes) \<Rightarrow> instant \<Rightarrow> bytes \<Rightarrow> bool \<Rightarrow> signature_cache \<Rightarrow> signature_cache" where
  "sc_insert sha256 now value result c =
     c\<lparr>sc_log := (now, compute_key sha256 value, result) # sc_log c\<rparr>"

definition entry_count :: "(signature_cache \<Rightarrow> u64) \<Rightarrow> signature_cache \<Rightarrow> u64" where
  "entry_count moka_count c = moka_count c"

section \<open>What is relied on\<close>

definition sc_latest :: "signature_cache \<Rightarrow> bytes \<Rightarrow> (instant \<times> bool) option" where
  "sc_latest c key = map_of (map (\<lambda>(t, k, b). (k, (t, b))) (sc_log c)) key"

text \<open>A lookup returns at most the result last inserted for the key, and only within its time to live.\<close>

definition moka_sound :: "moka_get \<Rightarrow> bool" where
  "moka_sound moka \<longleftrightarrow>
     (\<forall>c now key b. moka c now key = Some b \<longrightarrow>
        (\<exists>t. sc_latest c key = Some (t, b) \<and> elapsed now t \<le> sc_time_to_live c))"

text \<open>A cache that never evicts before the time to live.\<close>

definition moka_full :: moka_get where
  "moka_full c now key =
     (case sc_latest c key of
        Some (t, b) \<Rightarrow> if elapsed now t \<le> sc_time_to_live c then Some b else None
      | None \<Rightarrow> None)"

lemma moka_full_sound: "moka_sound moka_full"
  by (auto simp: moka_sound_def moka_full_def split: option.splits if_splits)

lemma moka_full_insert:
  "moka_full (insert_by_key now key b c) now' key' =
     (if key' = key then (if elapsed now' now \<le> sc_time_to_live c then Some b else None)
      else moka_full c now' key')"
  by (simp add: moka_full_def insert_by_key_def sc_latest_def split: option.split)

text \<open>Every cached result is positive and stands for a record satisfying \<open>Q\<close> with the cached hash.\<close>

definition cache_ok :: "(bytes \<Rightarrow> bytes) \<Rightarrow> (bytes \<Rightarrow> bool) \<Rightarrow> signature_cache \<Rightarrow> bool" where
  "cache_ok sha256 Q c \<longleftrightarrow>
     (\<forall>(t, k, b) \<in> set (sc_log c). b \<and> (\<exists>w. sha256 w = k \<and> Q w))"

lemma cache_ok_new [wf_intros]: "cache_ok sha256 Q (sc_new n)"
  by (simp add: cache_ok_def sc_new_def)

lemma cache_ok_insert [wf_intros]:
  "cache_ok sha256 Q c \<Longrightarrow> Q value \<Longrightarrow> cache_ok sha256 Q (insert_by_key now (compute_key sha256 value) True c)"
  by (auto simp: cache_ok_def insert_by_key_def compute_key_def)

lemma cache_ok_get:
  assumes "moka_sound moka" and "cache_ok sha256 Q c"
    and "get_by_key moka now (compute_key sha256 value) c = Some b"
  shows "b \<and> (\<exists>w. sha256 w = sha256 value \<and> Q w)"
proof -
  obtain t where "sc_latest c (sha256 value) = Some (t, b)"
    using assms(1,3) unfolding moka_sound_def get_by_key_def compute_key_def by blast
  then have "(t, sha256 value, b) \<in> set (sc_log c)"
    by (auto simp: sc_latest_def dest!: map_of_SomeD)
  with assms(2) show ?thesis by (auto simp: cache_ok_def)
qed

end
