(* ===== verification/Protocol.thy ===== *)
theory Protocol
  imports Routing Storage Fragmentation Auth_Handler Crawling Socket_Addr Signature_Cache
begin

text \<open>
  \<^verbatim>\<open>src/protocol.rs\<close>: the messages, the protocol state, sending and receiving frames, the handlers
  of the eight requests, the outgoing calls, signature checks with the cache, welcoming a new node
  and the refresh identifiers.

  The state \<open>protocol\<close> has the fields of \<open>KademliaProtocol\<close>. Reference counting and locks are
  gone; the socket is the list of the datagrams sent; a spawned task is an element of \<open>pr_tasks\<close>
  that runs later; a \<open>oneshot\<close> channel is a number, \<open>pr_inbox\<close> holding the message sent on it.
  The two clocks are fields. \<open>bincode\<close>, the hash functions and \<open>moka\<close> are the record \<open>net_lib\<close>.
  What the program does not choose is the record \<open>env\<close>: whether a datagram can be sent, the
  iteration order of the store, random numbers, and what the other tasks, the peers and the clocks
  do while a call waits for its response. Between two waits an operation is atomic.
\<close>

section \<open>Messages\<close>

record wire_node =
  wn_id :: bytes
  wn_ip :: "rust_str option"
  wn_port :: "u16 option"

datatype rpc_message =
    Ping bytes
  | Pong bytes
  | Store bytes bytes bytes
  | StoreResult bool
  | Update bytes bytes bytes bytes
  | UpdateResult bool
  | UpdateStatusList bytes bytes bytes
  | UpdateStatusListResult bool
  | Delete bytes bytes bytes bytes
  | DeleteResult bool
  | FindNode bytes bytes
  | FindNodeResult "wire_node list"
  | FindValue bytes bytes
  | FindValueNodes "wire_node list"
  | FindValueHit bytes
  | Leave bytes

definition wire_of_node :: "node \<Rightarrow> wire_node" where
  "wire_of_node n = \<lparr>wn_id = node_id n, wn_ip = node_ip n, wn_port = node_port n\<rparr>"

definition node_of_wire :: "wire_node \<Rightarrow> node" where
  "node_of_wire w = new_node (wn_id w) (wn_ip w) (wn_port w)"

record frame =
  fr_msg_id :: u32
  fr_is_request :: bool
  fr_message :: rpc_message

datatype find_value_result = FoundNodes "node list" | FoundValue bytes

definition INVALID_SIG_BAN_THRESHOLD :: u32 where
  "INVALID_SIG_BAN_THRESHOLD = 3"

definition STATUS_LIST_KEY :: rust_str where
  "STATUS_LIST_KEY = str_lit ''did:iiot:status-list''"

section \<open>State, libraries and environment\<close>

datatype task = WelcomeIfNew node | CallPingNode node | CallStoreRpc node bytes bytes

record protocol =
  pr_router :: routing_table
  pr_storage :: storage
  pr_source_node :: node
  pr_signature_handler :: sig_handler
  pr_sig_cache :: "signature_cache option"
  pr_invalid_sig_strikes :: "bytes \<rightharpoonup> u32"
  pr_pending :: "u32 \<rightharpoonup> nat"
  pr_next_msg_id :: u32
  pr_next_frag_id :: u32
  pr_reassembly :: "socket_addr \<times> u32 \<rightharpoonup> reassembly_entry"
  pr_next_chan :: nat
  pr_inbox :: "nat \<rightharpoonup> rpc_message"
  pr_tasks :: "task list"
  pr_sent :: "(socket_addr \<times> bytes) list"
  pr_now :: instant
  pr_secs :: nat

record net_lib =
  nl_sha1 :: "bytes \<Rightarrow> bytes"
  nl_sha256 :: "bytes \<Rightarrow> bytes"
  nl_moka_get :: moka_get
  nl_serialize :: "frame \<Rightarrow> bytes option"
  nl_deserialize :: "bytes \<Rightarrow> frame option"

record env =
  ev_send_ok :: "protocol \<Rightarrow> socket_addr \<Rightarrow> bytes \<Rightarrow> bool"
  ev_keys :: "storage \<Rightarrow> bytes list"
  ev_gen_range :: "protocol \<Rightarrow> u128 \<Rightarrow> u128 \<Rightarrow> u128"
  ev_wait :: "protocol \<Rightarrow> protocol"

definition pr_new ::
  "instant \<Rightarrow> nat \<Rightarrow> node \<Rightarrow> storage \<Rightarrow> nat \<Rightarrow> sig_handler \<Rightarrow> signature_cache option \<Rightarrow> protocol" where
  "pr_new now secs source_node storage ksize handler cache =
     \<lparr>pr_router = rt_new secs source_node ksize, pr_storage = storage,
      pr_source_node = source_node, pr_signature_handler = handler, pr_sig_cache = cache,
      pr_invalid_sig_strikes = Map.empty, pr_pending = Map.empty, pr_next_msg_id = 0,
      pr_next_frag_id = 0, pr_reassembly = Map.empty, pr_next_chan = 0, pr_inbox = Map.empty,
      pr_tasks = [], pr_sent = [], pr_now = now, pr_secs = secs\<rparr>"

definition spawn :: "task \<Rightarrow> protocol \<Rightarrow> protocol" where
  "spawn t p = p\<lparr>pr_tasks := pr_tasks p @ [t]\<rparr>"

section \<open>Sending\<close>

definition next_id :: "protocol \<Rightarrow> u32 \<times> protocol" where
  "next_id p = (pr_next_msg_id p, p\<lparr>pr_next_msg_id := pr_next_msg_id p + 1\<rparr>)"

definition next_frag_id_val :: "protocol \<Rightarrow> u32 \<times> protocol" where
  "next_frag_id_val p = (pr_next_frag_id p, p\<lparr>pr_next_frag_id := pr_next_frag_id p + 1\<rparr>)"

definition gc_reassembly :: "protocol \<Rightarrow> protocol" where
  "gc_reassembly p =
     p\<lparr>pr_reassembly := (\<lambda>k. case pr_reassembly p k of
         Some entry \<Rightarrow>
           if elapsed (pr_now p) (re_created_at entry) < REASSEMBLY_TTL then Some entry else None
       | None \<Rightarrow> None)\<rparr>"

fun send_datagrams :: "env \<Rightarrow> socket_addr \<Rightarrow> bytes list \<Rightarrow> protocol \<Rightarrow> bool \<times> protocol" where
  "send_datagrams ev addr [] p = (True, p)"
| "send_datagrams ev addr (dg # dgs) p =
     (if \<not> ev_send_ok ev p addr dg then (False, p)
      else send_datagrams ev addr dgs (p\<lparr>pr_sent := pr_sent p @ [(addr, dg)]\<rparr>))"

definition send_frame :: "net_lib \<Rightarrow> env \<Rightarrow> socket_addr \<Rightarrow> frame \<Rightarrow> protocol \<Rightarrow> bool \<times> protocol" where
  "send_frame lib ev addr frame p =
     (case nl_serialize lib frame of
        None \<Rightarrow> (False, p)
      | Some bytes \<Rightarrow>
          if length bytes > MAX_MESSAGE_SIZE then (False, p)
          else
            let (frag_id, p1) = next_frag_id_val p;
                datagrams = encode_fragments frag_id bytes
            in send_datagrams ev addr datagrams p1)"

text \<open>
  A call registers a fresh channel under a new message number, sends the request, waits, and
  takes the message from its channel; after a timeout or when the channel is closed the
  registration is removed.
\<close>

definition call_start ::
  "net_lib \<Rightarrow> env \<Rightarrow> socket_addr \<Rightarrow> rpc_message \<Rightarrow> protocol \<Rightarrow> (u32 \<times> nat) option \<times> protocol" where
  "call_start lib ev addr message p =
     (let (msg_id, p1) = next_id p;
          frame = \<lparr>fr_msg_id = msg_id, fr_is_request = True, fr_message = message\<rparr>;
          chan = pr_next_chan p1;
          p2 = p1\<lparr>pr_next_chan := chan + 1, pr_pending := (pr_pending p1)(msg_id \<mapsto> chan)\<rparr>;
          (ok, p3) = send_frame lib ev addr frame p2
      in if \<not> ok then (None, p3\<lparr>pr_pending := (pr_pending p3)(msg_id := None)\<rparr>)
         else (Some (msg_id, chan), p3))"

definition call_finish :: "u32 \<Rightarrow> nat \<Rightarrow> protocol \<Rightarrow> rpc_message option \<times> protocol" where
  "call_finish msg_id chan p =
     (case pr_inbox p chan of
        Some response \<Rightarrow> (Some response, p\<lparr>pr_inbox := (pr_inbox p)(chan := None)\<rparr>)
      | None \<Rightarrow> (None, p\<lparr>pr_pending := (pr_pending p)(msg_id := None)\<rparr>))"

definition call ::
  "net_lib \<Rightarrow> env \<Rightarrow> socket_addr \<Rightarrow> rpc_message \<Rightarrow> protocol \<Rightarrow> rpc_message option \<times> protocol" where
  "call lib ev addr message p =
     (case call_start lib ev addr message p of
        (None, p1) \<Rightarrow> (None, p1)
      | (Some (msg_id, chan), p1) \<Rightarrow> call_finish msg_id chan (ev_wait ev p1))"

section \<open>Signature checks\<close>

definition verify_for_key :: "net_lib \<Rightarrow> bytes \<Rightarrow> bytes \<Rightarrow> protocol \<Rightarrow> bool \<times> protocol" where
  "verify_for_key lib key value p =
     (let is_status = (key = digest (nl_sha1 lib) STATUS_LIST_KEY);
          cache_key = compute_key (nl_sha256 lib) value;
          cached = (case pr_sig_cache p of
                      None \<Rightarrow> None
                    | Some cache \<Rightarrow> get_by_key (nl_moka_get lib) (pr_now p) cache_key cache)
      in case cached of
           Some b \<Rightarrow> (b, p)
         | None \<Rightarrow>
             let h = pr_signature_handler p;
                 result = unwrap_or_false (if is_status then sh_issuer h value else sh_signature h value)
             in (result,
                 if result
                 then p\<lparr>pr_sig_cache := map_option (insert_by_key (pr_now p) cache_key result) (pr_sig_cache p)\<rparr>
                 else p))"

section \<open>Welcoming a node\<close>

fun keys_to_replicate ::
  "nat \<Rightarrow> node \<Rightarrow> node \<Rightarrow> (bytes \<times> bytes) list \<Rightarrow> routing_table \<Rightarrow> (bytes \<times> bytes) list \<times> routing_table" where
  "keys_to_replicate secs n self_node [] router = ([], router)"
| "keys_to_replicate secs n self_node ((key, value) # entries) router =
     (if length key \<noteq> ID_LEN then keys_to_replicate secs n self_node entries router
      else
        let key_node = from_id key;
            (neighbors, router1) = rt_find_neighbors secs router key_node None;
            new_node_close =
              (neighbors = [] \<or> distance_to n key_node < distance_to (last neighbors) key_node);
            this_closest =
              (neighbors = [] \<or> distance_to self_node key_node < distance_to (hd neighbors) key_node);
            (rest, router2) = keys_to_replicate secs n self_node entries router1
        in (if new_node_close \<and> this_closest then (key, value) # rest else rest, router2))"

definition welcome_if_new :: "env \<Rightarrow> node \<Rightarrow> protocol \<Rightarrow> protocol option" where
  "welcome_if_new ev n p =
     (if \<not> rt_is_new_node (pr_router p) n then Some p
      else
        let all_entries = st_iter_all (pr_now p) (ev_keys ev (pr_storage p)) (pr_storage p);
            (kvs, router1) = keys_to_replicate (pr_secs p) n (pr_source_node p) all_entries (pr_router p)
        in case rt_add_contact (pr_secs p) n router1 of
             None \<Rightarrow> None
           | Some (lru, router2) \<Rightarrow>
               let p1 = p\<lparr>pr_router := router2\<rparr>;
                   p2 = (case lru of Some lru_node \<Rightarrow> spawn (CallPingNode lru_node) p1 | None \<Rightarrow> p1)
               in Some (fold (\<lambda>(key, value). spawn (CallStoreRpc n key value)) kvs p2))"

section \<open>Handlers of requests\<close>

definition rpc_ping :: "bytes \<Rightarrow> rust_str \<times> u16 \<Rightarrow> protocol \<Rightarrow> bytes \<times> protocol" where
  "rpc_ping sender_id sender_addr p =
     (let source = new_node sender_id (Some (fst sender_addr)) (Some (snd sender_addr))
      in (node_id (pr_source_node p), spawn (WelcomeIfNew source) p))"

definition rpc_store ::
  "net_lib \<Rightarrow> bytes \<Rightarrow> rust_str \<times> u16 \<Rightarrow> bytes \<Rightarrow> bytes \<Rightarrow> protocol \<Rightarrow> bool \<times> protocol" where
  "rpc_store lib sender_id sender_addr key value p =
     (let source = new_node sender_id (Some (fst sender_addr)) (Some (snd sender_addr));
          (valid, p1) = verify_for_key lib key value p
      in if \<not> valid then
           let strikes = (case pr_invalid_sig_strikes p1 sender_id of Some n \<Rightarrow> n | None \<Rightarrow> 0) + 1;
               p2 = p1\<lparr>pr_invalid_sig_strikes := (pr_invalid_sig_strikes p1)(sender_id \<mapsto> strikes)\<rparr>
           in if strikes \<ge> INVALID_SIG_BAN_THRESHOLD
              then (False, p2\<lparr>pr_router := rt_remove_contact source (pr_router p2)\<rparr>)
              else (False, spawn (WelcomeIfNew source) p2)
         else
           let (inserted, storage1) = st_insert_if_absent (pr_now p1) key value (pr_storage p1);
               p2 = p1\<lparr>pr_storage := storage1\<rparr>
           in if \<not> inserted then (False, p2) else (True, spawn (WelcomeIfNew source) p2))"

definition rpc_update ::
  "bytes \<Rightarrow> rust_str \<times> u16 \<Rightarrow> bytes \<Rightarrow> bytes \<Rightarrow> bytes \<Rightarrow> protocol \<Rightarrow> bool \<times> protocol" where
  "rpc_update sender_id sender_addr key value auth_signature p =
     (case st_get (pr_now p) key (pr_storage p) of
        None \<Rightarrow> (False, p)
      | Some old_value \<Rightarrow>
          if \<not> unwrap_or_false (sh_update (pr_signature_handler p) value old_value auth_signature)
          then (False, p)
          else
            let source = new_node sender_id (Some (fst sender_addr)) (Some (snd sender_addr));
                p1 = spawn (WelcomeIfNew source) p
            in (True, p1\<lparr>pr_storage := st_set (pr_now p1) key value (pr_storage p1)\<rparr>))"

definition rpc_update_status_list ::
  "bytes \<Rightarrow> rust_str \<times> u16 \<Rightarrow> bytes \<Rightarrow> bytes \<Rightarrow> protocol \<Rightarrow> bool \<times> protocol" where
  "rpc_update_status_list sender_id sender_addr key value p =
     (if st_get (pr_now p) key (pr_storage p) = None then (False, p)
      else if \<not> unwrap_or_false (sh_issuer (pr_signature_handler p) value) then (False, p)
      else
        let source = new_node sender_id (Some (fst sender_addr)) (Some (snd sender_addr));
            p1 = spawn (WelcomeIfNew source) p
        in (True, p1\<lparr>pr_storage := st_set (pr_now p1) key value (pr_storage p1)\<rparr>))"

definition rpc_delete ::
  "bytes \<Rightarrow> rust_str \<times> u16 \<Rightarrow> bytes \<Rightarrow> bytes \<Rightarrow> bytes \<Rightarrow> protocol \<Rightarrow> bool \<times> protocol" where
  "rpc_delete sender_id sender_addr key auth_signature delete_msg p =
     (case st_get (pr_now p) key (pr_storage p) of
        None \<Rightarrow> (False, p)
      | Some value \<Rightarrow>
          if \<not> unwrap_or_false (sh_delete (pr_signature_handler p) value auth_signature delete_msg)
          then (False, p)
          else
            let source = new_node sender_id (Some (fst sender_addr)) (Some (snd sender_addr));
                p1 = spawn (WelcomeIfNew source) p
            in (True, p1\<lparr>pr_storage := st_delete key (pr_storage p1)\<rparr>))"

definition rpc_find_node ::
  "bytes \<Rightarrow> rust_str \<times> u16 \<Rightarrow> bytes \<Rightarrow> protocol \<Rightarrow> node list \<times> protocol" where
  "rpc_find_node sender_id sender_addr key p =
     (let source = new_node sender_id (Some (fst sender_addr)) (Some (snd sender_addr));
          p1 = spawn (WelcomeIfNew source) p;
          target = from_id key;
          (ns, router1) = rt_find_neighbors (pr_secs p1) (pr_router p1) target (Some source)
      in (ns, p1\<lparr>pr_router := router1\<rparr>))"

definition rpc_find_value ::
  "env \<Rightarrow> bytes \<Rightarrow> rust_str \<times> u16 \<Rightarrow> bytes \<Rightarrow> protocol \<Rightarrow> (find_value_result \<times> protocol) option" where
  "rpc_find_value ev sender_id sender_addr key p =
     (let source = new_node sender_id (Some (fst sender_addr)) (Some (snd sender_addr))
      in case welcome_if_new ev source p of
           None \<Rightarrow> None
         | Some p1 \<Rightarrow>
             (case st_get (pr_now p1) key (pr_storage p1) of
                Some v \<Rightarrow> Some (FoundValue v, p1)
              | None \<Rightarrow>
                  let target = from_id key;
                      (neighbors, router1) =
                        rt_find_neighbors (pr_secs p1) (pr_router p1) target (Some source)
                  in Some (FoundNodes neighbors, p1\<lparr>pr_router := router1\<rparr>)))"

definition rpc_leave :: "bytes \<Rightarrow> rust_str \<times> u16 \<Rightarrow> protocol \<Rightarrow> protocol" where
  "rpc_leave sender_id sender_addr p =
     (let source = new_node sender_id (Some (fst sender_addr)) (Some (snd sender_addr))
      in p\<lparr>pr_router := rt_remove_contact source (pr_router p)\<rparr>)"

fun dispatch_request ::
  "net_lib \<Rightarrow> env \<Rightarrow> rpc_message \<Rightarrow> socket_addr \<Rightarrow> protocol \<Rightarrow> (rpc_message option \<times> protocol) option" where
  "dispatch_request lib ev (Ping sender_id) peer p =
     (let (resp_id, p1) = rpc_ping sender_id (sa_ip_string peer, sa_port peer) p
      in Some (Some (Pong resp_id), p1))"
| "dispatch_request lib ev (Store sender_id key value) peer p =
     (let (ok, p1) = rpc_store lib sender_id (sa_ip_string peer, sa_port peer) key value p
      in Some (Some (StoreResult ok), p1))"
| "dispatch_request lib ev (Update sender_id key value auth_signature) peer p =
     (let (ok, p1) = rpc_update sender_id (sa_ip_string peer, sa_port peer) key value auth_signature p
      in Some (Some (UpdateResult ok), p1))"
| "dispatch_request lib ev (UpdateStatusList sender_id key value) peer p =
     (let (ok, p1) = rpc_update_status_list sender_id (sa_ip_string peer, sa_port peer) key value p
      in Some (Some (UpdateStatusListResult ok), p1))"
| "dispatch_request lib ev (Delete sender_id key auth_signature delete_msg) peer p =
     (let (ok, p1) = rpc_delete sender_id (sa_ip_string peer, sa_port peer) key auth_signature delete_msg p
      in Some (Some (DeleteResult ok), p1))"
| "dispatch_request lib ev (FindNode sender_id key) peer p =
     (let (ns, p1) = rpc_find_node sender_id (sa_ip_string peer, sa_port peer) key p
      in Some (Some (FindNodeResult (map wire_of_node ns)), p1))"
| "dispatch_request lib ev (FindValue sender_id key) peer p =
     (case rpc_find_value ev sender_id (sa_ip_string peer, sa_port peer) key p of
        None \<Rightarrow> None
      | Some (FoundValue v, p1) \<Rightarrow> Some (Some (FindValueHit v), p1)
      | Some (FoundNodes ns, p1) \<Rightarrow> Some (Some (FindValueNodes (map wire_of_node ns)), p1))"
| "dispatch_request lib ev (Leave sender_id) peer p =
     Some (None, rpc_leave sender_id (sa_ip_string peer, sa_port peer) p)"
| "dispatch_request lib ev _ peer p = Some (None, p)"

section \<open>Receiving\<close>

text \<open>The part of \<open>handle_datagram\<close> after reassembly.\<close>

definition handle_payload ::
  "net_lib \<Rightarrow> env \<Rightarrow> bytes \<Rightarrow> socket_addr \<Rightarrow> protocol \<Rightarrow> protocol option" where
  "handle_payload lib ev payload peer p =
     (case nl_deserialize lib payload of
        None \<Rightarrow> Some p
      | Some frame \<Rightarrow>
          if \<not> fr_is_request frame then
            let p1 = (case fr_message frame of
                        Pong sender_id \<Rightarrow>
                          spawn (WelcomeIfNew (new_node sender_id (Some (sa_ip_string peer)) (Some (sa_port peer)))) p
                      | _ \<Rightarrow> p)
            in Some (case pr_pending p1 (fr_msg_id frame) of
                       Some chan \<Rightarrow>
                         p1\<lparr>pr_pending := (pr_pending p1)(fr_msg_id frame := None),
                            pr_inbox := (pr_inbox p1)(chan \<mapsto> fr_message frame)\<rparr>
                     | None \<Rightarrow> p1)
          else
            (case dispatch_request lib ev (fr_message frame) peer p of
               None \<Rightarrow> None
             | Some (None, p1) \<Rightarrow> Some p1
             | Some (Some resp, p1) \<Rightarrow>
                 Some (snd (send_frame lib ev peer
                   \<lparr>fr_msg_id = fr_msg_id frame, fr_is_request = False, fr_message = resp\<rparr> p1))))"

definition handle_datagram ::
  "net_lib \<Rightarrow> env \<Rightarrow> bytes \<Rightarrow> socket_addr \<Rightarrow> protocol \<Rightarrow> protocol option" where
  "handle_datagram lib ev data peer p =
     (case parse_fragment data of
        None \<Rightarrow> Some p
      | Some (header, chunk) \<Rightarrow>
          if fh_total header = 1 then handle_payload lib ev chunk peer p
          else if unat (fh_total header) * FRAG_CHUNK_SIZE > MAX_MESSAGE_SIZE then Some p
          else
            let key = (peer, fh_frag_id header);
                entry = (case pr_reassembly p key of
                           Some e \<Rightarrow> e
                         | None \<Rightarrow> re_new (pr_now p) (fh_total header))
            in if re_total entry \<noteq> fh_total header then Some p
               else
                 let (complete, entry1) = re_insert (fh_index header) chunk entry
                 in if \<not> complete
                    then Some (gc_reassembly (p\<lparr>pr_reassembly := (pr_reassembly p)(key \<mapsto> entry1)\<rparr>))
                    else
                      let p1 = p\<lparr>pr_reassembly := (pr_reassembly p)(key := None)\<rparr>
                      in (case re_assemble entry1 of
                            Some payload \<Rightarrow> handle_payload lib ev payload peer p1
                          | None \<Rightarrow> Some p1))"

section \<open>Outgoing calls\<close>

definition call_ping_addr ::
  "net_lib \<Rightarrow> env \<Rightarrow> rust_str \<times> u16 \<Rightarrow> protocol \<Rightarrow> (bool \<times> bytes) \<times> protocol" where
  "call_ping_addr lib ev addr p =
     (case sock_addr_of addr of
        None \<Rightarrow> ((False, []), p)
      | Some sock_addr \<Rightarrow>
          let (resp, p1) = call lib ev sock_addr (Ping (node_id (pr_source_node p))) p
          in (case resp of
                Some (Pong sender_id) \<Rightarrow> ((True, sender_id), p1)
              | _ \<Rightarrow> ((False, []), p1)))"

text \<open>The socket address of a peer, or nothing when it has no address or its text does not parse.\<close>

definition peer_sock_addr :: "node \<Rightarrow> socket_addr option" where
  "peer_sock_addr peer = Option.bind (address peer) sock_addr_of"

definition drop_peer :: "node \<Rightarrow> protocol \<Rightarrow> protocol" where
  "drop_peer peer p = p\<lparr>pr_router := rt_remove_contact peer (pr_router p)\<rparr>"

definition call_store_rpc ::
  "net_lib \<Rightarrow> env \<Rightarrow> node \<Rightarrow> bytes \<Rightarrow> bytes \<Rightarrow> protocol \<Rightarrow> bool \<times> protocol" where
  "call_store_rpc lib ev peer key value p =
     (case peer_sock_addr peer of
        None \<Rightarrow> (False, p)
      | Some sock_addr \<Rightarrow>
          (case call lib ev sock_addr (Store (node_id (pr_source_node p)) key value) p of
             (Some (StoreResult ok), p1) \<Rightarrow> (ok, p1)
           | (_, p1) \<Rightarrow> (False, drop_peer peer p1)))"

definition call_update_rpc ::
  "net_lib \<Rightarrow> env \<Rightarrow> node \<Rightarrow> bytes \<Rightarrow> bytes \<Rightarrow> bytes \<Rightarrow> protocol \<Rightarrow> bool \<times> protocol" where
  "call_update_rpc lib ev peer key value auth_signature p =
     (case peer_sock_addr peer of
        None \<Rightarrow> (False, p)
      | Some sock_addr \<Rightarrow>
          (case call lib ev sock_addr (Update (node_id (pr_source_node p)) key value auth_signature) p of
             (Some (UpdateResult ok), p1) \<Rightarrow> (ok, p1)
           | (_, p1) \<Rightarrow> (False, drop_peer peer p1)))"

definition call_status_list_update_rpc ::
  "net_lib \<Rightarrow> env \<Rightarrow> node \<Rightarrow> bytes \<Rightarrow> bytes \<Rightarrow> protocol \<Rightarrow> bool \<times> protocol" where
  "call_status_list_update_rpc lib ev peer key value p =
     (case peer_sock_addr peer of
        None \<Rightarrow> (False, p)
      | Some sock_addr \<Rightarrow>
          (case call lib ev sock_addr (UpdateStatusList (node_id (pr_source_node p)) key value) p of
             (Some (UpdateStatusListResult ok), p1) \<Rightarrow> (ok, p1)
           | (_, p1) \<Rightarrow> (False, drop_peer peer p1)))"

definition call_delete_rpc ::
  "net_lib \<Rightarrow> env \<Rightarrow> node \<Rightarrow> bytes \<Rightarrow> bytes \<Rightarrow> bytes \<Rightarrow> protocol \<Rightarrow> bool \<times> protocol" where
  "call_delete_rpc lib ev peer key auth_signature delete_msg p =
     (case peer_sock_addr peer of
        None \<Rightarrow> (False, p)
      | Some sock_addr \<Rightarrow>
          (case call lib ev sock_addr (Delete (node_id (pr_source_node p)) key auth_signature delete_msg) p of
             (Some (DeleteResult ok), p1) \<Rightarrow> (ok, p1)
           | (_, p1) \<Rightarrow> (False, drop_peer peer p1)))"

definition call_leave_rpc :: "net_lib \<Rightarrow> env \<Rightarrow> node \<Rightarrow> protocol \<Rightarrow> protocol" where
  "call_leave_rpc lib ev peer p =
     (case peer_sock_addr peer of
        None \<Rightarrow> p
      | Some sock_addr \<Rightarrow> snd (call lib ev sock_addr (Leave (node_id (pr_source_node p))) p))"

definition call_ping_node :: "net_lib \<Rightarrow> env \<Rightarrow> node \<Rightarrow> protocol \<Rightarrow> protocol" where
  "call_ping_node lib ev n p =
     (case address n of
        None \<Rightarrow> p
      | Some addr \<Rightarrow>
          let ((ok, _), p1) = call_ping_addr lib ev addr p
          in if \<not> ok then drop_peer n p1 else p1)"

definition wire_tuples :: "wire_node list \<Rightarrow> (bytes \<times> rust_str option \<times> u16 option) list" where
  "wire_tuples ns = map (\<lambda>w. (wn_id w, wn_ip w, wn_port w)) ns"

definition call_find_node ::
  "net_lib \<Rightarrow> env \<Rightarrow> node \<Rightarrow> node \<Rightarrow> protocol \<Rightarrow> raw_response \<times> protocol" where
  "call_find_node lib ev peer target p =
     (case peer_sock_addr peer of
        None \<Rightarrow> ((False, Empty), p)
      | Some sock_addr \<Rightarrow>
          (case call lib ev sock_addr (FindNode (node_id (pr_source_node p)) (node_id target)) p of
             (Some (FindNodeResult ns), p1) \<Rightarrow>
               ((True, Nodes (wire_tuples ns)), spawn (WelcomeIfNew peer) p1)
           | (_, p1) \<Rightarrow> ((False, Empty), drop_peer peer p1)))"

definition call_find_value ::
  "net_lib \<Rightarrow> env \<Rightarrow> node \<Rightarrow> node \<Rightarrow> protocol \<Rightarrow> raw_response \<times> protocol" where
  "call_find_value lib ev peer target p =
     (case peer_sock_addr peer of
        None \<Rightarrow> ((False, Empty), p)
      | Some sock_addr \<Rightarrow>
          (case call lib ev sock_addr (FindValue (node_id (pr_source_node p)) (node_id target)) p of
             (Some (FindValueHit value), p1) \<Rightarrow> ((True, Value value), spawn (WelcomeIfNew peer) p1)
           | (Some (FindValueNodes ns), p1) \<Rightarrow>
               ((True, Nodes (wire_tuples ns)), spawn (WelcomeIfNew peer) p1)
           | (_, p1) \<Rightarrow> ((False, Empty), drop_peer peer p1)))"

definition call_store ::
  "net_lib \<Rightarrow> env \<Rightarrow> node \<Rightarrow> bytes \<Rightarrow> bytes \<Rightarrow> protocol \<Rightarrow> bool \<times> protocol" where
  "call_store lib ev peer key value p = call_store_rpc lib ev peer key value p"

section \<open>Refresh identifiers and spawned tasks\<close>

definition get_refresh_ids :: "env \<Rightarrow> protocol \<Rightarrow> bytes list" where
  "get_refresh_ids ev p =
     map (\<lambda>b. let r = ev_gen_range ev p (kb_lo b) (kb_hi b) in to_be_bytes 16 r @ replicate 4 0)
       (rt_lonely_buckets (pr_secs p) (pr_router p))"

fun run_task :: "net_lib \<Rightarrow> env \<Rightarrow> task \<Rightarrow> protocol \<Rightarrow> protocol option" where
  "run_task lib ev (WelcomeIfNew n) p = welcome_if_new ev n p"
| "run_task lib ev (CallPingNode n) p = Some (call_ping_node lib ev n p)"
| "run_task lib ev (CallStoreRpc n key value) p = Some (snd (call_store_rpc lib ev n key value p))"

end
