(* ===== verification/Protocol_Transport.thy ===== *)
theory Protocol_Transport
  imports Protocol
begin

text \<open>
  The transport of \<^verbatim>\<open>src/protocol.rs\<close>: what happens to the datagrams of a frame at the receiver, and
  how a response finds the call that waits for it.
\<close>

section \<open>Receiving the fragments of one message\<close>

definition handle_all ::
  "net_lib \<Rightarrow> env \<Rightarrow> socket_addr \<Rightarrow> bytes list \<Rightarrow> protocol \<Rightarrow> protocol option" where
  "handle_all lib ev peer ds p = foldl (\<lambda>q d. Option.bind q (handle_datagram lib ev d peer)) (Some p) ds"

lemma handle_all_snoc:
  "handle_all lib ev peer (ds @ [d]) p = Option.bind (handle_all lib ev peer ds p) (handle_datagram lib ev d peer)"
  by (simp add: handle_all_def)

text \<open>Dropping the expired entries of a reassembly map.\<close>

definition gc_map :: "instant \<Rightarrow> ('k \<rightharpoonup> reassembly_entry) \<Rightarrow> 'k \<rightharpoonup> reassembly_entry" where
  "gc_map now m k =
     (case m k of
        Some e \<Rightarrow> if elapsed now (re_created_at e) < REASSEMBLY_TTL then Some e else None
      | None \<Rightarrow> None)"

lemma gc_reassembly_eq: "gc_reassembly p = p\<lparr>pr_reassembly := gc_map (pr_now p) (pr_reassembly p)\<rparr>"
  unfolding gc_reassembly_def gc_map_def by (rule refl)

lemma gc_map_update: "re_created_at e = now \<Longrightarrow> gc_map now (m(k \<mapsto> e)) = (gc_map now m)(k \<mapsto> e)"
  by (rule ext) (simp add: gc_map_def elapsed_def REASSEMBLY_TTL_def duration_from_secs_def)

lemma gc_map_idem [simp]: "gc_map now (gc_map now m) = gc_map now m"
  by (rule ext) (simp add: gc_map_def split: option.split)

lemma gc_map_None: "m k = None \<Longrightarrow> gc_map now m k = None"
  by (simp add: gc_map_def)

text \<open>The state while some but not all fragments of the message are there.\<close>

definition awaiting :: "socket_addr \<times> u32 \<Rightarrow> reassembly_entry \<Rightarrow> protocol \<Rightarrow> protocol" where
  "awaiting key e p = p\<lparr>pr_reassembly := (gc_map (pr_now p) (pr_reassembly p))(key \<mapsto> e)\<rparr>"

lemma gc_awaiting:
  "re_created_at e = pr_now p \<Longrightarrow>
     gc_reassembly (p\<lparr>pr_reassembly := (pr_reassembly p)(key \<mapsto> e)\<rparr>) = awaiting key e p"
  by (simp add: awaiting_def gc_reassembly_eq gc_map_update)

lemma awaiting_again:
  "re_created_at e = pr_now p \<Longrightarrow> re_created_at e' = pr_now p \<Longrightarrow>
     gc_reassembly ((awaiting key e' p)\<lparr>pr_reassembly := (pr_reassembly (awaiting key e' p))(key \<mapsto> e)\<rparr>) = awaiting key e p"
  by (simp add: awaiting_def gc_reassembly_eq gc_map_update)

lemma awaiting_sel [simp]:
  "pr_now (awaiting key e p) = pr_now p" "pr_reassembly (awaiting key e p) key = Some e"
  by (simp_all add: awaiting_def)

lemma awaiting_done:
  assumes "pr_reassembly p key = None"
  shows "(awaiting key e p)\<lparr>pr_reassembly := (pr_reassembly (awaiting key e p))(key := None)\<rparr> = gc_reassembly p"
proof -
  have "(gc_map (pr_now p) (pr_reassembly p))(key := None) = gc_map (pr_now p) (pr_reassembly p)"
    by (rule ext) (simp add: gc_map_None [of _ key] assms)
  then show ?thesis by (simp add: awaiting_def gc_reassembly_eq)
qed

lemma re_receive_created: "re_created_at (re_receive d e) = re_created_at e"
  by (simp add: re_receive_def re_insert_chunks split: option.split)

lemma re_receive_total: "re_total (re_receive d e) = re_total e"
  by (simp add: re_receive_def re_insert_chunks split: option.split)

lemma fold_receive_frame:
  "re_created_at (fold re_receive ds e) = re_created_at e" "re_total (fold re_receive ds e) = re_total e"
  by (induction ds arbitrary: e) (simp_all add: re_receive_created re_receive_total)

text \<open>One fragment of the message, at an entry that has received \<open>ds\<close>.\<close>

lemma handle_fragment:
  assumes cs: "2 \<le> length cs" "length cs * FRAG_CHUNK_SIZE \<le> MAX_MESSAGE_SIZE"
    and d: "d \<in> set (fragments_of fid cs)" and ds: "set ds \<subseteq> set (fragments_of fid cs)"
    and e: "e = fold re_receive ds (re_new (pr_now p) (of_nat (length cs)))"
    and at: "(case pr_reassembly p (peer, fid) of Some e \<Rightarrow> e
      | None \<Rightarrow> re_new (pr_now p) (of_nat (length cs))) = e"
  shows "handle_datagram lib ev d peer p =
    (if set (ds @ [d]) = set (fragments_of fid cs)
     then handle_payload lib ev (concat cs) peer (p\<lparr>pr_reassembly := (pr_reassembly p)((peer, fid) := None)\<rparr>)
     else Some (gc_reassembly (p\<lparr>pr_reassembly := (pr_reassembly p)((peer, fid) \<mapsto> re_receive d e)\<rparr>)))"
proof -
  have le: "length cs \<le> 187" using cs(2) by (simp add: FRAG_CHUNK_SIZE_def MAX_MESSAGE_SIZE_def)
  then have le': "length cs \<le> 65535" by simp
  have tot: "unat (of_nat (length cs) :: u16) = length cs" by (rule unat_of_nat_u16 [OF le'])
  obtain i where i: "i < length cs" "d = fragments_of fid cs ! i" using d by (auto simp: in_set_conv_nth)
  have pf: "parse_fragment d = Some (\<lparr>fh_frag_id = fid, fh_index = of_nat i, fh_total = of_nat (length cs)\<rparr>, cs ! i)"
    unfolding i(2) by (rule parse_nth_fragment [OF le' i(1)])
  have rec: "snd (re_insert (of_nat i) (cs ! i) e) = re_receive d e" by (simp add: re_receive_def pf)
  define e1 where "e1 = fold re_receive (ds @ [d]) (re_new (pr_now p) (of_nat (length cs)))"
  have e1: "re_receive d e = e1" by (simp add: e1_def e)
  have sub: "set (ds @ [d]) \<subseteq> set (fragments_of fid cs)" using d ds by simp
  note res = reassembly_result [OF le' sub, of "pr_now p", folded e1_def, unfolded Let_def]
  have "length (re_chunks e) = length cs"
    using reassembly_result [OF le' ds, of "pr_now p", folded e, unfolded Let_def] tot
    by (simp add: re_inv_def e fold_receive_frame re_new_def)
  then have "fst (re_insert (of_nat i) (cs ! i) e) = (re_received e1 = re_total e1)"
    using i(1) le' rec e1 by (simp add: re_insert_def Let_def unat_of_nat_u16 split: if_splits)
  then have ins: "re_insert (of_nat i) (cs ! i) e = (set (ds @ [d]) = set (fragments_of fid cs), e1)"
    using rec e1 res by (simp add: prod_eq_iff)
  have ne1: "(of_nat (length cs) :: u16) \<noteq> 1" using tot cs(1) by (metis numeral_le_one_iff semiring_norm(69) unsigned_1)
  have te: "re_total e = of_nat (length cs)" by (simp add: e fold_receive_frame re_new_def)
  have at': "(case pr_reassembly p (peer, fid) of Some e \<Rightarrow> e | None \<Rightarrow> re_new (pr_now p)
      (fh_total \<lparr>fh_frag_id = fid, fh_index = of_nat i, fh_total = of_nat (length cs)\<rparr>)) = e"
    using at by (simp split: option.splits)
  have "handle_datagram lib ev d peer p =
      (if re_total e \<noteq> of_nat (length cs) then Some p
       else let (complete, entry1) = re_insert (of_nat i) (cs ! i) e
         in if \<not> complete then Some (gc_reassembly (p\<lparr>pr_reassembly := (pr_reassembly p)((peer, fid) \<mapsto> entry1)\<rparr>))
            else case re_assemble entry1 of
              Some payload \<Rightarrow> handle_payload lib ev payload peer (p\<lparr>pr_reassembly := (pr_reassembly p)((peer, fid) := None)\<rparr>)
            | None \<Rightarrow> Some (p\<lparr>pr_reassembly := (pr_reassembly p)((peer, fid) := None)\<rparr>))"
    using cs(2) ne1 tot by (simp add: handle_datagram_def pf at' Let_def split: prod.split)
  then show ?thesis using te ins res e1 by simp
qed

text \<open>
  All fragments of a list of chunks, each once and in any order: the last one to arrive hands the
  concatenation to the dispatcher, in the state without expired reassembly entries.
\<close>

lemma handle_all_prefix:
  assumes cs: "2 \<le> length cs" "length cs * FRAG_CHUNK_SIZE \<le> MAX_MESSAGE_SIZE"
    and free: "pr_reassembly p (peer, fid) = None"
    and ds: "set ds \<subset> set (fragments_of fid cs)" "ds \<noteq> []"
  shows "handle_all lib ev peer ds p =
    Some (awaiting (peer, fid) (fold re_receive ds (re_new (pr_now p) (of_nat (length cs)))) p)"
  using ds
proof (induction ds rule: rev_induct)
  case (snoc d ds)
  let ?e = "\<lambda>ds. fold re_receive ds (re_new (pr_now p) (of_nat (length cs)))"
  have created: "re_created_at (?e xs) = pr_now p" for xs by (simp add: fold_receive_frame re_new_def)
  have d: "d \<in> set (fragments_of fid cs)" "set ds \<subseteq> set (fragments_of fid cs)"
    and part: "set (ds @ [d]) \<noteq> set (fragments_of fid cs)" using snoc.prems by auto
  show ?case
  proof (cases "ds = []")
    case True
    have "handle_datagram lib ev d peer p =
        Some (gc_reassembly (p\<lparr>pr_reassembly := (pr_reassembly p)((peer, fid) \<mapsto> ?e [d])\<rparr>))"
      using handle_fragment [OF cs d(1), of "[]" "?e []" p peer lib ev] part True free by simp
    then show ?thesis using created [of "[d]"] True by (simp add: handle_all_def gc_awaiting)
  next
    case False
    then have IH: "handle_all lib ev peer ds p = Some (awaiting (peer, fid) (?e ds) p)"
      using snoc.IH snoc.prems(1) by auto
    let ?q = "awaiting (peer, fid) (?e ds) p"
    have "handle_datagram lib ev d peer ?q =
        Some (gc_reassembly (?q\<lparr>pr_reassembly := (pr_reassembly ?q)((peer, fid) \<mapsto> ?e (ds @ [d]))\<rparr>))"
      using handle_fragment [OF cs d, of "?e ds" ?q peer lib ev] part by simp
    then show ?thesis
      using created [of "ds @ [d]"] created [of ds] by (simp add: handle_all_snoc IH awaiting_again)
  qed
qed simp

lemma handle_all_fragments:
  assumes cs: "2 \<le> length cs" "length cs * FRAG_CHUNK_SIZE \<le> MAX_MESSAGE_SIZE"
    and free: "pr_reassembly p (peer, fid) = None"
    and ds: "mset ds = mset (fragments_of fid cs)"
  shows "handle_all lib ev peer ds p = handle_payload lib ev (concat cs) peer (gc_reassembly p)"
proof -
  have le: "length cs \<le> 65535" using cs(2) by (simp add: FRAG_CHUNK_SIZE_def MAX_MESSAGE_SIZE_def)
  have set: "set ds = set (fragments_of fid cs)" using ds by (rule mset_eq_setD)
  have len: "length ds = length cs" using arg_cong [OF ds, of size] by simp
  have "distinct ds" using fragments_of_distinct [OF le] ds mset_eq_imp_distinct_iff by metis
  have "ds \<noteq> []" using len cs(1) by auto
  then obtain es d where ds_eq: "ds = es @ [d]" by (metis rev_exhaust)
  have "es \<noteq> []" using len cs(1) ds_eq by auto
  have "d \<notin> set es" using \<open>distinct ds\<close> ds_eq by simp
  then have part: "set es \<subset> set (fragments_of fid cs)" using set ds_eq by auto
  let ?e = "fold re_receive es (re_new (pr_now p) (of_nat (length cs)))"
  let ?q = "awaiting (peer, fid) ?e p"
  have "handle_all lib ev peer es p = Some ?q"
    by (rule handle_all_prefix [OF cs free part \<open>es \<noteq> []\<close>])
  moreover have "handle_datagram lib ev d peer ?q =
      handle_payload lib ev (concat cs) peer (?q\<lparr>pr_reassembly := (pr_reassembly ?q)((peer, fid) := None)\<rparr>)"
    using handle_fragment [OF cs, of d fid es ?e ?q peer lib ev] set ds_eq part by auto
  ultimately show ?thesis by (simp add: ds_eq handle_all_snoc awaiting_done [OF free])
qed

lemma handle_single: "length payload \<le> FRAG_CHUNK_SIZE \<Longrightarrow>
    encode_fragments fid payload = [fragment_header fid 0 1 @ payload] \<and>
    handle_datagram lib ev (fragment_header fid 0 1 @ payload) peer p = handle_payload lib ev payload peer p"
proof -
  assume "length payload \<le> FRAG_CHUNK_SIZE"
  then have "frag_chunks payload = [payload]" by (simp add: frag_chunks_def chunks_Cons)
  moreover have "parse_fragment (fragment_header fid 0 1 @ payload) =
      Some (\<lparr>fh_frag_id = fid, fh_index = 0, fh_total = 1\<rparr>, payload)"
    by (rule parse_fragment_header) simp
  ultimately show ?thesis
    by (simp add: encode_fragments_eq fragments_of_def handle_datagram_def)
qed

section \<open>Sending\<close>

lemma send_datagrams_all:
  "(\<forall>q d. ev_send_ok ev q addr d) \<Longrightarrow>
     send_datagrams ev addr dgs p = (True, p\<lparr>pr_sent := pr_sent p @ map (Pair addr) dgs\<rparr>)"
  by (induction dgs arbitrary: p) simp_all

lemma send_frame_all:
  assumes "\<forall>q d. ev_send_ok ev q addr d" and "nl_serialize lib f = Some bs" and "length bs \<le> MAX_MESSAGE_SIZE"
  shows "fst (send_frame lib ev addr f p) \<and>
    pr_sent (snd (send_frame lib ev addr f p)) =
      pr_sent p @ map (Pair addr) (encode_fragments (pr_next_frag_id p) bs)"
  using assms by (simp add: send_frame_def next_frag_id_val_def send_datagrams_all)

lemma frag_chunks_single: "length payload \<le> FRAG_CHUNK_SIZE \<Longrightarrow> frag_chunks payload = [payload]"
  by (simp add: frag_chunks_def chunks_Cons)

lemma length_frag_chunks_ge2: "FRAG_CHUNK_SIZE < length payload \<Longrightarrow> 2 \<le> length (frag_chunks payload)"
  using chunks_Cons [of "drop FRAG_CHUNK_SIZE payload" FRAG_CHUNK_SIZE]
  by (auto simp: frag_chunks_def chunks_Cons [of payload])

lemma frag_chunks_bound: "length payload \<le> n * FRAG_CHUNK_SIZE \<Longrightarrow> 0 < n \<Longrightarrow> length (frag_chunks payload) \<le> n"
  by (auto simp: frag_chunks_def length_chunks div_ceil_le)

text \<open>A decoded request is dispatched and its response, if any, is sent back.\<close>

lemma handle_payload_request:
  assumes "nl_deserialize lib bs = Some f" and "fr_is_request f"
  shows "handle_payload lib ev bs peer p =
    map_option (\<lambda>(r, p1). case r of
        None \<Rightarrow> p1
      | Some resp \<Rightarrow> snd (send_frame lib ev peer \<lparr>fr_msg_id = fr_msg_id f, fr_is_request = False, fr_message = resp\<rparr> p1))
      (dispatch_request lib ev (fr_message f) peer p)"
  using assms by (auto simp: handle_payload_def split: option.split)

text \<open>
  The datagrams of a frame, in any order, hand its bytes to the dispatcher. Expired reassembly
  entries are removed on the way when there is more than one datagram.
\<close>

abbreviation reassembled :: "bytes \<Rightarrow> protocol \<Rightarrow> protocol" where
  "reassembled bs q \<equiv> if length bs \<le> FRAG_CHUNK_SIZE then q else gc_reassembly q"

lemma frame_delivered:
  assumes "length bs \<le> 187 * FRAG_CHUNK_SIZE" and "mset ds = mset (encode_fragments fid bs)"
    and "pr_reassembly q (peer, fid) = None"
  shows "handle_all lib ev peer ds q = handle_payload lib ev bs peer (reassembled bs q)"
proof (cases "length bs \<le> FRAG_CHUNK_SIZE")
  case True
  then have "ds = [fragment_header fid 0 1 @ bs]" using handle_single assms(2) by force
  then show ?thesis using handle_single [OF True, of fid lib ev peer q] True by (simp add: handle_all_def)
next
  case False
  then have ge: "2 \<le> length (frag_chunks bs)" by (simp add: length_frag_chunks_ge2)
  have le: "length (frag_chunks bs) \<le> 187" using frag_chunks_bound [OF assms(1)] by simp
  then have "length (frag_chunks bs) * FRAG_CHUNK_SIZE \<le> MAX_MESSAGE_SIZE"
    by (simp add: FRAG_CHUNK_SIZE_def MAX_MESSAGE_SIZE_def)
  from handle_all_fragments [OF ge this assms(3), of ds lib ev] show ?thesis
    using assms(2) False by (simp add: encode_fragments_eq concat_frag_chunks)
qed

section \<open>Properties of the transport\<close>

text \<open>
  C13. A request of at most 187 fragments that one node sends is dispatched exactly once by the node
  that receives its datagrams, in whatever order they arrive: the effect at the receiver is that of
  dispatching the message that was sent and sending the response back.
\<close>

theorem request_delivered:
  assumes "\<forall>q d. ev_send_ok ev q addr d" and "nl_serialize lib f = Some bs"
    and "nl_deserialize lib bs = Some f" and "fr_is_request f" and "length bs \<le> 187 * FRAG_CHUNK_SIZE"
    and "send_frame lib ev addr f p = (ok, p')" and "pr_sent p' = pr_sent p @ map (Pair addr) sent"
    and "mset ds = mset sent" and "pr_reassembly q (peer, pr_next_frag_id p) = None"
  shows "ok \<and> handle_all lib ev' peer ds q =
    map_option (\<lambda>(r, q1). case r of
        None \<Rightarrow> q1
      | Some resp \<Rightarrow> snd (send_frame lib ev' peer \<lparr>fr_msg_id = fr_msg_id f, fr_is_request = False, fr_message = resp\<rparr> q1))
      (dispatch_request lib ev' (fr_message f) peer (if length sent = 1 then q else gc_reassembly q))"
proof -
  let ?fid = "pr_next_frag_id p"
  have max: "length bs \<le> MAX_MESSAGE_SIZE"
    using assms(5) by (simp add: FRAG_CHUNK_SIZE_def MAX_MESSAGE_SIZE_def)
  have ok: ok and "map (Pair addr) sent = map (Pair addr) (encode_fragments ?fid bs)"
    using send_frame_all [OF assms(1,2) max, of p] assms(6,7) by simp_all
  then have sent: "sent = encode_fragments ?fid bs" by (auto simp: inj_on_def dest!: map_injective)
  have "length sent = 1 \<longleftrightarrow> length bs \<le> FRAG_CHUNK_SIZE"
    using length_frag_chunks_ge2 [of bs] frag_chunks_single [of bs] unfolding sent encode_fragments_eq
    by (cases "length bs \<le> FRAG_CHUNK_SIZE") simp_all
  then have "handle_all lib ev' peer ds q = handle_payload lib ev' bs peer (if length sent = 1 then q else gc_reassembly q)"
    using frame_delivered [OF assms(5) _ assms(9), of ds lib ev'] assms(8) sent by simp
  then show ?thesis using ok handle_payload_request [OF assms(3,4)] by simp
qed

text \<open>
  C40. Messages of 261801 to 262144 bytes are lost: the sender accepts such a frame and sends its 188
  fragments successfully, but no receiver in any state does anything with any of them.
\<close>

theorem large_frame_lost:
  assumes "\<forall>q d. ev_send_ok ev q addr d" and "nl_serialize lib f = Some bs"
    and "187 * FRAG_CHUNK_SIZE < length bs" and "length bs \<le> MAX_MESSAGE_SIZE"
  shows "fst (send_frame lib ev addr f p) \<and>
    (\<forall>d \<in> set (drop (length (pr_sent p)) (pr_sent (snd (send_frame lib ev addr f p)))).
       handle_datagram lib' ev' (snd d) peer q = Some q) \<and>
    length (pr_sent (snd (send_frame lib ev addr f p))) = length (pr_sent p) + 188"
proof -
  let ?cs = "frag_chunks bs" and ?fid = "pr_next_frag_id p"
  note sent = send_frame_all [OF assms(1,2,4), of p]
  have "bs \<noteq> []" using assms(3) by auto
  moreover have lo: "261800 < length bs" "length bs \<le> 262144"
    using assms(3,4) by (simp_all add: FRAG_CHUNK_SIZE_def MAX_MESSAGE_SIZE_def)
  then have quot: "length bs div 1400 = 187" by (intro div_nat_eqI) simp_all
  then have "0 < length bs mod 1400" using lo(1) div_mult_mod_eq [of "length bs" 1400] by linarith
  ultimately have len: "length ?cs = 188"
    using quot by (simp add: frag_chunks_def length_chunks div_ceil_def FRAG_CHUNK_SIZE_def)
  have "handle_datagram lib' ev' d peer q = Some q" if d: "d \<in> set (encode_fragments ?fid bs)" for d
  proof -
    obtain i where i: "i < length ?cs" "d = fragments_of ?fid ?cs ! i"
      using d by (auto simp: in_set_conv_nth encode_fragments_eq)
    have "parse_fragment d = Some (\<lparr>fh_frag_id = ?fid, fh_index = of_nat i, fh_total = of_nat (length ?cs)\<rparr>, ?cs ! i)"
      unfolding i(2) using i(1) len by (intro parse_nth_fragment) simp_all
    then show ?thesis
      by (simp add: handle_datagram_def len FRAG_CHUNK_SIZE_def MAX_MESSAGE_SIZE_def)
  qed
  with sent len show ?thesis by auto
qed

text \<open>A node and an environment for concrete runs: sending always works and nothing happens while waiting.\<close>

definition plain_env :: env where
  "plain_env = \<lparr>ev_send_ok = (\<lambda>_ _ _. True), ev_keys = (\<lambda>_. []), ev_gen_range = (\<lambda>_ lo _. lo), ev_wait = (\<lambda>p. p)\<rparr>"

lemma plain_env_sel [simp]:
  "ev_send_ok plain_env p a d" "ev_keys plain_env s = []" "ev_gen_range plain_env p lo hi = lo"
  "ev_wait plain_env p = p"
  by (simp_all add: plain_env_def)

definition blank_node :: protocol where
  "blank_node = pr_new 0 0 (from_id (replicate 20 0)) (st_new 0) 1
     \<lparr>sh_signature = (\<lambda>_. Inr False), sh_update = (\<lambda>_ _ _. Inr False), sh_delete = (\<lambda>_ _ _. Inr False),
      sh_issuer = (\<lambda>_. Inr False)\<rparr> None"

text \<open>A codec that knows one frame.\<close>

definition one_frame_lib :: "frame \<Rightarrow> bytes \<Rightarrow> net_lib" where
  "one_frame_lib f bs =
     \<lparr>nl_sha1 = (\<lambda>x. x), nl_sha256 = (\<lambda>x. x), nl_moka_get = moka_full, nl_serialize = (\<lambda>_. Some bs),
      nl_deserialize = (\<lambda>x. if x = bs then Some f else None)\<rparr>"

lemma one_frame_lib_sel [simp]:
  "nl_serialize (one_frame_lib f bs) f = Some bs" "nl_deserialize (one_frame_lib f bs) bs = Some f"
  by (simp_all add: one_frame_lib_def)

abbreviation leave_frame :: frame where
  "leave_frame \<equiv> \<lparr>fr_msg_id = 5, fr_is_request = True, fr_message = Leave (replicate 20 1)\<rparr>"

theorem request_delivered_witness:
  "handle_all (one_frame_lib leave_frame (replicate 3000 1)) plain_env (V4 (127, 0, 0, 1) 9)
     (rev (encode_fragments 0 (replicate 3000 1))) blank_node =
   Some (rpc_leave (replicate 20 1) (sa_ip_string (V4 (127, 0, 0, 1) 9), 9) (gc_reassembly blank_node))"
proof -
  let ?bs = "replicate 3000 1" and ?f = leave_frame and ?a = "V4 (127, 0, 0, 1) 9"
  let ?lib = "one_frame_lib ?f ?bs"
  have bs: "length ?bs \<le> 187 * FRAG_CHUNK_SIZE" "length ?bs \<le> MAX_MESSAGE_SIZE"
    by (simp_all add: FRAG_CHUNK_SIZE_def MAX_MESSAGE_SIZE_def)
  obtain ok p' where s: "send_frame ?lib plain_env ?a ?f blank_node = (ok, p')" by fastforce
  have sent: "pr_sent p' = pr_sent blank_node @ map (Pair ?a) (encode_fragments 0 ?bs)"
    using send_frame_all [of plain_env ?a ?lib ?f ?bs blank_node] bs(2) s
    by (simp add: blank_node_def pr_new_def)
  have "length (encode_fragments 0 ?bs) = 3"
    by (simp add: frag_chunks_def length_chunks div_ceil_def FRAG_CHUNK_SIZE_def)
  then show ?thesis
    using request_delivered [of plain_env ?a ?lib ?f ?bs blank_node ok p' "encode_fragments 0 ?bs"
        "rev (encode_fragments 0 ?bs)" blank_node ?a plain_env] bs(1) s sent
    by (simp add: blank_node_def pr_new_def)
qed

theorem large_frame_lost_witness:
  "fst (send_frame (one_frame_lib leave_frame (replicate 262000 1)) plain_env (V4 (127, 0, 0, 1) 9) leave_frame blank_node)"
  using large_frame_lost [of plain_env "V4 (127, 0, 0, 1) 9" "one_frame_lib leave_frame (replicate 262000 1)"
      leave_frame "replicate 262000 1" blank_node]
  by (simp add: FRAG_CHUNK_SIZE_def MAX_MESSAGE_SIZE_def)

text \<open>
  The size limit does not hold for reassembled messages: the receiver bounds the number of
  fragments but not their length, so five datagrams that fit the receive buffer of 65536 bytes make
  it assemble and dispatch a payload longer than the limit of 262144 bytes.
\<close>

theorem reassembled_over_limit:
  "\<exists>ds payload. length ds = 5 \<and> list_all (\<lambda>d. length d \<le> 65536) ds \<and>
     MAX_MESSAGE_SIZE < length payload \<and>
     handle_all lib ev peer ds blank_node = handle_payload lib ev payload peer (gc_reassembly blank_node)"
proof -
  let ?cs = "replicate 5 (replicate 65000 0) :: bytes list"
  let ?ds = "fragments_of 0 ?cs"
  have "length (?ds ! i) \<le> 65536" if "i < length ?ds" for i
  proof -
    have "length (?ds ! i) = FRAG_HEADER_LEN + length (?cs ! i)" using that by (simp add: nth_fragments_of)
    also have "\<dots> = FRAG_HEADER_LEN + 65000" using that by simp
    finally show ?thesis by (simp add: FRAG_HEADER_LEN_def)
  qed
  then have "list_all (\<lambda>d. length d \<le> 65536) ?ds" by (simp add: list_all_length)
  moreover have "length (concat ?cs) = 325000" by (simp add: length_concat sum_list_replicate)
  then have "MAX_MESSAGE_SIZE < length (concat ?cs)" by (simp add: MAX_MESSAGE_SIZE_def)
  moreover have "handle_all lib ev peer ?ds blank_node = handle_payload lib ev (concat ?cs) peer (gc_reassembly blank_node)"
    by (rule handle_all_fragments [where fid = 0])
      (simp_all add: FRAG_CHUNK_SIZE_def MAX_MESSAGE_SIZE_def blank_node_def pr_new_def)
  moreover have "length ?ds = 5" by simp
  ultimately show ?thesis by blast
qed

section \<open>Responses\<close>

lemma call_start_frame:
  "pr_pending (snd (send_frame lib ev addr f p)) = pr_pending p"
  "pr_inbox (snd (send_frame lib ev addr f p)) = pr_inbox p"
  "pr_next_chan (snd (send_frame lib ev addr f p)) = pr_next_chan p"
proof -
  have "pr_pending (snd (send_datagrams ev addr dgs q)) = pr_pending q \<and>
      pr_inbox (snd (send_datagrams ev addr dgs q)) = pr_inbox q \<and>
      pr_next_chan (snd (send_datagrams ev addr dgs q)) = pr_next_chan q" for dgs q
    by (induction ev addr dgs q rule: send_datagrams.induct) simp_all
  then show "pr_pending (snd (send_frame lib ev addr f p)) = pr_pending p"
    "pr_inbox (snd (send_frame lib ev addr f p)) = pr_inbox p"
    "pr_next_chan (snd (send_frame lib ev addr f p)) = pr_next_chan p"
    by (simp_all add: send_frame_def next_frag_id_val_def split: option.split)
qed

lemma handle_payload_response:
  assumes "nl_deserialize lib bs = Some f" and "\<not> fr_is_request f"
  shows "\<exists>q. handle_payload lib ev bs peer p = Some q \<and>
    pr_pending q = (pr_pending p)(fr_msg_id f := None) \<and>
    pr_inbox q = (case pr_pending p (fr_msg_id f) of
        Some chan \<Rightarrow> (pr_inbox p)(chan \<mapsto> fr_message f) | None \<Rightarrow> pr_inbox p)"
proof -
  define p1 where "p1 = (case fr_message f of
      Pong sender_id \<Rightarrow> spawn (WelcomeIfNew (new_node sender_id (Some (sa_ip_string peer)) (Some (sa_port peer)))) p
    | _ \<Rightarrow> p)"
  have same: "pr_pending p1 = pr_pending p" "pr_inbox p1 = pr_inbox p"
    by (simp_all add: p1_def spawn_def split: rpc_message.split)
  have "handle_payload lib ev bs peer p = Some (case pr_pending p1 (fr_msg_id f) of
      Some chan \<Rightarrow> p1\<lparr>pr_pending := (pr_pending p1)(fr_msg_id f := None), pr_inbox := (pr_inbox p1)(chan \<mapsto> fr_message f)\<rparr>
    | None \<Rightarrow> p1)"
    using assms by (simp add: handle_payload_def Let_def p1_def [symmetric])
  then show ?thesis using same by (auto simp: fun_upd_idem split: option.split)
qed

text \<open>
  C24. A call receives the first response frame with its message number: after a request was sent,
  the first such frame, from whatever address it comes, is what the waiting call returns, and
  further frames with that number, before the call resumes, change nothing for it.
\<close>

theorem first_response_wins:
  assumes "call_start lib ev addr m p = (Some (msg_id, chan), p1)"
    and "nl_deserialize lib bs = Some f" and "\<not> fr_is_request f" and "fr_msg_id f = msg_id"
    and "nl_deserialize lib bs' = Some f'" and "\<not> fr_is_request f'" and "fr_msg_id f' = msg_id"
  shows "\<exists>p2 p3. handle_payload lib ev bs peer p1 = Some p2 \<and> handle_payload lib ev bs' peer' p2 = Some p3 \<and>
    fst (call_finish msg_id chan p2) = Some (fr_message f) \<and>
    fst (call_finish msg_id chan p3) = Some (fr_message f) \<and> pr_pending p3 msg_id = None"
proof -
  have "pr_pending p1 msg_id = Some chan"
    using assms(1) by (auto simp: call_start_def next_id_def Let_def split_def call_start_frame split: if_splits)
  then obtain p2 where p2: "handle_payload lib ev bs peer p1 = Some p2" "pr_pending p2 msg_id = None"
    "pr_inbox p2 chan = Some (fr_message f)"
    using handle_payload_response [OF assms(2,3), of ev peer p1] assms(4) by auto
  moreover obtain p3 where "handle_payload lib ev bs' peer' p2 = Some p3" "pr_pending p3 msg_id = None"
    "pr_inbox p3 chan = Some (fr_message f)"
    using handle_payload_response [OF assms(5,6), of ev peer' p2] assms(7) p2(2,3) by auto
  ultimately show ?thesis by (auto simp: call_finish_def)
qed

theorem first_response_wins_witness:
  "\<exists>p1 p2. call_start (one_frame_lib \<lparr>fr_msg_id = 0, fr_is_request = False, fr_message = Pong (replicate 20 3)\<rparr> [1])
      plain_env (V4 (127, 0, 0, 1) 9) (Ping []) blank_node = (Some (0, 0), p1) \<and>
    handle_payload (one_frame_lib \<lparr>fr_msg_id = 0, fr_is_request = False, fr_message = Pong (replicate 20 3)\<rparr> [1])
      plain_env [1] (V4 (10, 0, 0, 1) 7) p1 = Some p2 \<and>
    fst (call_finish 0 0 p2) = Some (Pong (replicate 20 3))"
proof -
  let ?f = "\<lparr>fr_msg_id = 0, fr_is_request = False, fr_message = Pong (replicate 20 3)\<rparr>"
  let ?lib = "one_frame_lib ?f [1]"
  obtain r p1 where c: "call_start ?lib plain_env (V4 (127, 0, 0, 1) 9) (Ping []) blank_node = (r, p1)" by fastforce
  then have "r = Some (0, 0)"
    by (simp add: call_start_def next_id_def send_frame_def one_frame_lib_def next_frag_id_val_def send_datagrams_all
        MAX_MESSAGE_SIZE_def blank_node_def pr_new_def)
  with c have start: "call_start ?lib plain_env (V4 (127, 0, 0, 1) 9) (Ping []) blank_node = (Some (0, 0), p1)" by simp
  from first_response_wins [OF start, of "[1]" ?f "[1]" ?f "V4 (10, 0, 0, 1) 7" "V4 (10, 0, 0, 1) 7"] start
  show ?thesis by auto
qed

end
