(* ===== verification/Protocol_Safety.thy ===== *)
theory Protocol_Safety
  imports Protocol_Transport
begin

text \<open>
  What every reachable state of \<^verbatim>\<open>src/protocol.rs\<close> satisfies, whatever datagrams arrive and in
  whatever order the spawned tasks run: the invariant \<open>pr_inv\<close>, its preservation by every
  operation, the step relation \<open>pr_step\<close>, and the properties of the stored records.
\<close>

section \<open>Assumptions on the libraries\<close>

fun wf_message :: "rpc_message \<Rightarrow> bool" where
  "wf_message (Ping i) \<longleftrightarrow> length i = ID_LEN"
| "wf_message (Pong i) \<longleftrightarrow> length i = ID_LEN"
| "wf_message (Store i k v) \<longleftrightarrow> length i = ID_LEN \<and> length k = ID_LEN"
| "wf_message (Update i k v a) \<longleftrightarrow> length i = ID_LEN \<and> length k = ID_LEN"
| "wf_message (UpdateStatusList i k v) \<longleftrightarrow> length i = ID_LEN \<and> length k = ID_LEN"
| "wf_message (Delete i k a m) \<longleftrightarrow> length i = ID_LEN \<and> length k = ID_LEN"
| "wf_message (FindNode i k) \<longleftrightarrow> length i = ID_LEN \<and> length k = ID_LEN"
| "wf_message (FindNodeResult ns) \<longleftrightarrow> (\<forall>w \<in> set ns. length (wn_id w) = ID_LEN)"
| "wf_message (FindValue i k) \<longleftrightarrow> length i = ID_LEN \<and> length k = ID_LEN"
| "wf_message (FindValueNodes ns) \<longleftrightarrow> (\<forall>w \<in> set ns. length (wn_id w) = ID_LEN)"
| "wf_message (Leave i) \<longleftrightarrow> length i = ID_LEN"
| "wf_message _ \<longleftrightarrow> True"

text \<open>
  Decoding yields messages of the declared type, whose identifiers are arrays of twenty bytes, and
  the cache returns only what was put into it.
\<close>

definition lib_ok :: "net_lib \<Rightarrow> bool" where
  "lib_ok lib \<longleftrightarrow>
     moka_sound (nl_moka_get lib) \<and>
     (\<forall>payload f. nl_deserialize lib payload = Some f \<longrightarrow> wf_message (fr_message f))"

lemma lib_okD:
  assumes "lib_ok lib"
  shows "moka_sound (nl_moka_get lib)"
    and "nl_deserialize lib payload = Some f \<Longrightarrow> wf_message (fr_message f)"
  using assms unfolding lib_ok_def by blast+

section \<open>The invariant\<close>

fun wf_task :: "task \<Rightarrow> bool" where
  "wf_task (WelcomeIfNew n) \<longleftrightarrow> wf_node n"
| "wf_task (CallPingNode n) \<longleftrightarrow> wf_node n"
| "wf_task (CallStoreRpc n k v) \<longleftrightarrow> wf_node n"

definition reassembly_ok :: "(socket_addr \<times> u32 \<rightharpoonup> reassembly_entry) \<Rightarrow> bool" where
  "reassembly_ok m \<longleftrightarrow>
     (\<forall>k e. m k = Some e \<longrightarrow>
        re_inv e \<and> re_total e \<noteq> 0 \<and> unat (re_total e) * FRAG_CHUNK_SIZE \<le> MAX_MESSAGE_SIZE)"

text \<open>
  Channels are allocated in order; a channel waits under at most one message number, and not any
  more once its message has arrived.
\<close>

definition channels_ok :: "(u32 \<rightharpoonup> nat) \<Rightarrow> (nat \<rightharpoonup> rpc_message) \<Rightarrow> nat \<Rightarrow> bool" where
  "channels_ok pending inbox n \<longleftrightarrow>
     (\<forall>i c. pending i = Some c \<longrightarrow> c < n \<and> inbox c = None) \<and>
     (\<forall>i j c. pending i = Some c \<longrightarrow> pending j = Some c \<longrightarrow> i = j) \<and>
     (\<forall>c \<in> dom inbox. c < n)"

text \<open>
  A record that was accepted, or, with a signature cache, one that has the SHA-256 value of a
  record that was accepted.
\<close>

definition accepted :: "net_lib \<Rightarrow> sig_handler \<Rightarrow> bool \<Rightarrow> bytes \<Rightarrow> bool" where
  "accepted lib h cd v \<longleftrightarrow>
     (\<exists>w. (w = v \<or> cd \<and> nl_sha256 lib w = nl_sha256 lib v) \<and>
          (sh_signature h w = Inr True \<or> sh_issuer h w = Inr True))"

definition cache_valid :: "net_lib \<Rightarrow> sig_handler \<Rightarrow> signature_cache option \<Rightarrow> bool" where
  "cache_valid lib h cache \<longleftrightarrow>
     (case cache of
        None \<Rightarrow> True
      | Some c \<Rightarrow> cache_ok (nl_sha256 lib) (\<lambda>v. sh_signature h v = Inr True \<or> sh_issuer h v = Inr True) c)"

definition pr_inv :: "net_lib \<Rightarrow> sig_handler \<Rightarrow> node \<Rightarrow> bool \<Rightarrow> protocol \<Rightarrow> bool" where
  "pr_inv lib h self cd p \<longleftrightarrow>
     pr_signature_handler p = h \<and> pr_source_node p = self \<and>
     rt_inv (pr_router p) \<and> rt_node (pr_router p) = self \<and>
     list_all wf_task (pr_tasks p) \<and> reassembly_ok (pr_reassembly p) \<and>
     channels_ok (pr_pending p) (pr_inbox p) (pr_next_chan p) \<and>
     fs.keeps (\<lambda>k. accepted lib h cd) (pr_storage p) \<and> cache_valid lib h (pr_sig_cache p) \<and>
     (pr_sig_cache p \<noteq> None) = cd"

lemma pr_invD:
  assumes "pr_inv lib h self cd p"
  shows "pr_signature_handler p = h" "pr_source_node p = self" "rt_inv (pr_router p)"
    "rt_node (pr_router p) = self" "list_all wf_task (pr_tasks p)" "reassembly_ok (pr_reassembly p)"
    "channels_ok (pr_pending p) (pr_inbox p) (pr_next_chan p)"
    "fs.keeps (\<lambda>k. accepted lib h cd) (pr_storage p)" "cache_valid lib h (pr_sig_cache p)"
    "(pr_sig_cache p \<noteq> None) = cd"
  using assms unfolding pr_inv_def by blast+

section \<open>Updates that keep the invariant\<close>

lemma pr_inv_irrelevant [simp]:
  "pr_inv lib h self cd (p\<lparr>pr_sent := x1\<rparr>) = pr_inv lib h self cd p"
  "pr_inv lib h self cd (p\<lparr>pr_next_msg_id := x2\<rparr>) = pr_inv lib h self cd p"
  "pr_inv lib h self cd (p\<lparr>pr_next_frag_id := x3\<rparr>) = pr_inv lib h self cd p"
  "pr_inv lib h self cd (p\<lparr>pr_invalid_sig_strikes := x4\<rparr>) = pr_inv lib h self cd p"
  "pr_inv lib h self cd (p\<lparr>pr_now := x5\<rparr>) = pr_inv lib h self cd p"
  "pr_inv lib h self cd (p\<lparr>pr_secs := x6\<rparr>) = pr_inv lib h self cd p"
  by (simp_all add: pr_inv_def)

lemma spawn_sel [simp, state_simps]:
  "pr_router (spawn t p) = pr_router p" "pr_storage (spawn t p) = pr_storage p"
  "pr_source_node (spawn t p) = pr_source_node p"
  "pr_signature_handler (spawn t p) = pr_signature_handler p"
  "pr_sig_cache (spawn t p) = pr_sig_cache p"
  "pr_invalid_sig_strikes (spawn t p) = pr_invalid_sig_strikes p"
  "pr_pending (spawn t p) = pr_pending p" "pr_next_msg_id (spawn t p) = pr_next_msg_id p"
  "pr_next_frag_id (spawn t p) = pr_next_frag_id p" "pr_reassembly (spawn t p) = pr_reassembly p"
  "pr_next_chan (spawn t p) = pr_next_chan p" "pr_inbox (spawn t p) = pr_inbox p"
  "pr_tasks (spawn t p) = pr_tasks p @ [t]" "pr_sent (spawn t p) = pr_sent p"
  "pr_now (spawn t p) = pr_now p" "pr_secs (spawn t p) = pr_secs p"
  by (simp_all add: spawn_def)

lemma pr_inv_spawn [wf_intros]: "pr_inv lib h self cd p \<Longrightarrow> wf_task t \<Longrightarrow> pr_inv lib h self cd (spawn t p)"
  by (simp add: pr_inv_def)

lemma pr_inv_router:
  "pr_inv lib h self cd p \<Longrightarrow> rt_inv rt \<Longrightarrow> rt_node rt = self \<Longrightarrow> pr_inv lib h self cd (p\<lparr>pr_router := rt\<rparr>)"
  by (simp add: pr_inv_def)

lemma pr_inv_storage:
  "pr_inv lib h self cd p \<Longrightarrow> fs.keeps (\<lambda>k. accepted lib h cd) s \<Longrightarrow> pr_inv lib h self cd (p\<lparr>pr_storage := s\<rparr>)"
  by (simp add: pr_inv_def)

lemma pr_inv_cache:
  "pr_inv lib h self cd p \<Longrightarrow> cache_valid lib h c \<Longrightarrow> (c \<noteq> None) = cd \<Longrightarrow>
     pr_inv lib h self cd (p\<lparr>pr_sig_cache := c\<rparr>)"
  by (simp add: pr_inv_def)

lemma pr_inv_reassembly:
  "pr_inv lib h self cd p \<Longrightarrow> reassembly_ok m \<Longrightarrow> pr_inv lib h self cd (p\<lparr>pr_reassembly := m\<rparr>)"
  by (simp add: pr_inv_def)

lemma pr_inv_tasks:
  "pr_inv lib h self cd p \<Longrightarrow> list_all wf_task ts \<Longrightarrow> pr_inv lib h self cd (p\<lparr>pr_tasks := ts\<rparr>)"
  by (simp add: pr_inv_def)

lemma channels_ok_forget: "channels_ok pending inbox n \<Longrightarrow> channels_ok (pending(i := None)) inbox n"
  by (auto simp: channels_ok_def)

lemma channels_ok_new:
  "channels_ok pending inbox n \<Longrightarrow> channels_ok (pending(i \<mapsto> n)) inbox (n + 1)"
  by (fastforce simp: channels_ok_def dom_def less_Suc_eq)

lemma channels_ok_deliver:
  "channels_ok pending inbox n \<Longrightarrow> pending i = Some c \<Longrightarrow>
     channels_ok (pending(i := None)) (inbox(c \<mapsto> m)) n"
  by (auto simp: channels_ok_def)

lemma channels_ok_take: "channels_ok pending inbox n \<Longrightarrow> channels_ok pending (inbox(c := None)) n"
  by (auto simp: channels_ok_def)

lemma pr_inv_drop_peer [wf_intros]: "pr_inv lib h self cd p \<Longrightarrow> pr_inv lib h self cd (drop_peer n p)"
  unfolding drop_peer_def
  by (rule pr_inv_router) (auto dest: pr_invD simp: rt_remove_contact_inv)

section \<open>Every operation keeps the invariant\<close>

lemma pr_inv_send_datagrams: "pr_inv lib h self cd p \<Longrightarrow> pr_inv lib h self cd (snd (send_datagrams ev addr dgs p))"
  by (induction ev addr dgs p rule: send_datagrams.induct) simp_all

lemma pr_inv_send_frame [wf_intros]:
  "pr_inv lib h self cd p \<Longrightarrow> pr_inv lib h self cd (snd (send_frame lib' ev addr f p))"
  by (simp add: send_frame_def next_frag_id_val_def pr_inv_send_datagrams split: option.split)

lemma pr_inv_gc [wf_intros]: "pr_inv lib h self cd p \<Longrightarrow> pr_inv lib h self cd (gc_reassembly p)"
  unfolding gc_reassembly_def
  by (rule pr_inv_reassembly) (auto dest!: pr_invD(6) simp: reassembly_ok_def split: option.splits if_splits)

definition calm :: "net_lib \<Rightarrow> sig_handler \<Rightarrow> node \<Rightarrow> bool \<Rightarrow> env \<Rightarrow> bool" where
  "calm lib h self cd ev \<longleftrightarrow> (\<forall>p. pr_inv lib h self cd p \<longrightarrow> pr_inv lib h self cd (ev_wait ev p))"

lemma pr_inv_pending:
  "pr_inv lib h self cd p \<Longrightarrow> channels_ok pn ib nc \<Longrightarrow>
     pr_inv lib h self cd (p\<lparr>pr_pending := pn, pr_inbox := ib, pr_next_chan := nc\<rparr>)"
  by (simp add: pr_inv_def)

lemma pr_inv_forget: "pr_inv lib h self cd p \<Longrightarrow> pr_inv lib h self cd (p\<lparr>pr_pending := (pr_pending p)(i := None)\<rparr>)"
  by (simp add: pr_inv_def channels_ok_forget)

lemma pr_inv_take: "pr_inv lib h self cd p \<Longrightarrow> pr_inv lib h self cd (p\<lparr>pr_inbox := (pr_inbox p)(c := None)\<rparr>)"
  by (simp add: pr_inv_def channels_ok_take)

lemma pr_inv_register:
  "pr_inv lib h self cd p \<Longrightarrow>
     pr_inv lib h self cd (p\<lparr>pr_next_chan := pr_next_chan p + 1, pr_pending := (pr_pending p)(i \<mapsto> pr_next_chan p)\<rparr>)"
  using channels_ok_new [of "pr_pending p" "pr_inbox p" "pr_next_chan p" i] by (simp add: pr_inv_def)

lemma pr_inv_call_start:
  assumes "pr_inv lib h self cd p"
  shows "pr_inv lib h self cd (snd (call_start lib' ev addr m p))"
proof -
  let ?p1 = "p\<lparr>pr_next_msg_id := pr_next_msg_id p + 1\<rparr>"
  let ?p2 = "?p1\<lparr>pr_next_chan := pr_next_chan p + 1, pr_pending := (pr_pending p)(pr_next_msg_id p \<mapsto> pr_next_chan p)\<rparr>"
  have p2: "pr_inv lib h self cd ?p2"
    using pr_inv_register [of lib h self cd ?p1] assms by simp
  show ?thesis
    using pr_inv_send_frame [OF p2] by (simp add: call_start_def next_id_def Let_def split_def pr_inv_forget)
qed

lemma pr_inv_call_finish: "pr_inv lib h self cd p \<Longrightarrow> pr_inv lib h self cd (snd (call_finish i c p))"
  by (simp add: call_finish_def pr_inv_forget pr_inv_take split: option.split)

lemma pr_inv_call [wf_intros]:
  assumes "calm lib h self cd ev" and "pr_inv lib h self cd p"
  shows "pr_inv lib h self cd (snd (call lib' ev addr m p))"
proof -
  have "pr_inv lib h self cd (snd (call_start lib' ev addr m p))" by (rule pr_inv_call_start [OF assms(2)])
  then show ?thesis
    using assms(1) by (auto simp: call_def calm_def pr_inv_call_finish split: prod.split option.split)
qed

lemma verify_for_key_state:
  "snd (verify_for_key lib key v p) = p \<or>
   snd (verify_for_key lib key v p) = p\<lparr>pr_sig_cache := pr_sig_cache (snd (verify_for_key lib key v p))\<rparr>"
  by (simp add: verify_for_key_def Let_def split: option.split)

lemma verify_for_key_sel [simp, state_simps]:
  "pr_router (snd (verify_for_key lib key v p)) = pr_router p"
  "pr_storage (snd (verify_for_key lib key v p)) = pr_storage p"
  "pr_source_node (snd (verify_for_key lib key v p)) = pr_source_node p"
  "pr_signature_handler (snd (verify_for_key lib key v p)) = pr_signature_handler p"
  "pr_invalid_sig_strikes (snd (verify_for_key lib key v p)) = pr_invalid_sig_strikes p"
  "pr_tasks (snd (verify_for_key lib key v p)) = pr_tasks p"
  "pr_now (snd (verify_for_key lib key v p)) = pr_now p"
  by (simp_all add: verify_for_key_def Let_def split: option.split)

lemma verify_for_key_inv:
  assumes "lib_ok lib" and inv: "pr_inv lib h self cd p"
  shows "pr_inv lib h self cd (snd (verify_for_key lib key v p)) \<and> (fst (verify_for_key lib key v p) \<longrightarrow> accepted lib h cd v)"
proof (cases "case pr_sig_cache p of None \<Rightarrow> None
    | Some cache \<Rightarrow> get_by_key (nl_moka_get lib) (pr_now p) (compute_key (nl_sha256 lib) v) cache")
  case (Some b)
  then obtain c where c: "pr_sig_cache p = Some c"
    "get_by_key (nl_moka_get lib) (pr_now p) (compute_key (nl_sha256 lib) v) c = Some b"
    by (auto split: option.splits)
  then have "cache_ok (nl_sha256 lib) (\<lambda>v. sh_signature h v = Inr True \<or> sh_issuer h v = Inr True) c"
    using pr_invD(9) [OF inv] by (simp add: cache_valid_def)
  from cache_ok_get [OF lib_okD(1) [OF assms(1)] this c(2)] have "accepted lib h cd v"
    using pr_invD(10) [OF inv] c(1) by (auto simp: accepted_def)
  with c inv show ?thesis by (simp add: verify_for_key_def)
next
  case None
  let ?r = "unwrap_or_false (if key = digest (nl_sha1 lib) STATUS_LIST_KEY then sh_issuer h v else sh_signature h v)"
  have eq: "verify_for_key lib key v p = (?r, if ?r
      then p\<lparr>pr_sig_cache := map_option (insert_by_key (pr_now p) (compute_key (nl_sha256 lib) v) True) (pr_sig_cache p)\<rparr> else p)"
    using None pr_invD(1) [OF inv] by (simp add: verify_for_key_def Let_def)
  have acc: "sh_signature h v = Inr True \<or> sh_issuer h v = Inr True" if ?r
    using that by (auto split: if_splits)
  then have "cache_valid lib h (map_option (insert_by_key (pr_now p) (compute_key (nl_sha256 lib) v) True) (pr_sig_cache p))" if ?r
    using that pr_invD(9) [OF inv] by (auto simp: cache_valid_def intro!: cache_ok_insert split: option.split)
  then show ?thesis
    using acc inv pr_invD(10) [OF inv] unfolding eq by (auto simp: accepted_def pr_inv_cache)
qed

lemma rt_insert_lru:
  assumes "rt_inv rt" and "wf_node n" and "node_id n \<noteq> node_id (rt_node rt)"
    and "rt_insert now n rt = Some (Some lru, rt')"
  shows "lru \<in> rt_contacts rt'"
proof -
  let ?P = "\<lambda>rt r. \<forall>lru rt'. r = Some (Some lru, rt') \<longrightarrow> lru \<in> rt_contacts rt'"
  have "?P rt (rt_insert now n rt)"
  proof (rule rt_insert_induct [where P = ?P and n = n and now = now, OF assms(1-3)], goal_cases)
    case (2 rt pre b post b')
    show ?case by (auto simp: kb_head_def rt_contacts_def split: list.splits)
  qed auto
  with assms(4) show ?thesis by blast
qed

lemma rt_add_contact_lru:
  "rt_inv rt \<Longrightarrow> wf_node n \<Longrightarrow> rt_add_contact now n rt = Some (Some lru, rt') \<Longrightarrow> lru \<in> rt_contacts rt'"
  using rt_insert_lru [of rt n now lru rt'] by (auto simp: rt_add_contact_def split: if_splits)

lemma keys_to_replicate_table:
  assumes "rt_inv rt"
  shows "rt_inv (snd (keys_to_replicate secs n s es rt)) \<and>
    rt_node (snd (keys_to_replicate secs n s es rt)) = rt_node rt \<and>
    rt_ksize (snd (keys_to_replicate secs n s es rt)) = rt_ksize rt \<and>
    rt_known (snd (keys_to_replicate secs n s es rt)) = rt_known rt \<and>
    rt_contacts (snd (keys_to_replicate secs n s es rt)) = rt_contacts rt"
  using assms
proof (induction es arbitrary: rt)
  case (Cons e es)
  obtain key v where e: "e = (key, v)" by (cases e)
  note table = rt_find_neighbors_table [OF Cons.prems, of secs "from_id key" None]
  show ?case
    using Cons.IH [OF Cons.prems] Cons.IH [OF table(1)] table(2-)
    by (simp add: e Let_def split_def)
qed simp

lemma keys_to_replicate_entries: "set (fst (keys_to_replicate secs n s es rt)) \<subseteq> set es"
proof (induction es arbitrary: rt)
  case (Cons e es)
  obtain key v where e: "e = (key, v)" by (cases e)
  show ?case
    using Cons.IH [of rt] Cons.IH [of "snd (rt_find_neighbors secs rt (from_id key) None)"]
    by (auto simp: e Let_def split_def)
qed simp

lemma fold_spawn_eq:
  "fold (\<lambda>(k, v). spawn (CallStoreRpc n k v)) kvs p =
     p\<lparr>pr_tasks := pr_tasks p @ map (\<lambda>(k, v). CallStoreRpc n k v) kvs\<rparr>"
proof (induction kvs arbitrary: p)
  case (Cons kv kvs)
  obtain k v where kv: "kv = (k, v)" by (cases kv)
  show ?case by (simp add: kv Cons.IH)
qed simp

text \<open>What welcoming does: it updates the table and queues tasks, and nothing else.\<close>

lemma welcome_if_new_cases:
  assumes "welcome_if_new ev n p = Some p'" and "rt_inv (pr_router p)" and "wf_node n"
  obtains (known) "\<not> rt_is_new_node (pr_router p) n" "p' = p"
  | (added) rt1 lru rt2 kvs where "rt_is_new_node (pr_router p) n" "rt_inv rt1"
      "rt_node rt1 = rt_node (pr_router p)" "rt_ksize rt1 = rt_ksize (pr_router p)"
      "rt_known rt1 = rt_known (pr_router p)" "rt_contacts rt1 = rt_contacts (pr_router p)"
      "rt_add_contact (pr_secs p) n rt1 = Some (lru, rt2)"
      "set kvs \<subseteq> set (st_iter_all (pr_now p) (ev_keys ev (pr_storage p)) (pr_storage p))"
      "p' = p\<lparr>pr_router := rt2, pr_tasks := pr_tasks p @
         (case lru of Some l \<Rightarrow> [CallPingNode l] | None \<Rightarrow> []) @ map (\<lambda>(k, v). CallStoreRpc n k v) kvs\<rparr>"
proof (cases "rt_is_new_node (pr_router p) n")
  case False
  then have "p' = p" using assms(1) by (simp add: welcome_if_new_def)
  with False show ?thesis by (rule known)
next
  case True
  define es where "es = st_iter_all (pr_now p) (ev_keys ev (pr_storage p)) (pr_storage p)"
  obtain kvs rt1 where kr: "keys_to_replicate (pr_secs p) n (pr_source_node p) es (pr_router p) = (kvs, rt1)"
    by fastforce
  note table = keys_to_replicate_table [OF assms(2), of "pr_secs p" n "pr_source_node p" es, unfolded kr snd_conv]
  obtain lru rt2 where add: "rt_add_contact (pr_secs p) n rt1 = Some (lru, rt2)"
    using assms(1) True by (auto simp: welcome_if_new_def kr es_def [symmetric] Let_def split: option.splits)
  have "p' = p\<lparr>pr_router := rt2, pr_tasks := pr_tasks p @
      (case lru of Some l \<Rightarrow> [CallPingNode l] | None \<Rightarrow> []) @ map (\<lambda>(k, v). CallStoreRpc n k v) kvs\<rparr>"
    using assms(1) True by (cases lru) (simp_all add: welcome_if_new_def kr es_def [symmetric] add fold_spawn_eq Let_def, simp_all add: spawn_def)
  moreover have "set kvs \<subseteq> set es"
    using keys_to_replicate_entries [of "pr_secs p" n "pr_source_node p" es "pr_router p"] by (simp add: kr)
  ultimately show ?thesis
    using added [OF True _ _ _ _ _ add, of kvs] table unfolding es_def by blast
qed

lemma pr_inv_welcome:
  assumes "pr_inv lib h self cd p" and "wf_node n" and "welcome_if_new ev n p = Some p'"
  shows "pr_inv lib h self cd p'"
proof (rule welcome_if_new_cases [OF assms(3) pr_invD(3) [OF assms(1)] assms(2)])
  assume "p' = p"
  with assms(1) show ?thesis by simp
next
  fix rt1 lru rt2 kvs
  assume rt1: "rt_inv rt1" "rt_node rt1 = rt_node (pr_router p)"
    and add: "rt_add_contact (pr_secs p) n rt1 = Some (lru, rt2)"
    and p': "p' = p\<lparr>pr_router := rt2, pr_tasks := pr_tasks p @
         (case lru of Some l \<Rightarrow> [CallPingNode l] | None \<Rightarrow> []) @ map (\<lambda>(k, v). CallStoreRpc n k v) kvs\<rparr>"
  have rt2: "rt_inv rt2" "rt_node rt2 = self"
    using rt_add_contact_inv [OF rt1(1) assms(2) add] rt1(2) pr_invD(4) [OF assms(1)] by simp_all
  have "wf_node l" if "lru = Some l" for l
    using rt_add_contact_lru [OF rt1(1) assms(2)] add that rt_known_wf [OF rt2(1)] rt_contacts_known by blast
  then have "list_all wf_task (case lru of Some l \<Rightarrow> [CallPingNode l] | None \<Rightarrow> [])"
    by (simp split: option.split)
  moreover have "list_all wf_task (map (\<lambda>(k, v). CallStoreRpc n k v) kvs)"
    using assms(2) by (auto simp: list_all_iff)
  ultimately show ?thesis
    unfolding p' using pr_invD(5) [OF assms(1)] rt2
    by (intro pr_inv_tasks pr_inv_router assms(1)) simp_all
qed

lemma pr_inv_rpc_ping: "pr_inv lib h self cd p \<Longrightarrow> length i = ID_LEN \<Longrightarrow> pr_inv lib h self cd (snd (rpc_ping i a p))"
  by (simp add: rpc_ping_def pr_inv_spawn)

lemma pr_inv_rpc_leave: "pr_inv lib h self cd p \<Longrightarrow> pr_inv lib h self cd (rpc_leave i a p)"
  using pr_inv_drop_peer by (simp add: rpc_leave_def drop_peer_def)

lemma pr_inv_neighbors:
  assumes "pr_inv lib h self cd p"
  shows "pr_inv lib h self cd (p\<lparr>pr_router := snd (rt_find_neighbors secs (pr_router p) target ex)\<rparr>)"
  using pr_inv_router [OF assms] rt_find_neighbors_table [OF pr_invD(3) [OF assms]] pr_invD(4) [OF assms] by simp

lemma pr_inv_rpc_find_node:
  "pr_inv lib h self cd p \<Longrightarrow> length i = ID_LEN \<Longrightarrow> pr_inv lib h self cd (snd (rpc_find_node i a k p))"
  using pr_inv_neighbors [of lib h self cd "spawn (WelcomeIfNew (new_node i (Some (fst a)) (Some (snd a)))) p"]
  by (simp add: rpc_find_node_def Let_def split_def pr_inv_spawn)

lemma pr_inv_rpc_find_value:
  assumes "pr_inv lib h self cd p" and "length i = ID_LEN" and "rpc_find_value ev i a k p = Some (r, p')"
  shows "pr_inv lib h self cd p'"
proof -
  obtain p1 where p1: "welcome_if_new ev (new_node i (Some (fst a)) (Some (snd a))) p = Some p1"
    using assms(3) by (auto simp: rpc_find_value_def Let_def split: option.splits)
  then have "pr_inv lib h self cd p1" using pr_inv_welcome [OF assms(1) _ p1] assms(2) by simp
  then show ?thesis
    using assms(3) p1 pr_inv_neighbors [of lib h self cd p1]
    by (auto simp: rpc_find_value_def Let_def split_def split: option.splits)
qed

lemma pr_inv_store_set:
  "pr_inv lib h self cd p \<Longrightarrow> accepted lib h cd v \<Longrightarrow>
     pr_inv lib h self cd (p\<lparr>pr_storage := st_set now k v (pr_storage p)\<rparr>)"
  by (auto intro: pr_inv_storage fs.keeps_put dest: pr_invD(8))

lemma pr_inv_spawn_set:
  "pr_inv lib h self cd p \<Longrightarrow> accepted lib h cd v \<Longrightarrow> wf_task t \<Longrightarrow>
     pr_inv lib h self cd ((spawn t p)\<lparr>pr_storage := st_set now k v (pr_storage p)\<rparr>)"
  using pr_inv_store_set [of lib h self cd "spawn t p" v now k] by (simp add: pr_inv_spawn)

lemma pr_inv_rpc_store:
  assumes "lib_ok lib" and "pr_inv lib h self cd p" and "length i = ID_LEN"
  shows "pr_inv lib h self cd (snd (rpc_store lib i a k v p))"
proof -
  obtain valid p1 where vf: "verify_for_key lib k v p = (valid, p1)" by fastforce
  have p1: "pr_inv lib h self cd p1" "valid \<Longrightarrow> accepted lib h cd v"
    using verify_for_key_inv [OF assms(1,2), of k v] vf by simp_all
  define src where "src = new_node i (Some (fst a)) (Some (snd a))"
  have src: "wf_node src" using assms(3) by (simp add: src_def)
  show ?thesis
  proof (cases valid)
    case False
    have "pr_inv lib h self cd (p1\<lparr>pr_invalid_sig_strikes := x, pr_router := rt_remove_contact src (pr_router p1)\<rparr>)" for x
      using pr_inv_drop_peer [of lib h self cd "p1\<lparr>pr_invalid_sig_strikes := x\<rparr>" src] p1(1)
      by (simp add: drop_peer_def)
    moreover have "pr_inv lib h self cd (spawn (WelcomeIfNew src) (p1\<lparr>pr_invalid_sig_strikes := x\<rparr>))" for x
      using p1(1) src by (simp add: pr_inv_spawn)
    ultimately show ?thesis using False by (simp add: rpc_store_def vf src_def [symmetric] Let_def)
  next
    case True
    have "fs.keeps (\<lambda>k. accepted lib h cd) (snd (st_insert_if_absent (pr_now p1) k v (pr_storage p1)))"
      using fs.keeps_insert_absent [OF pr_invD(8) [OF p1(1)]] p1(2) [OF True] by blast
    then have "pr_inv lib h self cd (p1\<lparr>pr_storage := snd (st_insert_if_absent (pr_now p1) k v (pr_storage p1))\<rparr>)"
      by (rule pr_inv_storage [OF p1(1)])
    then show ?thesis
      using True src by (simp add: rpc_store_def vf src_def [symmetric] Let_def split_def pr_inv_spawn)
  qed
qed

lemma pr_inv_rpc_update:
  assumes "auth_contract h" and "pr_inv lib h self cd p" and "length i = ID_LEN"
  shows "pr_inv lib h self cd (snd (rpc_update i a k v s p))"
proof -
  have "accepted lib h cd v" if "sh_update h v old s = Inr True" for old
    using auth_contract.update_self_signed [OF assms(1) that] by (auto simp: accepted_def)
  then show ?thesis
    using assms(2,3) pr_inv_spawn_set [OF assms(2)] pr_invD(1) [OF assms(2)]
    by (simp add: rpc_update_def Let_def split: option.split)
qed

lemma pr_inv_rpc_update_status_list:
  assumes "pr_inv lib h self cd p" and "length i = ID_LEN"
  shows "pr_inv lib h self cd (snd (rpc_update_status_list i a k v p))"
proof -
  have "accepted lib h cd v" if "sh_issuer h v = Inr True"
    using that by (auto simp: accepted_def)
  then show ?thesis
    using assms pr_inv_spawn_set [OF assms(1)] pr_invD(1) [OF assms(1)]
    by (simp add: rpc_update_status_list_def Let_def)
qed

lemma pr_inv_rpc_delete:
  assumes "pr_inv lib h self cd p" and "length i = ID_LEN"
  shows "pr_inv lib h self cd (snd (rpc_delete i a k s m p))"
proof -
  let ?p = "spawn (WelcomeIfNew (new_node i (Some (fst a)) (Some (snd a)))) p"
  have "pr_inv lib h self cd (?p\<lparr>pr_storage := st_delete k (pr_storage p)\<rparr>)"
    using assms fs.keeps_del [OF pr_invD(8) [OF assms(1)]] by (intro pr_inv_storage pr_inv_spawn) simp_all
  then show ?thesis using assms(1) by (auto simp: rpc_delete_def Let_def split: option.split)
qed

lemma pr_inv_dispatch:
  assumes "lib_ok lib" and "auth_contract h" and "pr_inv lib h self cd p" and "wf_message m"
    and "dispatch_request lib ev m peer p = Some (r, p')"
  shows "pr_inv lib h self cd p'"
proof (cases m)
  case (FindValue i k)
  with assms(4,5) pr_inv_rpc_find_value [OF assms(3)] show ?thesis
    by (auto split: option.splits find_value_result.splits)
qed (use assms in \<open>auto simp: Let_def split_def pr_inv_rpc_ping pr_inv_rpc_store pr_inv_rpc_update
      pr_inv_rpc_update_status_list pr_inv_rpc_delete pr_inv_rpc_find_node pr_inv_rpc_leave\<close>)

lemma pr_inv_deliver:
  "pr_inv lib h self cd p \<Longrightarrow> pr_pending p i = Some c \<Longrightarrow>
     pr_inv lib h self cd (p\<lparr>pr_pending := (pr_pending p)(i := None), pr_inbox := (pr_inbox p)(c \<mapsto> m)\<rparr>)"
  by (simp add: pr_inv_def channels_ok_deliver)

lemma pr_inv_handle_payload:
  assumes "lib_ok lib" and "auth_contract h" and "pr_inv lib h self cd p"
    and "handle_payload lib ev payload peer p = Some p'"
  shows "pr_inv lib h self cd p'"
proof (cases "nl_deserialize lib payload")
  case None
  with assms(3,4) show ?thesis by (simp add: handle_payload_def)
next
  case (Some f)
  have wf: "wf_message (fr_message f)" by (rule lib_okD(2) [OF assms(1) Some])
  show ?thesis
  proof (cases "fr_is_request f")
    case False
    let ?p1 = "case fr_message f of
        Pong sender_id \<Rightarrow> spawn (WelcomeIfNew (new_node sender_id (Some (sa_ip_string peer)) (Some (sa_port peer)))) p
      | _ \<Rightarrow> p"
    have "pr_inv lib h self cd ?p1" using assms(3) wf by (cases "fr_message f") (simp_all add: pr_inv_spawn)
    then show ?thesis
      using assms(4) Some False pr_inv_deliver by (auto simp: handle_payload_def Let_def split: option.splits)
  next
    case True
    then obtain r p1 where d: "dispatch_request lib ev (fr_message f) peer p = Some (r, p1)"
      using assms(4) Some by (auto simp: handle_payload_def split: option.splits)
    have "pr_inv lib h self cd p1" by (rule pr_inv_dispatch [OF assms(1-3) wf d])
    then show ?thesis
      using assms(4) Some True d by (auto simp: handle_payload_def pr_inv_send_frame split: option.splits)
  qed
qed

lemma reassembly_okD:
  "reassembly_ok m \<Longrightarrow> m k = Some e \<Longrightarrow>
     re_inv e \<and> re_total e \<noteq> 0 \<and> unat (re_total e) * FRAG_CHUNK_SIZE \<le> MAX_MESSAGE_SIZE"
  unfolding reassembly_ok_def by blast

lemma reassembly_ok_update:
  "reassembly_ok m \<Longrightarrow> re_inv e \<Longrightarrow> re_total e \<noteq> 0 \<Longrightarrow>
     unat (re_total e) * FRAG_CHUNK_SIZE \<le> MAX_MESSAGE_SIZE \<Longrightarrow> reassembly_ok (m(k \<mapsto> e))"
  by (simp add: reassembly_ok_def)

lemma reassembly_ok_remove: "reassembly_ok m \<Longrightarrow> reassembly_ok (m(k := None))"
  by (simp add: reassembly_ok_def)

lemma parse_fragment_total: "parse_fragment d = Some (hdr, c) \<Longrightarrow> fh_total hdr \<noteq> 0"
  by (auto simp: parse_fragment_def Let_def split: if_splits)

lemma pr_inv_handle_datagram:
  assumes "lib_ok lib" and "auth_contract h" and inv: "pr_inv lib h self cd p"
    and hd: "handle_datagram lib ev d peer p = Some p'"
  shows "pr_inv lib h self cd p'"
proof (cases "parse_fragment d")
  case None
  with inv hd show ?thesis by (simp add: handle_datagram_def)
next
  case (Some hc)
  obtain header chunk where hc: "hc = (header, chunk)" by (cases hc)
  define key where "key = (peer, fh_frag_id header)"
  define e where "e = (case pr_reassembly p key of Some e \<Rightarrow> e | None \<Rightarrow> re_new (pr_now p) (fh_total header))"
  obtain complete e1 where ins: "re_insert (fh_index header) chunk e = (complete, e1)" by fastforce
  note ok = pr_invD(6) [OF inv]
  have "re_inv e"
    using reassembly_okD [OF ok, of key] by (simp add: e_def re_new_inv split: option.split)
  then have e1: "re_inv e1" "re_total e1 = re_total e"
    using re_insert_inv [of e "fh_index header" chunk] re_insert_chunks(2) [of "fh_index header" chunk e] ins by simp_all
  consider (single) "fh_total header = 1"
    | (oversized) "fh_total header \<noteq> 1" "unat (fh_total header) * FRAG_CHUNK_SIZE > MAX_MESSAGE_SIZE"
    | (mismatch) "re_total e \<noteq> fh_total header"
    | (stored) "fh_total header \<noteq> 1" "unat (fh_total header) * FRAG_CHUNK_SIZE \<le> MAX_MESSAGE_SIZE"
        "re_total e = fh_total header" by linarith
  then show ?thesis
  proof cases
    case single
    with hd Some hc show ?thesis
      using pr_inv_handle_payload [OF assms(1-3)] by (simp add: handle_datagram_def)
  next
    case stored
    then have ok1: "reassembly_ok ((pr_reassembly p)(key \<mapsto> e1))"
      using e1 parse_fragment_total [of d header chunk] Some hc by (intro reassembly_ok_update ok) simp_all
    have unf: "handle_datagram lib ev d peer p =
        (if \<not> complete then Some (gc_reassembly (p\<lparr>pr_reassembly := (pr_reassembly p)(key \<mapsto> e1)\<rparr>))
         else case re_assemble e1 of
           Some payload \<Rightarrow> handle_payload lib ev payload peer (p\<lparr>pr_reassembly := (pr_reassembly p)(key := None)\<rparr>)
         | None \<Rightarrow> Some (p\<lparr>pr_reassembly := (pr_reassembly p)(key := None)\<rparr>))"
      using stored Some hc by (simp add: handle_datagram_def key_def [symmetric] e_def [symmetric] ins Let_def)
    have gone: "pr_inv lib h self cd (p\<lparr>pr_reassembly := (pr_reassembly p)(key := None)\<rparr>)"
      by (intro pr_inv_reassembly inv reassembly_ok_remove ok)
    have kept: "pr_inv lib h self cd (p\<lparr>pr_reassembly := (pr_reassembly p)(key \<mapsto> e1)\<rparr>)"
      by (intro pr_inv_reassembly inv ok1)
    show ?thesis
      using hd pr_inv_handle_payload [OF assms(1,2) gone] gone pr_inv_gc [OF kept] unfolding unf
      by (auto split: if_splits option.splits)
  qed (use hd inv Some hc in \<open>auto simp: handle_datagram_def e_def [symmetric] key_def [symmetric] Let_def
        split: if_splits dest: pr_inv_handle_payload [OF assms(1-3)]\<close>)
qed

section \<open>Outgoing calls\<close>

lemmas call_defs = call_store_rpc_def call_update_rpc_def call_status_list_update_rpc_def
  call_delete_rpc_def call_leave_rpc_def call_find_node_def call_find_value_def call_store_def

lemma pr_inv_calls:
  assumes "calm lib h self cd ev" and "pr_inv lib h self cd p"
  shows "pr_inv lib h self cd (snd (call_ping_addr lib' ev a p))"
    and "pr_inv lib h self cd (snd (call_store_rpc lib' ev n k v p))"
    and "pr_inv lib h self cd (snd (call_update_rpc lib' ev n k v s p))"
    and "pr_inv lib h self cd (snd (call_status_list_update_rpc lib' ev n k v p))"
    and "pr_inv lib h self cd (snd (call_delete_rpc lib' ev n k s m p))"
    and "pr_inv lib h self cd (call_leave_rpc lib' ev n p)"
    and "wf_node n \<Longrightarrow> pr_inv lib h self cd (snd (call_find_node lib' ev n t p))"
    and "wf_node n \<Longrightarrow> pr_inv lib h self cd (snd (call_find_value lib' ev n t p))"
    and "pr_inv lib h self cd (call_ping_node lib' ev n p)"
proof -
  have "pr_inv lib h self cd q" if "call lib' ev addr msg p = (r, q)" for addr msg r q
    using pr_inv_call [OF assms, of lib' addr msg] that by simp
  note q = this
  show ping: "pr_inv lib h self cd (snd (call_ping_addr lib' ev a p))" for a
    using assms(2) q by (auto simp: call_ping_addr_def Let_def split: option.split prod.split rpc_message.split)
  show "pr_inv lib h self cd (snd (call_store_rpc lib' ev n k v p))"
    "pr_inv lib h self cd (snd (call_update_rpc lib' ev n k v s p))"
    "pr_inv lib h self cd (snd (call_status_list_update_rpc lib' ev n k v p))"
    "pr_inv lib h self cd (snd (call_delete_rpc lib' ev n k s m p))"
    "pr_inv lib h self cd (call_leave_rpc lib' ev n p)"
    using assms q by (auto simp: call_defs pr_inv_drop_peer pr_inv_call split: option.split prod.split rpc_message.split)
  show "pr_inv lib h self cd (snd (call_find_node lib' ev n t p))" if "wf_node n"
    using that assms(2) q
    by (auto simp: call_find_node_def pr_inv_drop_peer pr_inv_spawn split: option.split prod.split rpc_message.split)
  show "pr_inv lib h self cd (snd (call_find_value lib' ev n t p))" if "wf_node n"
    using that assms(2) q
    by (auto simp: call_find_value_def pr_inv_drop_peer pr_inv_spawn split: option.split prod.split rpc_message.split)
  show "pr_inv lib h self cd (call_ping_node lib' ev n p)"
    using ping assms(2) pr_inv_drop_peer
    by (auto simp: call_ping_node_def Let_def split_def split: option.split)
qed

lemma pr_inv_run_task:
  assumes "calm lib h self cd ev" and "pr_inv lib h self cd p" and "wf_task t" and "run_task lib ev t p = Some p'"
  shows "pr_inv lib h self cd p'"
  using assms(3,4) pr_inv_calls [OF assms(1,2)] pr_inv_welcome [OF assms(2)] by (cases t) auto

section \<open>Runs of a node\<close>

text \<open>
  One step: a datagram with any content from any address is handled, a spawned task runs, the
  clocks advance, the table is searched, or the server starts a call. While a call waits, any
  number of further steps may happen.
\<close>

inductive pr_step :: "net_lib \<Rightarrow> protocol \<Rightarrow> protocol \<Rightarrow> bool" for lib where
  datagram: "handle_datagram lib ev d peer p = Some p' \<Longrightarrow> pr_step lib p p'"
| task: "pr_tasks p = ts @ t # us \<Longrightarrow> \<forall>q. (pr_step lib)\<^sup>*\<^sup>* q (ev_wait ev q) \<Longrightarrow>
    run_task lib ev t (p\<lparr>pr_tasks := ts @ us\<rparr>) = Some p' \<Longrightarrow> pr_step lib p p'"
| clock: "pr_now p \<le> now \<Longrightarrow> pr_step lib p (p\<lparr>pr_now := now, pr_secs := secs\<rparr>)"
| search: "pr_step lib p (p\<lparr>pr_router := snd (rt_find_neighbors (pr_secs p) (pr_router p) target ex)\<rparr>)"
| call_ping: "\<forall>q. (pr_step lib)\<^sup>*\<^sup>* q (ev_wait ev q) \<Longrightarrow> pr_step lib p (snd (call_ping_addr lib ev a p))"
| call_store: "\<forall>q. (pr_step lib)\<^sup>*\<^sup>* q (ev_wait ev q) \<Longrightarrow> pr_step lib p (snd (call_store_rpc lib ev n k v p))"
| call_update: "\<forall>q. (pr_step lib)\<^sup>*\<^sup>* q (ev_wait ev q) \<Longrightarrow> pr_step lib p (snd (call_update_rpc lib ev n k v s p))"
| call_status: "\<forall>q. (pr_step lib)\<^sup>*\<^sup>* q (ev_wait ev q) \<Longrightarrow>
    pr_step lib p (snd (call_status_list_update_rpc lib ev n k v p))"
| call_delete: "\<forall>q. (pr_step lib)\<^sup>*\<^sup>* q (ev_wait ev q) \<Longrightarrow> pr_step lib p (snd (call_delete_rpc lib ev n k s m p))"
| call_leave: "\<forall>q. (pr_step lib)\<^sup>*\<^sup>* q (ev_wait ev q) \<Longrightarrow> pr_step lib p (call_leave_rpc lib ev n p)"
| call_find_node: "\<forall>q. (pr_step lib)\<^sup>*\<^sup>* q (ev_wait ev q) \<Longrightarrow> wf_node n \<Longrightarrow>
    pr_step lib p (snd (call_find_node lib ev n t p))"
| call_find_value: "\<forall>q. (pr_step lib)\<^sup>*\<^sup>* q (ev_wait ev q) \<Longrightarrow> wf_node n \<Longrightarrow>
    pr_step lib p (snd (call_find_value lib ev n t p))"

lemma calmI:
  assumes "\<forall>q. (\<lambda>x y. pr_step lib x y \<and> (pr_inv lib h self cd x \<longrightarrow> pr_inv lib h self cd y))\<^sup>*\<^sup>* q (ev_wait ev q)"
  shows "calm lib h self cd ev"
proof -
  have "pr_inv lib h self cd y"
    if "(\<lambda>x y. pr_step lib x y \<and> (pr_inv lib h self cd x \<longrightarrow> pr_inv lib h self cd y))\<^sup>*\<^sup>* q y" "pr_inv lib h self cd q"
    for q y using that by (induction rule: rtranclp_induct) blast+
  with assms show ?thesis unfolding calm_def by blast
qed

lemma pr_step_inv:
  assumes "pr_step lib p p'" and "lib_ok lib" and "auth_contract h"
  shows "pr_inv lib h self cd p \<longrightarrow> pr_inv lib h self cd p'"
  using assms(1)
proof (induction rule: pr_step.induct)
  case (datagram ev d peer p p')
  then show ?case using pr_inv_handle_datagram [OF assms(2,3)] by blast
next
  case (task p ts t us ev p')
  show ?case
  proof
    assume inv: "pr_inv lib h self cd p"
    then have "pr_inv lib h self cd (p\<lparr>pr_tasks := ts @ us\<rparr>)" "wf_task t"
      using pr_invD(5) [OF inv] task(1) by (auto intro: pr_inv_tasks)
    then show "pr_inv lib h self cd p'" using pr_inv_run_task [OF calmI [OF task.IH] _ _ task.hyps(2)] by blast
  qed
next
  case (search p target ex)
  then show ?case using pr_inv_neighbors by blast
qed (use pr_inv_calls [OF calmI] in \<open>simp | blast\<close>)+

lemma pr_steps_inv:
  assumes "(pr_step lib)\<^sup>*\<^sup>* p p'" and "lib_ok lib" and "auth_contract h" and "pr_inv lib h self cd p"
  shows "pr_inv lib h self cd p'"
  using assms(1,4) by (induction rule: rtranclp_induct) (use pr_step_inv [OF _ assms(2,3)] in blast)+

lemma pr_new_inv:
  "pr_inv lib h self use_cache (pr_new now secs self (st_new ttl) k h (if use_cache then Some (sc_new n) else None))"
proof -
  have "fs.keeps Q (st_new ttl)" for Q by (simp add: fs.keeps_def st_get_eq st_new_def)
  moreover have "rt_node (rt_new secs self k) = self" by (simp add: rt_new_def)
  ultimately show ?thesis
    by (simp add: pr_inv_def pr_new_def rt_new_inv reassembly_ok_def channels_ok_def cache_valid_def cache_ok_new)
qed

text \<open>A node that has just started with an empty store and the handler for DID documents.\<close>

definition did_node ::
  "'x auth_lib_scheme \<Rightarrow> bytes option \<Rightarrow> node \<Rightarrow> nat \<Rightarrow> 64 word \<Rightarrow> bool \<Rightarrow> instant \<Rightarrow> nat \<Rightarrow> protocol" where
  "did_node alib f self k ttl use_cache now secs =
     pr_new now secs self (st_new ttl) k (did_handler alib f)
       (if use_cache then Some (sc_new 4096) else None)"

lemma did_node_inv:
  assumes "lib_ok lib" and "(pr_step lib)\<^sup>*\<^sup>* (did_node alib f self k ttl use_cache now secs) p"
  shows "pr_inv lib (did_handler alib f) self use_cache p"
  using pr_steps_inv [OF assms(2,1) did.auth_contract_axioms] pr_new_inv unfolding did_node_def by blast

text \<open>
  A library for concrete runs: the identity for the hash functions, a cache that never evicts and
  a codec that decodes two payloads, a \<open>Ping\<close> and a \<open>Store\<close>.
\<close>

definition tiny_lib :: "bytes \<Rightarrow> bytes \<Rightarrow> bytes \<Rightarrow> net_lib" where
  "tiny_lib sender key v =
     \<lparr>nl_sha1 = (\<lambda>x. x), nl_sha256 = (\<lambda>x. x), nl_moka_get = moka_full,
      nl_serialize = (\<lambda>f. Some [7]),
      nl_deserialize = (\<lambda>bs.
        if bs = [1] then Some \<lparr>fr_msg_id = 0, fr_is_request = True, fr_message = Ping sender\<rparr>
        else if bs = [2] then Some \<lparr>fr_msg_id = 0, fr_is_request = True, fr_message = Store sender key v\<rparr>
        else None)\<rparr>"

lemma tiny_lib_ok: "length sender = ID_LEN \<Longrightarrow> length key = ID_LEN \<Longrightarrow> lib_ok (tiny_lib sender key v)"
  by (auto simp: lib_ok_def tiny_lib_def moka_full_sound split: if_splits)

section \<open>What the handlers do to the store\<close>

lemma welcome_if_new_storage:
  "welcome_if_new ev n p = Some p' \<Longrightarrow> pr_storage p' = pr_storage p \<and> pr_now p' = pr_now p"
  by (auto simp: welcome_if_new_def Let_def fold_spawn_eq split: option.splits if_splits prod.splits)

lemma rpc_store_storage:
  "fst (rpc_store lib i a k v p) = (fst (verify_for_key lib k v p) \<and> st_get (pr_now p) k (pr_storage p) = None)"
  "pr_storage (snd (rpc_store lib i a k v p)) =
     (if fst (rpc_store lib i a k v p) then st_set (pr_now p) k v (pr_storage p) else pr_storage p)"
proof -
  obtain valid p1 where vf: "verify_for_key lib k v p = (valid, p1)" by fastforce
  then have p1: "pr_storage p1 = pr_storage p" "pr_now p1 = pr_now p"
    using verify_for_key_sel [of lib k v p] by simp_all
  show "fst (rpc_store lib i a k v p) = (fst (verify_for_key lib k v p) \<and> st_get (pr_now p) k (pr_storage p) = None)"
    "pr_storage (snd (rpc_store lib i a k v p)) =
     (if fst (rpc_store lib i a k v p) then st_set (pr_now p) k v (pr_storage p) else pr_storage p)"
    by (simp_all add: rpc_store_def vf p1 st_insert_if_absent_eq Let_def)
qed

lemma rpc_update_storage:
  "fst (rpc_update i a k v s p) =
     (\<exists>old. st_get (pr_now p) k (pr_storage p) = Some old \<and> sh_update (pr_signature_handler p) v old s = Inr True)"
  "pr_storage (snd (rpc_update i a k v s p)) =
     (if fst (rpc_update i a k v s p) then st_set (pr_now p) k v (pr_storage p) else pr_storage p)"
  by (simp_all add: rpc_update_def Let_def split: option.split)

lemma rpc_update_status_list_storage:
  "fst (rpc_update_status_list i a k v p) =
     (st_get (pr_now p) k (pr_storage p) \<noteq> None \<and> sh_issuer (pr_signature_handler p) v = Inr True)"
  "pr_storage (snd (rpc_update_status_list i a k v p)) =
     (if fst (rpc_update_status_list i a k v p) then st_set (pr_now p) k v (pr_storage p) else pr_storage p)"
  by (simp_all add: rpc_update_status_list_def Let_def)

lemma rpc_delete_storage:
  "fst (rpc_delete i a k s m p) =
     (\<exists>old. st_get (pr_now p) k (pr_storage p) = Some old \<and> sh_delete (pr_signature_handler p) old s m = Inr True)"
  "pr_storage (snd (rpc_delete i a k s m p)) =
     (if fst (rpc_delete i a k s m p) then st_delete k (pr_storage p) else pr_storage p)"
  by (simp_all add: rpc_delete_def Let_def split: option.split)

lemma rpc_find_value_storage:
  "rpc_find_value ev i a k p = Some (r, p') \<Longrightarrow> pr_storage p' = pr_storage p"
  by (auto simp: rpc_find_value_def Let_def split_def dest!: welcome_if_new_storage split: option.splits)

lemmas rpc_storage = rpc_store_storage rpc_update_storage rpc_update_status_list_storage rpc_delete_storage

section \<open>Properties of the protocol\<close>

text \<open>
  C1. Whatever datagrams a node receives, in every reachable state every record that can be read
  from its store was accepted: it is self-signed or signed by the issuer, or, when the signature
  cache is on, it has the SHA-256 value of such a record.
\<close>

theorem stored_records_accepted:
  assumes "lib_ok lib" and "(pr_step lib)\<^sup>*\<^sup>* (did_node alib f self k ttl use_cache now secs) p"
    and "st_get t key (pr_storage p) = Some v"
  shows "\<exists>w. (w = v \<or> use_cache \<and> nl_sha256 lib w = nl_sha256 lib v) \<and>
    (handle_signature_verification alib w = Inr True \<or>
     handle_issuer_node_signature_verification alib f w = Inr True)"
  using fs.keepsD [OF pr_invD(8) [OF did_node_inv [OF assms(1,2)]] assms(3)]
  by (simp add: accepted_def)

text \<open>
  C5. In every reachable state the routing table partitions the identifier space and holds no
  contact with the node's own identifier, every reassembly entry has at most 187 slots and counts
  its filled slots correctly, and no two waiting calls share a channel.
\<close>

theorem reachable_node_wellformed:
  assumes "lib_ok lib" and "(pr_step lib)\<^sup>*\<^sup>* (did_node alib f self k ttl use_cache now secs) p"
  shows "(\<exists>!i. i < length (rt_buckets (pr_router p)) \<and> kb_covers (rt_buckets (pr_router p) ! i) x) \<and>
    node_id self \<notin> node_id ` rt_known (pr_router p) \<and>
    (case pr_reassembly p key of
       None \<Rightarrow> True
     | Some e \<Rightarrow> length (re_chunks e) \<le> 187 \<and>
         unat (re_received e) = length (filter (\<lambda>c. c \<noteq> None) (re_chunks e))) \<and>
    (pr_pending p i \<noteq> None \<longrightarrow> pr_pending p i = pr_pending p j \<longrightarrow> i = j)"
proof (intro conjI)
  note inv = did_node_inv [OF assms]
  show "\<exists>!i. i < length (rt_buckets (pr_router p)) \<and> kb_covers (rt_buckets (pr_router p) ! i) x"
    by (rule rt_inv_unique_bucket [OF pr_invD(3) [OF inv]])
  show "node_id self \<notin> node_id ` rt_known (pr_router p)"
    using pr_invD(3,4) [OF inv] by (auto simp: rt_inv_def)
  show "case pr_reassembly p key of None \<Rightarrow> True
     | Some e \<Rightarrow> length (re_chunks e) \<le> 187 \<and> unat (re_received e) = length (filter (\<lambda>c. c \<noteq> None) (re_chunks e))"
    using reassembly_okD [OF pr_invD(6) [OF inv], of key]
    by (auto simp: re_inv_def FRAG_CHUNK_SIZE_def MAX_MESSAGE_SIZE_def split: option.split)
  show "pr_pending p i \<noteq> None \<longrightarrow> pr_pending p i = pr_pending p j \<longrightarrow> i = j"
    using pr_invD(7) [OF inv] by (auto simp: channels_ok_def)
qed


section \<open>A concrete run\<close>

lemma send_frame_storage:
  "pr_storage (snd (send_frame lib ev addr f p)) = pr_storage p" "pr_now (snd (send_frame lib ev addr f p)) = pr_now p"
proof -
  have "pr_storage (snd (send_datagrams ev addr dgs q)) = pr_storage q \<and> pr_now (snd (send_datagrams ev addr dgs q)) = pr_now q" for dgs q
    by (induction ev addr dgs q rule: send_datagrams.induct) simp_all
  then show "pr_storage (snd (send_frame lib ev addr f p)) = pr_storage p" "pr_now (snd (send_frame lib ev addr f p)) = pr_now p"
    by (simp_all add: send_frame_def next_frag_id_val_def split: option.split)
qed

definition echo_record :: bytes where
  "echo_record = assemble_record echo_auth_lib (replicate 2420 7) [] (str_lit ''Dilithium-2'')"

lemma echo_record_accepted: "handle_signature_verification echo_auth_lib echo_record = Inr True"
proof -
  have "record_parts echo_record DilithiumSignatureVerifier (replicate 2420 7) (replicate 2420 7)"
    using assemble_record_parts [of echo_auth_lib "replicate 2420 7" "[]"] by (simp add: echo_mod_def echo_record_def)
  moreover have "verify echo_auth_lib DilithiumSignatureVerifier (replicate 1312 1) (replicate 2420 7) (replicate 2420 7) = Inr True"
    by (simp add: dilithium_verify_def dilithium_level_from_pubkey_len_def verify_d_def echo_mod_def)
  ultimately show ?thesis
    unfolding handle_signature_verification_def verify_self_signed_iff by fastforce
qed

abbreviation demo_self :: node where
  "demo_self \<equiv> from_id (replicate 20 0)"

abbreviation demo_peer :: bytes where
  "demo_peer \<equiv> replicate 20 1"

abbreviation demo_key :: bytes where
  "demo_key \<equiv> replicate 20 5"

definition demo_lib :: net_lib where
  "demo_lib = tiny_lib demo_peer demo_key echo_record"

definition demo_start :: "bool \<Rightarrow> protocol" where
  "demo_start uc = did_node echo_auth_lib None demo_self 1 (- 1) uc 0 0"

lemma demo_lib_ok: "lib_ok demo_lib"
  unfolding demo_lib_def by (rule tiny_lib_ok) (simp_all add: ID_LEN_def)

lemma demo_lib_sel [simp]:
  "nl_sha1 demo_lib = (\<lambda>x. x)" "nl_sha256 demo_lib = (\<lambda>x. x)" "nl_moka_get demo_lib = moka_full"
  "nl_deserialize demo_lib [2] =
     Some \<lparr>fr_msg_id = 0, fr_is_request = True, fr_message = Store demo_peer demo_key echo_record\<rparr>"
  by (simp_all add: demo_lib_def tiny_lib_def)

lemma demo_start_sel [simp]:
  "pr_now (demo_start uc) = 0" "pr_signature_handler (demo_start uc) = did_handler echo_auth_lib None"
  "pr_sig_cache (demo_start uc) = (if uc then Some (sc_new 4096) else None)" "pr_storage (demo_start uc) = st_new (- 1)"
  "pr_invalid_sig_strikes (demo_start uc) = Map.empty" "pr_router (demo_start uc) = rt_new 0 demo_self 1"
  "pr_source_node (demo_start uc) = demo_self" "pr_reassembly (demo_start uc) = Map.empty"
  by (simp_all add: demo_start_def did_node_def pr_new_def)

lemma demo_key_not_status: "demo_key \<noteq> digest (\<lambda>x. x) STATUS_LIST_KEY"
proof
  assume "demo_key = digest (\<lambda>x. x) STATUS_LIST_KEY"
  then have "hd demo_key = hd (digest (\<lambda>x. x) STATUS_LIST_KEY)" by simp
  moreover have "hd (digest (\<lambda>x. x) STATUS_LIST_KEY) = 100"
    by (simp add: digest_def digest_bytes_def STATUS_LIST_KEY_def str_lit_def as_bytes_def utf8_encode_char_def of_char_def)
  ultimately show False by simp
qed

lemma st_get_new [simp]: "st_get t k (st_new ttl) = None"
  by (simp add: st_get_eq st_new_def)

lemma demo_verified: "fst (verify_for_key demo_lib demo_key echo_record (demo_start uc))"
  using demo_key_not_status echo_record_accepted
  by (simp add: verify_for_key_def get_by_key_def moka_full_def sc_latest_def sc_new_def)

lemma demo_stored:
  "\<exists>p. pr_step demo_lib (demo_start uc) p \<and> pr_now p = 0 \<and> st_get 0 demo_key (pr_storage p) = Some echo_record"
proof -
  let ?peer = "V4 (127, 0, 0, 1) 9"
  let ?p1 = "snd (rpc_store demo_lib demo_peer (sa_ip_string ?peer, sa_port ?peer) demo_key echo_record (demo_start uc))"
  have ok: "fst (rpc_store demo_lib demo_peer (sa_ip_string ?peer, sa_port ?peer) demo_key echo_record (demo_start uc))"
    using demo_verified by (simp add: rpc_store_storage)
  obtain p where p: "handle_datagram demo_lib plain_env (fragment_header 0 0 1 @ [2]) ?peer (demo_start uc) = Some p"
    "pr_storage p = pr_storage ?p1" "pr_now p = pr_now ?p1"
    using handle_single [of "[2]" 0 demo_lib plain_env ?peer "demo_start uc"]
    by (simp add: FRAG_CHUNK_SIZE_def handle_payload_request Let_def split_def send_frame_storage del: sa_ip_string.simps)
  have "st_get 0 demo_key (pr_storage ?p1) = Some echo_record"
    using ok by (simp add: rpc_store_storage(2) st_get_set)
  moreover have "pr_now ?p1 = 0"
    by (simp add: rpc_store_def Let_def split_def del: sa_ip_string.simps)
  ultimately show ?thesis using p pr_step.datagram by metis
qed

theorem stored_records_accepted_witness:
  "\<exists>p w. (pr_step demo_lib)\<^sup>*\<^sup>* (did_node echo_auth_lib None demo_self 1 (- 1) True 0 0) p \<and>
     st_get 0 demo_key (pr_storage p) = Some echo_record \<and>
     (handle_signature_verification echo_auth_lib w = Inr True \<or>
      handle_issuer_node_signature_verification echo_auth_lib None w = Inr True)"
proof -
  obtain p where p: "pr_step demo_lib (demo_start True) p" "st_get 0 demo_key (pr_storage p) = Some echo_record"
    using demo_stored by blast
  then have steps: "(pr_step demo_lib)\<^sup>*\<^sup>* (did_node echo_auth_lib None demo_self 1 (- 1) True 0 0) p"
    by (simp add: demo_start_def)
  from stored_records_accepted [OF demo_lib_ok steps p(2)] steps p(2) show ?thesis by blast
qed

theorem reachable_node_wellformed_witness:
  "\<exists>p. (pr_step demo_lib)\<^sup>*\<^sup>* (did_node echo_auth_lib None demo_self 1 (- 1) True 0 0) p \<and>
     st_get 0 demo_key (pr_storage p) = Some echo_record \<and>
     node_id demo_self \<notin> node_id ` rt_known (pr_router p)"
proof -
  obtain p where p: "pr_step demo_lib (demo_start True) p" "st_get 0 demo_key (pr_storage p) = Some echo_record"
    using demo_stored by blast
  then have steps: "(pr_step demo_lib)\<^sup>*\<^sup>* (did_node echo_auth_lib None demo_self 1 (- 1) True 0 0) p"
    by (simp add: demo_start_def)
  from reachable_node_wellformed [OF demo_lib_ok steps, of 0 "(V4 (0, 0, 0, 0) 0, 0)" 0 0] steps p(2) show ?thesis by blast
qed


section \<open>Invalid stores\<close>

lemma verify_for_key_rejects:
  assumes "\<not> fst (verify_for_key lib k v p)"
  shows "snd (verify_for_key lib k v p) = p"
  using assms by (auto simp: verify_for_key_def Let_def split: option.splits)

lemma verify_for_key_cong:
  assumes "pr_sig_cache q = pr_sig_cache p" "pr_now q = pr_now p" "pr_signature_handler q = pr_signature_handler p"
  shows "fst (verify_for_key lib k v q) = fst (verify_for_key lib k v p)"
  using assms by (simp add: verify_for_key_def Let_def split: option.split)

definition strikes_of :: "protocol \<Rightarrow> bytes \<Rightarrow> u32" where
  "strikes_of p i = (case pr_invalid_sig_strikes p i of Some n \<Rightarrow> n | None \<Rightarrow> 0)"

lemma rpc_store_invalid:
  assumes "\<not> fst (verify_for_key lib k v p)"
  shows "rpc_store lib i a k v p =
    (False,
     let p1 = p\<lparr>pr_invalid_sig_strikes := (pr_invalid_sig_strikes p)(i \<mapsto> strikes_of p i + 1)\<rparr>;
         source = new_node i (Some (fst a)) (Some (snd a))
     in if strikes_of p i + 1 \<ge> INVALID_SIG_BAN_THRESHOLD then drop_peer source p1
        else spawn (WelcomeIfNew source) p1)"
  using assms verify_for_key_rejects [OF assms]
  by (simp add: rpc_store_def Let_def split_def strikes_of_def drop_peer_def)

definition store_all ::
  "net_lib \<Rightarrow> bytes \<Rightarrow> ((rust_str \<times> u16) \<times> bytes \<times> bytes) list \<Rightarrow> protocol \<Rightarrow> protocol" where
  "store_all lib i reqs p = fold (\<lambda>(a, k, v) q. snd (rpc_store lib i a k v q)) reqs p"

lemma drop_peer_sel [simp, state_simps]:
  "pr_storage (drop_peer n p) = pr_storage p" "pr_sig_cache (drop_peer n p) = pr_sig_cache p"
  "pr_now (drop_peer n p) = pr_now p" "pr_signature_handler (drop_peer n p) = pr_signature_handler p"
  "pr_invalid_sig_strikes (drop_peer n p) = pr_invalid_sig_strikes p"
  "pr_router (drop_peer n p) = rt_remove_contact n (pr_router p)"
  by (simp_all add: drop_peer_def)

text \<open>
  C29. Stores whose record is rejected never change the store. From the third one of a sender on, the
  sender is no longer known to the routing table; all other contacts stay known. The address the
  requests come from plays no role.
\<close>

theorem invalid_stores_ban_sender:
  assumes "rt_inv (pr_router p)" and "length i = ID_LEN" and "pr_invalid_sig_strikes p i = None"
    and "\<forall>(a, k, v) \<in> set reqs. \<not> fst (verify_for_key lib k v p)" and "length reqs < 2 ^ 32"
  shows "pr_storage (store_all lib i reqs p) = pr_storage p \<and>
    strikes_of (store_all lib i reqs p) i = of_nat (length reqs) \<and>
    rt_known (pr_router (store_all lib i reqs p)) =
      (if length reqs < 3 then rt_known (pr_router p)
       else {m \<in> rt_known (pr_router p). node_id m \<noteq> i})"
proof -
  have "pr_storage (store_all lib i reqs p) = pr_storage p \<and>
    pr_sig_cache (store_all lib i reqs p) = pr_sig_cache p \<and> pr_now (store_all lib i reqs p) = pr_now p \<and>
    pr_signature_handler (store_all lib i reqs p) = pr_signature_handler p \<and>
    rt_inv (pr_router (store_all lib i reqs p)) \<and>
    strikes_of (store_all lib i reqs p) i = of_nat (length reqs) \<and>
    rt_known (pr_router (store_all lib i reqs p)) =
      (if length reqs < 3 then rt_known (pr_router p)
       else {m \<in> rt_known (pr_router p). node_id m \<noteq> i})"
    using assms(4,5)
  proof (induction reqs rule: rev_induct)
    case Nil
    with assms(1,3) show ?case by (simp add: store_all_def strikes_of_def)
  next
    case (snoc req reqs)
    obtain a k v where req: "req = (a, k, v)" by (cases req)
    define q where "q = store_all lib i reqs p"
    note IH = snoc.IH [folded q_def]
    have q: "pr_sig_cache q = pr_sig_cache p" "pr_now q = pr_now p" "pr_signature_handler q = pr_signature_handler p"
      "pr_storage q = pr_storage p" "rt_inv (pr_router q)" "strikes_of q i = of_nat (length reqs)"
      "rt_known (pr_router q) = (if length reqs < 3 then rt_known (pr_router p)
         else {m \<in> rt_known (pr_router p). node_id m \<noteq> i})"
      using IH snoc.prems by simp_all
    have inv: "\<not> fst (verify_for_key lib k v q)"
      using verify_for_key_cong [OF q(1-3)] snoc.prems(1) req by simp
    have step: "store_all lib i (reqs @ [req]) p = snd (rpc_store lib i a k v q)"
      by (simp add: store_all_def q_def req)
    have cnt: "strikes_of q i + 1 = of_nat (length (reqs @ [req]))" by (simp add: q(6))
    have u: "unat (of_nat n :: u32) = n" if "n < 2 ^ 32" for n
      using that by (simp add: unsigned_of_nat take_bit_nat_eq_self)
    have ban: "strikes_of q i + 1 \<ge> INVALID_SIG_BAN_THRESHOLD \<longleftrightarrow> 3 \<le> length (reqs @ [req])"
      unfolding cnt INVALID_SIG_BAN_THRESHOLD_def word_le_nat_alt u [OF snoc.prems(2)] by simp
    have wf: "wf_node (new_node i (Some (fst a)) (Some (snd a)))" using assms(2) by simp
    show ?case
      unfolding step rpc_store_invalid [OF inv] snd_conv Let_def ban
      using q cnt rt_remove_contact_known [OF q(5) wf] rt_remove_contact_inv [OF q(5)]
      by (auto simp: strikes_of_def)
  qed
  then show ?thesis by blast
qed

lemma reject_all: "sh_signature h v \<noteq> Inr True \<Longrightarrow> sh_issuer h v \<noteq> Inr True \<Longrightarrow>
    pr_sig_cache p = None \<Longrightarrow> pr_signature_handler p = h \<Longrightarrow> \<not> fst (verify_for_key lib k v p)"
  by (simp add: verify_for_key_def Let_def)

theorem invalid_stores_ban_sender_witness:
  "node_id ` rt_known (pr_router (store_all demo_lib (id_byte 128) (replicate 3 (([], 0), demo_key, []))
     (blank_node\<lparr>pr_router := rt_halves (from_id (id_byte 0)) 1 [] [from_id (id_byte 128)]\<rparr>))) = {}"
proof -
  let ?rt = "rt_halves (from_id (id_byte 0)) 1 [] [from_id (id_byte 128)]"
  let ?p = "blank_node\<lparr>pr_router := ?rt\<rparr>"
  let ?reqs = "replicate 3 (([], 0), demo_key, []) :: ((rust_str \<times> u16) \<times> bytes \<times> bytes) list"
  have "rt_inv ?rt" by (rule rt_halves_inv) (simp_all add: ID_LEN_def)
  moreover have "\<not> fst (verify_for_key demo_lib k v ?p)" for k v
    by (rule reject_all [OF _ _ _ refl]) (simp_all add: blank_node_def pr_new_def)
  ultimately have "rt_known (pr_router (store_all demo_lib (id_byte 128) ?reqs ?p)) =
      {m \<in> rt_known ?rt. node_id m \<noteq> id_byte 128}"
    using invalid_stores_ban_sender [of ?p "id_byte 128" ?reqs demo_lib]
    by (simp add: ID_LEN_def blank_node_def pr_new_def)
  then show ?thesis by (auto simp: rt_halves_def rt_known_def kb_known_def)
qed

section \<open>The cache does not separate the key classes\<close>

text \<open>
  C37. With the signature cache on, a self-signed record without an issuer signature can be stored
  as the status list: storing it first under any other key caches the positive result under the
  hash of the record alone. Without the cache the same store is rejected.
\<close>

theorem status_list_store_skips_issuer:
  assumes "nl_moka_get lib = moka_full" and "pr_sig_cache p = Some c"
    and "moka_full c (pr_now p) (nl_sha256 lib v) = None"
    and "k \<noteq> digest (nl_sha1 lib) STATUS_LIST_KEY"
    and "st_get (pr_now p) k (pr_storage p) = None"
    and "st_get (pr_now p) (digest (nl_sha1 lib) STATUS_LIST_KEY) (pr_storage p) = None"
    and "sh_signature (pr_signature_handler p) v = Inr True"
    and "sh_issuer (pr_signature_handler p) v = Inr False"
  shows "fst (rpc_store lib i a k v p) \<and>
    fst (rpc_store lib i a (digest (nl_sha1 lib) STATUS_LIST_KEY) v (snd (rpc_store lib i a k v p))) \<and>
    \<not> fst (rpc_store lib i a (digest (nl_sha1 lib) STATUS_LIST_KEY) v (p\<lparr>pr_sig_cache := None\<rparr>))"
proof -
  let ?st = "digest (nl_sha1 lib) STATUS_LIST_KEY"
  let ?c = "insert_by_key (pr_now p) (nl_sha256 lib v) True c"
  have vf: "verify_for_key lib k v p = (True, p\<lparr>pr_sig_cache := Some ?c\<rparr>)"
    using assms(1-4,7) by (simp add: verify_for_key_def get_by_key_def compute_key_def)
  then have ok: "fst (rpc_store lib i a k v p)" using assms(5) by (simp add: rpc_store_storage)
  have p1: "snd (rpc_store lib i a k v p) = spawn (WelcomeIfNew (new_node i (Some (fst a)) (Some (snd a))))
      (p\<lparr>pr_sig_cache := Some ?c, pr_storage := st_set (pr_now p) k v (pr_storage p)\<rparr>)"
    using assms(5) by (simp add: rpc_store_def vf st_insert_if_absent_eq)
  have hit: "moka_full ?c (pr_now p) (nl_sha256 lib v) = Some True"
    by (simp add: moka_full_insert elapsed_def)
  have "fst (verify_for_key lib ?st v (snd (rpc_store lib i a k v p)))"
    unfolding p1 using hit assms(1) by (simp add: verify_for_key_def get_by_key_def compute_key_def)
  moreover have "st_get (pr_now p) ?st (pr_storage (snd (rpc_store lib i a k v p))) = None"
    unfolding p1 using assms(4,6) by (simp add: st_get_set)
  moreover have "pr_now (snd (rpc_store lib i a k v p)) = pr_now p" unfolding p1 by simp
  ultimately have "fst (rpc_store lib i a ?st v (snd (rpc_store lib i a k v p)))"
    by (simp add: rpc_store_storage)
  moreover have "\<not> fst (rpc_store lib i a ?st v (p\<lparr>pr_sig_cache := None\<rparr>))"
    using assms(8) by (simp add: rpc_store_storage verify_for_key_def)
  ultimately show ?thesis using ok by simp
qed

definition self_only_handler :: sig_handler where
  "self_only_handler = \<lparr>sh_signature = (\<lambda>_. Inr True), sh_update = (\<lambda>_ _ _. Inr False),
     sh_delete = (\<lambda>_ _ _. Inr False), sh_issuer = (\<lambda>_. Inr False)\<rparr>"

theorem status_list_store_skips_issuer_witness:
  "let p = pr_new 0 0 demo_self (st_new 0) 1 self_only_handler (Some (sc_new 4096)) in
    fst (rpc_store demo_lib demo_peer ([], 0) (digest (nl_sha1 demo_lib) STATUS_LIST_KEY) [7]
      (snd (rpc_store demo_lib demo_peer ([], 0) demo_key [7] p)))"
  using status_list_store_skips_issuer [of demo_lib "pr_new 0 0 demo_self (st_new 0) 1 self_only_handler (Some (sc_new 4096))"
      "sc_new 4096" "[7]" demo_key demo_peer "([], 0)"] demo_key_not_status
  by (simp add: pr_new_def self_only_handler_def moka_full_def sc_latest_def sc_new_def Let_def)

section \<open>Welcoming and refreshing\<close>

lemma st_iter_all_readable: "(k, v) \<in> set (st_iter_all now ks s) \<Longrightarrow> st_get now k s = Some v"
  by (auto simp: st_iter_all_def st_entries_set st_get_eq)

text \<open>
  Welcoming a node never changes the store and never loses a contact. Afterwards the node is a
  contact, or a ping of the oldest contact of its full bucket is queued, and if that contact is
  removed the node takes its place. Only readable records are queued for replication, and only to
  the new node.
\<close>

theorem welcome_if_new_effect:
  assumes "rt_inv (pr_router p)" and "wf_node n" and "node_id n \<noteq> node_id (rt_node (pr_router p))"
    and "0 < rt_ksize (pr_router p)" and "welcome_if_new ev n p = Some p'"
  shows "pr_storage p' = pr_storage p \<and>
    node_id ` rt_contacts (pr_router p) \<subseteq> node_id ` rt_contacts (pr_router p') \<and>
    (rt_is_new_node (pr_router p') n \<longrightarrow>
      (\<exists>lru \<in> rt_contacts (pr_router p'). CallPingNode lru \<in> set (drop (length (pr_tasks p)) (pr_tasks p')) \<and>
         \<not> rt_is_new_node (rt_remove_contact lru (pr_router p')) n)) \<and>
    (\<forall>m k v. CallStoreRpc m k v \<in> set (drop (length (pr_tasks p)) (pr_tasks p')) \<longrightarrow>
       m = n \<and> st_get (pr_now p) k (pr_storage p) = Some v)"
proof (rule welcome_if_new_cases [OF assms(5,1,2)])
  assume "p' = p" and "\<not> rt_is_new_node (pr_router p) n"
  then show ?thesis by simp
next
  fix rt1 lru rt2 kvs
  assume rt1: "rt_inv rt1" "rt_node rt1 = rt_node (pr_router p)" "rt_ksize rt1 = rt_ksize (pr_router p)"
      "rt_contacts rt1 = rt_contacts (pr_router p)"
    and add: "rt_add_contact (pr_secs p) n rt1 = Some (lru, rt2)"
    and kvs: "set kvs \<subseteq> set (st_iter_all (pr_now p) (ev_keys ev (pr_storage p)) (pr_storage p))"
    and p': "p' = p\<lparr>pr_router := rt2, pr_tasks := pr_tasks p @
         (case lru of Some l \<Rightarrow> [CallPingNode l] | None \<Rightarrow> []) @ map (\<lambda>(k, v). CallStoreRpc n k v) kvs\<rparr>"
  have other: "node_id n \<noteq> node_id (rt_node rt1)" and k: "0 < rt_ksize rt1" using assms(3,4) rt1 by simp_all
  have ins: "rt_insert (pr_secs p) n rt1 = Some (lru, rt2)" using add other by (simp add: rt_add_contact_def)
  have inv2: "rt_inv rt2" using rt_insert_inv [OF rt1(1) assms(2) other ins] by blast
  have keeps: "node_id ` rt_contacts (pr_router p) \<subseteq> node_id ` rt_contacts rt2"
    using rt_insert_keeps [OF rt1(1) assms(2) other ins] rt1(4) by simp
  have new: "\<exists>l \<in> rt_contacts rt2. lru = Some l \<and> \<not> rt_is_new_node (rt_remove_contact l rt2) n"
    if "rt_is_new_node rt2 n"
  proof (cases lru)
    case None
    then have "n \<in> rt_contacts rt2" using rt_insert_outcome [OF rt1(1) assms(2) other k ins] by simp
    with that show ?thesis by (auto simp: rt_is_new_node_iff [OF inv2 assms(2)])
  next
    case (Some l)
    then obtain pre b post rs where b: "rt_buckets rt2 = pre @ b # post" "kb_head b = Some l" "kb_replacement_nodes b = rs @ [n]"
      using rt_insert_outcome [OF rt1(1) assms(2) other k ins] by auto
    have "\<not> rt_is_new_node (rt_remove_contact l rt2) n"
      using rt_evict_promotes [OF inv2 b] by (simp add: rt_is_new_node_iff [OF rt_remove_contact_inv [OF inv2] assms(2)])
    moreover have "l \<in> rt_contacts rt2" using rt_insert_lru [OF rt1(1) assms(2) other] ins Some by blast
    ultimately show ?thesis using Some by blast
  qed
  have tasks: "drop (length (pr_tasks p)) (pr_tasks p') =
      (case lru of Some l \<Rightarrow> [CallPingNode l] | None \<Rightarrow> []) @ map (\<lambda>(k, v). CallStoreRpc n k v) kvs"
    by (simp add: p')
  have "m = n \<and> st_get (pr_now p) k (pr_storage p) = Some v"
    if "CallStoreRpc m k v \<in> set (drop (length (pr_tasks p)) (pr_tasks p'))" for m k v
    using that kvs st_iter_all_readable unfolding tasks by (auto split: option.splits)
  moreover have "\<exists>l \<in> rt_contacts (pr_router p'). CallPingNode l \<in> set (drop (length (pr_tasks p)) (pr_tasks p')) \<and>
      \<not> rt_is_new_node (rt_remove_contact l (pr_router p')) n" if "rt_is_new_node (pr_router p') n"
    using new that unfolding tasks by (auto simp: p')
  ultimately show ?thesis using keeps by (simp add: p')
qed

theorem welcome_if_new_effect_witness:
  "\<exists>p'. welcome_if_new plain_env (from_id demo_peer) blank_node = Some p' \<and> pr_storage p' = pr_storage blank_node \<and>
     (rt_is_new_node (pr_router p') (from_id demo_peer) \<longrightarrow> rt_contacts (pr_router p') \<noteq> {})"
proof -
  let ?n = "from_id demo_peer"
  have self: "pr_router blank_node = rt_new 0 demo_self 1" by (simp add: blank_node_def pr_new_def)
  obtain rt' where add: "rt_add_contact 0 ?n (rt_new 0 demo_self 1) = Some (None, rt')"
    using rt_add_contact_new [of 1 ?n demo_self 0 0] by simp
  have "pr_secs blank_node = 0" by (simp add: blank_node_def pr_new_def)
  then have "welcome_if_new plain_env ?n blank_node \<noteq> None"
    using add by (simp add: welcome_if_new_def st_iter_all_def st_entries_def self Let_def)
  then obtain p' where p': "welcome_if_new plain_env ?n blank_node = Some p'" by blast
  have "rt_node (rt_new 0 demo_self 1) = demo_self" "rt_ksize (rt_new 0 demo_self 1) = 1" by (simp_all add: rt_new_def)
  with welcome_if_new_effect [OF _ _ _ _ p'] p' show ?thesis
    by (auto simp: self rt_new_inv ID_LEN_def)
qed

lemma kb_chain_nonempty: "kb_chain s bs e \<Longrightarrow> b \<in> set bs \<Longrightarrow> kb_lo b \<le> kb_hi b"
  by (induction bs arbitrary: s) auto

lemma refresh_id_fold: "id_to_u128 (to_be_bytes 16 r @ replicate 4 0) = (r :: u128)"
proof -
  have "from_be_bytes (to_be_bytes 16 r) = r" by (rule from_be_bytes_to_be_bytes) simp
  moreover have "(from_be_bytes (replicate 4 0) :: u32) = 0" by (simp add: from_be_bytes_def be_nat_def numeral_eq_Suc)
  ultimately show ?thesis by (simp add: id_to_u128_def)
qed

text \<open>
  The refresh identifiers are one per lonely bucket, in the order of the buckets, each of twenty
  bytes and inside the range of its bucket.
\<close>

theorem refresh_ids_in_range:
  assumes "rt_inv (pr_router p)"
    and "\<forall>lo hi. lo \<le> hi \<longrightarrow> lo \<le> ev_gen_range ev p lo hi \<and> ev_gen_range ev p lo hi \<le> hi"
  shows "list_all2 (\<lambda>b i. length i = ID_LEN \<and> kb_covers b (id_to_u128 i))
    (rt_lonely_buckets (pr_secs p) (pr_router p)) (get_refresh_ids ev p)"
proof -
  have "kb_lo b \<le> kb_hi b" if "b \<in> set (rt_lonely_buckets (pr_secs p) (pr_router p))" for b
    using that assms(1) kb_chain_nonempty [of 0 "rt_buckets (pr_router p)"] by (auto simp: rt_lonely_buckets_def rt_inv_def)
  then have "kb_covers b (id_to_u128 (to_be_bytes 16 (ev_gen_range ev p (kb_lo b) (kb_hi b)) @ replicate 4 0))"
    if "b \<in> set (rt_lonely_buckets (pr_secs p) (pr_router p))" for b
    using assms(2) that unfolding refresh_id_fold by (auto simp: kb_covers_def)
  then show ?thesis
    by (auto simp: get_refresh_ids_def list_all2_conv_all_nth ID_LEN_def)
qed

theorem refresh_ids_in_range_witness:
  "list_all2 (\<lambda>b i. length i = ID_LEN \<and> kb_covers b (id_to_u128 i))
    (rt_lonely_buckets 4000 (rt_new 0 demo_self 1)) (get_refresh_ids plain_env ((demo_start True)\<lparr>pr_secs := 4000\<rparr>)) \<and>
   length (rt_lonely_buckets 4000 (rt_new 0 demo_self 1)) = 1"
  using refresh_ids_in_range [of "(demo_start True)\<lparr>pr_secs := 4000\<rparr>" plain_env]
  by (simp add: rt_new_inv) (simp add: rt_lonely_buckets_def rt_new_def kb_is_lonely_def kb_new_def)

end
