(* ===== verification/Network.thy ===== *)
theory Network
  imports Protocol_Safety
begin

text \<open>
  \<^verbatim>\<open>src/network.rs\<close>: the server that applications use. It shares its store and its signature cache
  with the protocol once it listens, so from then on both live in the protocol state; the fields
  \<open>sv_storage\<close>, \<open>sv_sig_cache\<close> and \<open>sv_now\<close> are the ones used before. RPCs to several peers run in
  list order with anything happening in between (\<open>ev_wait\<close>). The iteration orders of the hash maps
  of a lookup are the record \<open>orders\<close>. Lookups are partial functions, so are the operations.
\<close>

section \<open>Server\<close>

record server =
  sv_ksize :: nat
  sv_alpha :: nat
  sv_storage :: storage
  sv_node :: node
  sv_protocol :: "protocol option"
  sv_refresh_loop :: bool
  sv_save_state_loop :: bool
  sv_signature_handler :: sig_handler
  sv_sig_cache :: "signature_cache option"
  sv_now :: instant

record orders =
  od_responses :: "responses \<Rightarrow> responses"
  od_counts :: "(bytes \<times> nat) list \<Rightarrow> (bytes \<times> nat) list"

text \<open>\<open>random_bytes\<close> are the 32 bytes of the random number generator.\<close>

definition server_new ::
  "(bytes \<Rightarrow> bytes) \<Rightarrow> bytes \<Rightarrow> instant \<Rightarrow> sig_handler \<Rightarrow> nat \<Rightarrow> nat \<Rightarrow> bytes option \<Rightarrow> storage option \<Rightarrow> bool \<Rightarrow> server" where
  "server_new sha1 random_bytes now signature_handler ksize alpha fixed_id storage use_cache =
     \<lparr>sv_ksize = ksize, sv_alpha = alpha,
      sv_storage = (case storage of Some st \<Rightarrow> st | None \<Rightarrow> st_new (- 1)),
      sv_node = (case fixed_id of Some i \<Rightarrow> from_id i | None \<Rightarrow> from_id (digest_bytes sha1 random_bytes)),
      sv_protocol = None, sv_refresh_loop = False, sv_save_state_loop = False,
      sv_signature_handler = signature_handler,
      sv_sig_cache = (if use_cache then Some (sc_new 4096) else None), sv_now = now\<rparr>"

section \<open>The shared state\<close>

definition sv_store :: "server \<Rightarrow> storage" where
  "sv_store s = (case sv_protocol s of Some p \<Rightarrow> pr_storage p | None \<Rightarrow> sv_storage s)"

definition sv_cache :: "server \<Rightarrow> signature_cache option" where
  "sv_cache s = (case sv_protocol s of Some p \<Rightarrow> pr_sig_cache p | None \<Rightarrow> sv_sig_cache s)"

definition sv_clock :: "server \<Rightarrow> instant" where
  "sv_clock s = (case sv_protocol s of Some p \<Rightarrow> pr_now p | None \<Rightarrow> sv_now s)"

definition sv_set_cache :: "signature_cache option \<Rightarrow> server \<Rightarrow> server" where
  "sv_set_cache c s =
     (case sv_protocol s of
        Some p \<Rightarrow> s\<lparr>sv_protocol := Some (p\<lparr>pr_sig_cache := c\<rparr>)\<rparr>
      | None \<Rightarrow> s\<lparr>sv_sig_cache := c\<rparr>)"

section \<open>Listening\<close>

text \<open>Binding the socket can fail; the receive loop is \<open>pick_worker\<close> and \<open>handle_datagram\<close>.\<close>

definition listen :: "bool \<Rightarrow> nat \<Rightarrow> server \<Rightarrow> bool \<times> server" where
  "listen bind_ok secs s =
     (if \<not> bind_ok then (False, s)
      else
        (True, s\<lparr>sv_protocol :=
            Some (pr_new (sv_clock s) secs (sv_node s) (sv_store s) (sv_ksize s) (sv_signature_handler s) (sv_cache s)),
          sv_refresh_loop := True\<rparr>))"

text \<open>
  A datagram goes to the first worker, starting from the round-robin position, whose queue accepts
  it, and to the base worker when none does; the result is the worker and the next position.
\<close>

fun try_workers :: "(nat \<Rightarrow> bool) \<Rightarrow> nat \<Rightarrow> nat \<Rightarrow> nat list \<Rightarrow> nat option" where
  "try_workers accepts num_workers base [] = None"
| "try_workers accepts num_workers base (i # rest) =
     (let w = (base + i) mod num_workers
      in if accepts w then Some w else try_workers accepts num_workers base rest)"

definition pick_worker :: "(nat \<Rightarrow> bool) \<Rightarrow> nat \<Rightarrow> nat \<Rightarrow> nat \<times> nat" where
  "pick_worker accepts num_workers idx =
     (let base = idx;
          w = (case try_workers accepts num_workers base [0..<num_workers] of
                 Some w \<Rightarrow> w
               | None \<Rightarrow> base mod num_workers)
      in (w, (w + 1) mod num_workers))"

section \<open>Signature checks\<close>

definition verify_value :: "net_lib \<Rightarrow> rust_str \<Rightarrow> bytes \<Rightarrow> server \<Rightarrow> bool \<times> server" where
  "verify_value lib key value s =
     (let is_status = (key = STATUS_LIST_KEY);
          cache_key = compute_key (nl_sha256 lib) value;
          cached = (case sv_cache s of
                      None \<Rightarrow> None
                    | Some cache \<Rightarrow> get_by_key (nl_moka_get lib) (sv_clock s) cache_key cache)
      in case cached of
           Some b \<Rightarrow> (b, s)
         | None \<Rightarrow>
             let h = sv_signature_handler s;
                 result = unwrap_or_false (if is_status then sh_issuer h value else sh_signature h value)
             in (result,
                 if result
                 then sv_set_cache (map_option (insert_by_key (sv_clock s) cache_key result) (sv_cache s)) s
                 else s))"

section \<open>Lookups\<close>

definition neighbors_of :: "node \<Rightarrow> protocol \<Rightarrow> node list \<times> protocol" where
  "neighbors_of target p =
     (let (ns, router1) = rt_find_neighbors (pr_secs p) (pr_router p) target None
      in (ns, p\<lparr>pr_router := router1\<rparr>))"

definition crawl_value ::
  "net_lib \<Rightarrow> env \<Rightarrow> orders \<Rightarrow> server \<Rightarrow> bytes \<Rightarrow> node list \<Rightarrow> protocol \<Rightarrow> ((bytes option \<times> node list) \<times> protocol) option" where
  "crawl_value lib ev od s dkey nearest p =
     value_find (call_find_value lib ev) (call_store lib ev) (od_responses od) (od_counts od)
       (value_crawl_new (from_id dkey) nearest (sv_ksize s) (sv_alpha s)) p"

definition crawl_nodes ::
  "net_lib \<Rightarrow> env \<Rightarrow> orders \<Rightarrow> server \<Rightarrow> node \<Rightarrow> node list \<Rightarrow> protocol \<Rightarrow> (node list \<times> protocol) option" where
  "crawl_nodes lib ev od s target nearest p =
     node_find (call_find_node lib ev) (od_responses od)
       (crawl_new target nearest (sv_ksize s) (sv_alpha s)) p"

definition sv_get :: "net_lib \<Rightarrow> env \<Rightarrow> orders \<Rightarrow> rust_str \<Rightarrow> server \<Rightarrow> (bytes option \<times> server) option" where
  "sv_get lib ev od key s =
     (let dkey = digest (nl_sha1 lib) key
      in case st_get (sv_clock s) dkey (sv_store s) of
           Some result \<Rightarrow>
             let (ok, s1) = verify_value lib key result s
             in Some (if ok then Some result else None, s1)
         | None \<Rightarrow>
             (case sv_protocol s of
                None \<Rightarrow> Some (None, s)
              | Some p \<Rightarrow>
                  let (nearest, p1) = neighbors_of (from_id dkey) p
                  in if nearest = [] then Some (None, s\<lparr>sv_protocol := Some p1\<rparr>)
                     else
                       (case crawl_value lib ev od s dkey nearest p1 of
                          None \<Rightarrow> None
                        | Some ((result, _), p2) \<Rightarrow>
                            let s1 = s\<lparr>sv_protocol := Some p2\<rparr>
                            in (case result of
                                  None \<Rightarrow> Some (None, s1)
                                | Some v \<Rightarrow>
                                    let (ok, s2) = verify_value lib key v s1
                                    in Some (if ok then Some v else None, s2)))))"

definition check_exists_and_get_nodes ::
  "net_lib \<Rightarrow> env \<Rightarrow> orders \<Rightarrow> rust_str \<Rightarrow> server \<Rightarrow> ((bool \<times> node list) \<times> server) option" where
  "check_exists_and_get_nodes lib ev od key s =
     (let dkey = digest (nl_sha1 lib) key
      in if st_get (sv_clock s) dkey (sv_store s) \<noteq> None then Some ((True, []), s)
         else
           (case sv_protocol s of
              None \<Rightarrow> Some ((False, []), s)
            | Some p \<Rightarrow>
                let (nearest, p1) = neighbors_of (from_id dkey) p
                in if nearest = [] then Some ((False, []), s\<lparr>sv_protocol := Some p1\<rparr>)
                   else
                     (case crawl_value lib ev od s dkey nearest p1 of
                        None \<Rightarrow> None
                      | Some ((result, ns), p2) \<Rightarrow>
                          let s1 = s\<lparr>sv_protocol := Some p2\<rparr>
                          in (case result of
                                None \<Rightarrow> Some ((False, ns), s1)
                              | Some v \<Rightarrow>
                                  let (ok, s2) = verify_value lib key v s1
                                  in Some (if ok then (True, []) else (False, ns), s2)))))"

section \<open>Publishing\<close>

text \<open>One RPC per node; \<open>join_all\<close> returns the results in order.\<close>

fun call_each :: "(node \<Rightarrow> protocol \<Rightarrow> bool \<times> protocol) \<Rightarrow> node list \<Rightarrow> protocol \<Rightarrow> bool list \<times> protocol" where
  "call_each rpc [] p = ([], p)"
| "call_each rpc (n # ns) p =
     (let (r, p1) = rpc n p;
          (rs, p2) = call_each rpc ns p1
      in (r # rs, p2))"

text \<open>The server keeps a copy when it is closer to the key than the farthest node found.\<close>

definition keep_copy :: "server \<Rightarrow> bytes \<Rightarrow> bytes \<Rightarrow> node list \<Rightarrow> protocol \<Rightarrow> protocol" where
  "keep_copy s dkey value ns p =
     (let target = from_id dkey
      in if ns \<noteq> [] \<and> distance_to (sv_node s) target < Max (set (map (\<lambda>n. distance_to n target) ns))
         then p\<lparr>pr_storage := st_set (pr_now p) dkey value (pr_storage p)\<rparr> else p)"

definition set_digest ::
  "net_lib \<Rightarrow> env \<Rightarrow> bytes \<Rightarrow> bytes \<Rightarrow> node list \<Rightarrow> server \<Rightarrow> bool \<times> server" where
  "set_digest lib ev dkey value ns s =
     (case sv_protocol s of
        None \<Rightarrow> (False, s)
      | Some p \<Rightarrow>
          if ns = [] then (False, s)
          else
            let p1 = keep_copy s dkey value ns p;
                (results, p2) = call_each (\<lambda>n. call_store_rpc lib ev n dkey value) ns p1;
                ok_count = length (filter (\<lambda>r. r) results)
            in (ok_count > 0, s\<lparr>sv_protocol := Some p2\<rparr>))"

definition sv_set ::
  "net_lib \<Rightarrow> env \<Rightarrow> orders \<Rightarrow> rust_str \<Rightarrow> bytes \<Rightarrow> server \<Rightarrow> (bool option \<times> server) option" where
  "sv_set lib ev od key value s =
     (case check_exists_and_get_nodes lib ev od key s of
        None \<Rightarrow> None
      | Some ((exists, ns), s1) \<Rightarrow>
          if exists then Some (None, s1)
          else
            let (ok, s2) = verify_value lib key value s1
            in if \<not> ok then Some (None, s2)
               else
                 let dkey = digest (nl_sha1 lib) key;
                     (res, s3) = set_digest lib ev dkey value ns s2
                 in Some (Some res, s3))"

definition update_digest ::
  "net_lib \<Rightarrow> env \<Rightarrow> orders \<Rightarrow> rust_str \<Rightarrow> bytes \<Rightarrow> bytes \<Rightarrow> bytes option \<Rightarrow> server \<Rightarrow> (bool \<times> server) option" where
  "update_digest lib ev od key dkey value auth_signature s =
     (case sv_protocol s of
        None \<Rightarrow> Some (False, s)
      | Some p \<Rightarrow>
          let (nearest, p1) = neighbors_of (from_id dkey) p
          in if nearest = [] then Some (False, s\<lparr>sv_protocol := Some p1\<rparr>)
             else
               (case crawl_nodes lib ev od s (from_id dkey) nearest p1 of
                  None \<Rightarrow> None
                | Some (ns, p2) \<Rightarrow>
                    let p3 = keep_copy s dkey value ns p2;
                        is_status_list = (key = STATUS_LIST_KEY);
                        sig = (case auth_signature of Some a \<Rightarrow> a | None \<Rightarrow> []);
                        (results, p4) = call_each
                          (\<lambda>n. if is_status_list then call_status_list_update_rpc lib ev n dkey value
                               else call_update_rpc lib ev n dkey value sig) ns p3
                    in Some (list_ex (\<lambda>r. r) results, s\<lparr>sv_protocol := Some p4\<rparr>)))"

definition sv_update ::
  "net_lib \<Rightarrow> env \<Rightarrow> orders \<Rightarrow> rust_str \<Rightarrow> bytes \<Rightarrow> bytes option \<Rightarrow> server \<Rightarrow> (bool option \<times> server) option" where
  "sv_update lib ev od key value auth_signature s =
     (case sv_get lib ev od key s of
        None \<Rightarrow> None
      | Some (None, s1) \<Rightarrow> Some (None, s1)
      | Some (Some old_value, s1) \<Rightarrow>
          let h = sv_signature_handler s1;
              is_status = (key = STATUS_LIST_KEY \<and> auth_signature = None);
              ok = unwrap_or_false
                (if is_status then sh_issuer h value
                 else sh_update h value old_value (case auth_signature of Some a \<Rightarrow> a | None \<Rightarrow> []))
          in if \<not> ok then Some (None, s1)
             else
               (case update_digest lib ev od key (digest (nl_sha1 lib) key) value auth_signature s1 of
                  None \<Rightarrow> None
                | Some (res, s2) \<Rightarrow> Some (Some res, s2)))"

definition delete_digest ::
  "net_lib \<Rightarrow> env \<Rightarrow> orders \<Rightarrow> bytes \<Rightarrow> bytes \<Rightarrow> bytes \<Rightarrow> server \<Rightarrow> (bool \<times> server) option" where
  "delete_digest lib ev od dkey auth_signature delete_msg s =
     (case sv_protocol s of
        None \<Rightarrow> Some (False, s)
      | Some p \<Rightarrow>
          let p1 = p\<lparr>pr_storage := st_delete dkey (pr_storage p)\<rparr>;
              (nearest, p2) = neighbors_of (from_id dkey) p1
          in if nearest = [] then Some (True, s\<lparr>sv_protocol := Some p2\<rparr>)
             else
               (case crawl_nodes lib ev od s (from_id dkey) nearest p2 of
                  None \<Rightarrow> None
                | Some (ns, p3) \<Rightarrow>
                    let (results, p4) = call_each (\<lambda>n. call_delete_rpc lib ev n dkey auth_signature delete_msg) ns p3
                    in Some (True, s\<lparr>sv_protocol := Some p4\<rparr>)))"

definition sv_delete ::
  "net_lib \<Rightarrow> env \<Rightarrow> orders \<Rightarrow> rust_str \<Rightarrow> bytes \<Rightarrow> bytes \<Rightarrow> server \<Rightarrow> (bool option \<times> server) option" where
  "sv_delete lib ev od key auth_signature delete_msg s =
     (case sv_get lib ev od key s of
        None \<Rightarrow> None
      | Some (None, s1) \<Rightarrow> Some (None, s1)
      | Some (Some value, s1) \<Rightarrow>
          if \<not> unwrap_or_false (sh_delete (sv_signature_handler s1) value auth_signature delete_msg)
          then Some (None, s1)
          else
            (case delete_digest lib ev od (digest (nl_sha1 lib) key) auth_signature delete_msg s1 of
               None \<Rightarrow> None
             | Some (res, s2) \<Rightarrow> Some (Some res, s2)))"

section \<open>Joining, leaving and maintenance\<close>

definition bootstrap_node ::
  "net_lib \<Rightarrow> env \<Rightarrow> rust_str \<times> u16 \<Rightarrow> protocol \<Rightarrow> node option \<times> protocol" where
  "bootstrap_node lib ev addr p =
     (let ((ok, id_bytes), p1) = call_ping_addr lib ev addr p
      in (if \<not> ok \<or> length id_bytes \<noteq> ID_LEN then None
          else Some (new_node id_bytes (Some (fst addr)) (Some (snd addr))), p1))"

fun bootstrap_all ::
  "net_lib \<Rightarrow> env \<Rightarrow> (rust_str \<times> u16) list \<Rightarrow> protocol \<Rightarrow> node list \<times> protocol" where
  "bootstrap_all lib ev [] p = ([], p)"
| "bootstrap_all lib ev (addr # addrs) p =
     (let (r, p1) = bootstrap_node lib ev addr p;
          (ns, p2) = bootstrap_all lib ev addrs p1
      in (case r of Some n \<Rightarrow> n # ns | None \<Rightarrow> ns, p2))"

definition bootstrap ::
  "net_lib \<Rightarrow> env \<Rightarrow> orders \<Rightarrow> (rust_str \<times> u16) list \<Rightarrow> server \<Rightarrow> (node list \<times> server) option" where
  "bootstrap lib ev od addrs s =
     (case sv_protocol s of
        None \<Rightarrow> Some ([], s)
      | Some p \<Rightarrow>
          let (ns, p1) = bootstrap_all lib ev addrs p
          in (case crawl_nodes lib ev od s (sv_node s) ns p1 of
                None \<Rightarrow> None
              | Some (found, p2) \<Rightarrow> Some (found, s\<lparr>sv_protocol := Some p2\<rparr>)))"

definition stop :: "net_lib \<Rightarrow> env \<Rightarrow> server \<Rightarrow> server" where
  "stop lib ev s =
     (let s1 = (case sv_protocol s of
                  None \<Rightarrow> s
                | Some p \<Rightarrow>
                    let (ns, p1) = neighbors_of (sv_node s) p
                    in s\<lparr>sv_protocol := Some (fold (call_leave_rpc lib ev) ns p1)\<rparr>)
      in s1\<lparr>sv_refresh_loop := False, sv_save_state_loop := False\<rparr>)"

definition bootstrappable_neighbors :: "server \<Rightarrow> (rust_str \<times> u16) list \<times> server" where
  "bootstrappable_neighbors s =
     (case sv_protocol s of
        None \<Rightarrow> ([], s)
      | Some p \<Rightarrow>
          let (ns, p1) = neighbors_of (sv_node s) p
          in (List.map_filter address ns, s\<lparr>sv_protocol := Some p1\<rparr>))"

text \<open>The content of the state file; writing it is left to the file system.\<close>

record saved_state =
  ss_ksize :: nat
  ss_alpha :: nat
  ss_id :: bytes
  ss_neighbors :: "(rust_str \<times> u16) list"

definition save_state :: "server \<Rightarrow> saved_state option \<times> server" where
  "save_state s =
     (let (ns, s1) = bootstrappable_neighbors s
      in if ns = [] then (None, s1)
         else (Some \<lparr>ss_ksize = sv_ksize s, ss_alpha = sv_alpha s, ss_id = node_id (sv_node s), ss_neighbors = ns\<rparr>, s1))"

definition save_state_regularly :: "server \<Rightarrow> server" where
  "save_state_regularly s = (case sv_protocol s of None \<Rightarrow> s | Some p \<Rightarrow> s\<lparr>sv_save_state_loop := True\<rparr>)"

definition save_state_round :: "server \<Rightarrow> protocol \<Rightarrow> saved_state option \<times> protocol" where
  "save_state_round s p =
     (let (ns, p1) = neighbors_of (sv_node s) p;
          addrs = List.map_filter address ns
      in (if addrs \<noteq> []
          then Some \<lparr>ss_ksize = sv_ksize s, ss_alpha = sv_alpha s, ss_id = node_id (sv_node s), ss_neighbors = addrs\<rparr>
          else None, p1))"

text \<open>One round of the hourly refresh: a lookup per lonely bucket, then a store of every old record.\<close>

fun refresh_targets :: "bytes list \<Rightarrow> protocol \<Rightarrow> (node \<times> node list) list \<times> protocol" where
  "refresh_targets [] p = ([], p)"
| "refresh_targets (rid # rids) p =
     (let rnode = from_id rid;
          (neighbors, p1) = neighbors_of rnode p;
          (rest, p2) = refresh_targets rids p1
      in ((rnode, neighbors) # rest, p2))"

fun refresh_buckets ::
  "net_lib \<Rightarrow> env \<Rightarrow> orders \<Rightarrow> server \<Rightarrow> (node \<times> node list) list \<Rightarrow> protocol \<Rightarrow> protocol option" where
  "refresh_buckets lib ev od s [] p = Some p"
| "refresh_buckets lib ev od s ((rnode, neighbors) # rest) p =
     (case crawl_nodes lib ev od s rnode neighbors p of
        None \<Rightarrow> None
      | Some (_, p1) \<Rightarrow> refresh_buckets lib ev od s rest p1)"

fun republish ::
  "net_lib \<Rightarrow> env \<Rightarrow> orders \<Rightarrow> server \<Rightarrow> (bytes \<times> bytes) list \<Rightarrow> protocol \<Rightarrow> protocol option" where
  "republish lib ev od s [] p = Some p"
| "republish lib ev od s ((key, value) # entries) p =
     (if length key \<noteq> ID_LEN then republish lib ev od s entries p
      else
        let target = from_id key;
            (neighbors, p1) = neighbors_of target p
        in if neighbors = [] then republish lib ev od s entries p1
           else
             (case crawl_nodes lib ev od s target neighbors p1 of
                None \<Rightarrow> None
              | Some (ns, p2) \<Rightarrow>
                  republish lib ev od s entries
                    (snd (call_each (\<lambda>n. call_store_rpc lib ev n key value) ns p2))))"

definition refresh_round ::
  "net_lib \<Rightarrow> env \<Rightarrow> orders \<Rightarrow> server \<Rightarrow> protocol \<Rightarrow> protocol option" where
  "refresh_round lib ev od s p =
     (let (targets, p0) = refresh_targets (get_refresh_ids ev p) p
      in case refresh_buckets lib ev od s targets p0 of
        None \<Rightarrow> None
      | Some p1 \<Rightarrow>
          republish lib ev od s
            (st_iter_older_than (pr_now p1) (ev_keys ev (pr_storage p1)) 3600 (pr_storage p1)) p1)"

text \<open>The numbers of the statistics line: contacts, records and cached results.\<close>

definition stats :: "env \<Rightarrow> (signature_cache \<Rightarrow> u64) \<Rightarrow> protocol \<Rightarrow> nat \<times> nat \<times> u64 option" where
  "stats ev moka_count p =
     (sum_list (map kb_len (rt_buckets (pr_router p))),
      length (st_iter_all (pr_now p) (ev_keys ev (pr_storage p)) (pr_storage p)),
      map_option (entry_count moka_count) (pr_sig_cache p))"

end
