(* ===== verification/Network_Safety.thy ===== *)
theory Network_Safety
  imports Network
begin

text \<open>
  What the server of \<^verbatim>\<open>src/network.rs\<close> guarantees: every operation returns, keeps the invariant of the
  node and of the shared store and cache, hands out only verified records, and publishes only
  authorised changes. While an operation waits for a peer, anything may happen that keeps the
  invariant of the node (\<open>calm\<close>); the operations themselves keep it, so they may run concurrently.
\<close>

section \<open>The server invariant\<close>

definition sv_inv :: "net_lib \<Rightarrow> sig_handler \<Rightarrow> bool \<Rightarrow> server \<Rightarrow> bool" where
  "sv_inv lib h cd s \<longleftrightarrow>
     sv_signature_handler s = h \<and>
     fs.keeps (\<lambda>k. accepted lib h cd) (sv_store s) \<and> cache_valid lib h (sv_cache s) \<and>
     (sv_cache s \<noteq> None) = cd \<and>
     (case sv_protocol s of None \<Rightarrow> True | Some p \<Rightarrow> pr_inv lib h (sv_node s) cd p)"

lemma sv_inv_protocol:
  "sv_inv lib h cd s \<Longrightarrow> pr_inv lib h (sv_node s) cd p \<Longrightarrow> sv_inv lib h cd (s\<lparr>sv_protocol := Some p\<rparr>)"
  using pr_invD(8-10) [of lib h "sv_node s" cd p] by (simp add: sv_inv_def sv_store_def sv_cache_def)

lemma sv_invD:
  assumes "sv_inv lib h cd s"
  shows "sv_signature_handler s = h" "fs.keeps (\<lambda>k. accepted lib h cd) (sv_store s)"
    "cache_valid lib h (sv_cache s)" "(sv_cache s \<noteq> None) = cd"
    "sv_protocol s = Some p \<Longrightarrow> pr_inv lib h (sv_node s) cd p"
  using assms by (auto simp: sv_inv_def)

lemma sv_inv_cache:
  assumes "sv_inv lib h cd s" and "cache_valid lib h c" and "(c \<noteq> None) = cd"
  shows "sv_inv lib h cd (sv_set_cache c s)"
proof (cases "sv_protocol s")
  case None
  with assms show ?thesis by (simp add: sv_inv_def sv_set_cache_def sv_store_def sv_cache_def)
next
  case (Some p)
  have "pr_inv lib h (sv_node s) cd (p\<lparr>pr_sig_cache := c\<rparr>)"
    by (rule pr_inv_cache [OF sv_invD(5) [OF assms(1) Some] assms(2,3)])
  from sv_inv_protocol [OF assms(1) this] show ?thesis by (simp add: sv_set_cache_def Some)
qed

lemma sv_set_cache_sel [simp]:
  "sv_node (sv_set_cache c s) = sv_node s" "sv_signature_handler (sv_set_cache c s) = sv_signature_handler s"
  "sv_ksize (sv_set_cache c s) = sv_ksize s" "sv_alpha (sv_set_cache c s) = sv_alpha s"
  "sv_store (sv_set_cache c s) = sv_store s"
  by (simp_all add: sv_set_cache_def sv_store_def split: option.split)

text \<open>What a positive check says: exact without the cache, up to the hash with it.\<close>

definition verified :: "net_lib \<Rightarrow> sig_handler \<Rightarrow> bool \<Rightarrow> rust_str \<Rightarrow> bytes \<Rightarrow> bool" where
  "verified lib h cd key v \<longleftrightarrow>
     (if cd then accepted lib h True v
      else (if key = STATUS_LIST_KEY then sh_issuer h v else sh_signature h v) = Inr True)"

lemma verified_accepted: "verified lib h cd key v \<Longrightarrow> accepted lib h cd v"
  by (auto simp: verified_def accepted_def split: if_splits)

lemma verify_value_inv:
  assumes "lib_ok lib" and inv: "sv_inv lib h cd s" and vv: "verify_value lib key v s = (ok, s')"
  shows "sv_inv lib h cd s' \<and> (ok \<longrightarrow> verified lib h cd key v) \<and> sv_node s' = sv_node s \<and>
    sv_ksize s' = sv_ksize s \<and> sv_alpha s' = sv_alpha s \<and> sv_store s' = sv_store s"
proof (cases "case sv_cache s of None \<Rightarrow> None
    | Some cache \<Rightarrow> get_by_key (nl_moka_get lib) (sv_clock s) (compute_key (nl_sha256 lib) v) cache")
  case (Some b)
  then obtain c where c: "sv_cache s = Some c"
    "get_by_key (nl_moka_get lib) (sv_clock s) (compute_key (nl_sha256 lib) v) c = Some b"
    by (auto split: option.splits)
  then have "cache_ok (nl_sha256 lib) (\<lambda>v. sh_signature h v = Inr True \<or> sh_issuer h v = Inr True) c"
    using sv_invD(3) [OF inv] by (simp add: cache_valid_def)
  from cache_ok_get [OF lib_okD(1) [OF assms(1)] this c(2)] have "verified lib h cd key v"
    using sv_invD(4) [OF inv] c(1) by (auto simp: verified_def accepted_def)
  with c inv vv show ?thesis by (simp add: verify_value_def)
next
  case None
  let ?r = "unwrap_or_false (if key = STATUS_LIST_KEY then sh_issuer h v else sh_signature h v)"
  let ?c = "map_option (insert_by_key (sv_clock s) (compute_key (nl_sha256 lib) v) True) (sv_cache s)"
  have "verify_value lib key v s = (?r, if ?r then sv_set_cache ?c s else s)"
    using None sv_invD(1) [OF inv] by (simp add: verify_value_def Let_def)
  then have eq: "ok = ?r" "s' = (if ?r then sv_set_cache ?c s else s)" using vv by simp_all
  have ver: "verified lib h cd key v" if ?r
    using that by (auto simp: verified_def accepted_def split: if_splits)
  have "cache_valid lib h ?c" if ?r
    using that sv_invD(3) [OF inv] by (auto simp: cache_valid_def intro!: cache_ok_insert split: option.split if_splits)
  then have "sv_inv lib h cd s'"
    using sv_inv_cache [OF inv] sv_invD(4) [OF inv] inv by (simp add: eq)
  then show ?thesis using ver by (simp add: eq)
qed

lemma rt_find_neighbors_subset:
  assumes "rt_inv rt"
  shows "set (fst (rt_find_neighbors now rt target ex)) \<subseteq> rt_contacts rt"
proof (cases "0 < rt_ksize rt")
  case True
  from rt_find_neighbors_spec(3) [OF assms True refl] show ?thesis by blast
next
  case False
  then have "\<forall>b \<in> set (rt_buckets rt). kb_nodes b = []"
    using rt_inv_bucket [OF assms] assms by (auto simp: rt_inv_def kb_ok_def kb_inv_def)
  then have "mset (tt_yield (fst (tt_new now rt target))) = {#}"
    by (simp add: mset_tt_yield_new [OF assms])
  then have "tt_yield (fst (tt_new now rt target)) = []" by simp
  then have "fst (tt_next (fst (tt_new now rt target))) = None"
    using tt_next_yield [of "fst (tt_new now rt target)"] by (auto split: prod.splits option.splits)
  then have "rt_collect k target ex (fst (tt_new now rt target)) [] = []" for k
    by (subst rt_collect.simps) (auto split: prod.splits)
  then show ?thesis by (simp add: rt_find_neighbors_def Let_def split_def)
qed

lemma neighbors_of_inv:
  assumes "pr_inv lib h self cd p" and "neighbors_of target p = (ns, p1)"
  shows "pr_inv lib h self cd p1 \<and> (\<forall>n \<in> set ns. wf_node n)"
proof -
  note inv = pr_invD(3) [OF assms(1)]
  have eq: "ns = fst (rt_find_neighbors (pr_secs p) (pr_router p) target None)"
    "p1 = p\<lparr>pr_router := snd (rt_find_neighbors (pr_secs p) (pr_router p) target None)\<rparr>"
    using assms(2) by (auto simp: neighbors_of_def Let_def split_def)
  have "set ns \<subseteq> rt_contacts (pr_router p)"
    using eq(1) rt_find_neighbors_subset [OF inv] by simp
  then show ?thesis
    using pr_inv_neighbors [OF assms(1)] eq(2) rt_known_wf [OF inv] rt_contacts_known by blast
qed

definition orders_ok :: "orders \<Rightarrow> bool" where
  "orders_ok od \<longleftrightarrow> hash_iteration (od_responses od) \<and> hash_iteration (od_counts od)"

lemma crawl_value_runs:
  assumes "orders_ok od" and "calm lib h self cd ev" and "pr_inv lib h self cd p" and "\<forall>n \<in> set ns. wf_node n"
  shows "\<exists>v ms p1. crawl_value lib ev od s dkey ns p = Some ((v, ms), p1) \<and> pr_inv lib h self cd p1 \<and>
    (\<forall>n \<in> set ms. wf_node n) \<and> (v \<noteq> None \<longrightarrow> ms = [])"
proof -
  let ?c = "value_crawl_new (from_id dkey) ns (sv_ksize s) (sv_alpha s)"
  have "nh_inv (cr_nearest (vc_base ?c))" by (simp add: value_crawl_new_def crawl_new_inv [OF assms(4)])
  moreover have "rpc_keeps (pr_inv lib h self cd) (call_find_value lib ev)"
    using pr_inv_calls(8) [OF assms(2)] by (simp add: rpc_keeps_def)
  moreover have "\<forall>peer k v p. pr_inv lib h self cd p \<longrightarrow> pr_inv lib h self cd (snd (call_store lib ev peer k v p))"
    using pr_inv_calls(2) [OF assms(2)] by (simp add: call_store_def)
  ultimately show ?thesis
    using value_find_keeps [of "od_responses od" ?c "pr_inv lib h self cd" "call_find_value lib ev" "call_store lib ev" p "od_counts od"]
      assms(1,3) unfolding crawl_value_def orders_ok_def by blast
qed

lemma crawl_nodes_runs:
  assumes "orders_ok od" and "calm lib h self cd ev" and "pr_inv lib h self cd p" and "\<forall>n \<in> set ns. wf_node n"
  shows "\<exists>ms p1. crawl_nodes lib ev od s target ns p = Some (ms, p1) \<and> pr_inv lib h self cd p1 \<and>
    (\<forall>n \<in> set ms. wf_node n)"
proof -
  let ?c = "crawl_new target ns (sv_ksize s) (sv_alpha s)"
  have "nh_inv (cr_nearest ?c)" by (rule crawl_new_inv [OF assms(4)])
  moreover have "rpc_keeps (pr_inv lib h self cd) (call_find_node lib ev)"
    using pr_inv_calls(7) [OF assms(2)] by (simp add: rpc_keeps_def)
  ultimately show ?thesis
    using node_find_keeps [of "od_responses od" ?c "pr_inv lib h self cd" "call_find_node lib ev" p]
      assms(1,3) unfolding crawl_nodes_def orders_ok_def by blast
qed

lemma call_each_keeps:
  "\<forall>n p. I p \<longrightarrow> I (snd (rpc n p)) \<Longrightarrow> I p \<Longrightarrow> I (snd (call_each rpc ns p))"
  by (induction ns arbitrary: p) (auto simp: Let_def split_def)

lemma keep_copy_inv:
  "pr_inv lib h self cd p \<Longrightarrow> accepted lib h cd v \<Longrightarrow> pr_inv lib h self cd (keep_copy s dkey v ns p)"
  by (simp add: keep_copy_def Let_def pr_inv_store_set)

section \<open>The operations return and keep the invariant\<close>

text \<open>The state after an operation: the invariant holds and the identity of the server is the same.\<close>

definition sv_next :: "net_lib \<Rightarrow> sig_handler \<Rightarrow> bool \<Rightarrow> server \<Rightarrow> server \<Rightarrow> bool" where
  "sv_next lib h cd s s' \<longleftrightarrow> sv_inv lib h cd s' \<and> sv_node s' = sv_node s"

lemma sv_next_trans: "sv_next lib h cd s s1 \<Longrightarrow> sv_next lib h cd s1 s2 \<Longrightarrow> sv_next lib h cd s s2"
  by (simp add: sv_next_def)

lemma sv_next_protocol:
  "sv_inv lib h cd s \<Longrightarrow> pr_inv lib h (sv_node s) cd p \<Longrightarrow> sv_next lib h cd s (s\<lparr>sv_protocol := Some p\<rparr>)"
  by (simp add: sv_next_def sv_inv_protocol)

lemma verify_value_next:
  "lib_ok lib \<Longrightarrow> sv_inv lib h cd s \<Longrightarrow> verify_value lib key v s = (ok, s') \<Longrightarrow>
    sv_next lib h cd s s' \<and> (ok \<longrightarrow> verified lib h cd key v)"
  using verify_value_inv by (fastforce simp: sv_next_def)

text \<open>The network part of a lookup: the neighbours are found and the crawl ends.\<close>

lemma lookup_runs:
  assumes "orders_ok od" and "calm lib h (sv_node s) cd ev" and inv: "sv_inv lib h cd s" and "sv_protocol s = Some p"
  obtains ns p1 r ms p2 where "neighbors_of (from_id k) p = (ns, p1)"
    and "crawl_value lib ev od s k ns p1 = Some ((r, ms), p2)"
    and "sv_next lib h cd s (s\<lparr>sv_protocol := Some p1\<rparr>)" and "sv_next lib h cd s (s\<lparr>sv_protocol := Some p2\<rparr>)"
    and "r \<noteq> None \<longrightarrow> ms = []"
proof -
  obtain ns p1 where ns: "neighbors_of (from_id k) p = (ns, p1)" by fastforce
  note near = neighbors_of_inv [OF sv_invD(5) [OF inv assms(4)] ns]
  obtain r ms p2 where "crawl_value lib ev od s k ns p1 = Some ((r, ms), p2)" "pr_inv lib h (sv_node s) cd p2"
    "r \<noteq> None \<longrightarrow> ms = []"
    using crawl_value_runs [OF assms(1,2), of p1 ns] near by blast
  then show thesis using that ns sv_next_protocol [OF inv] near by blast
qed

lemma verify_found:
  assumes "lib_ok lib" and "sv_next lib h cd s s1" and "verify_value lib key v s1 = (ok, s2)"
  shows "sv_next lib h cd s s2" and "ok \<Longrightarrow> verified lib h cd key v"
  using verify_value_next [OF assms(1) _ assms(3)] assms(2) sv_next_trans by (auto simp: sv_next_def)

lemma sv_get_runs:
  assumes lib: "lib_ok lib" and "orders_ok od" and "calm lib h (sv_node s) cd ev" and inv: "sv_inv lib h cd s"
  shows "\<exists>r s'. sv_get lib ev od key s = Some (r, s') \<and> sv_next lib h cd s s' \<and>
    (\<forall>v. r = Some v \<longrightarrow> verified lib h cd key v)"
proof (cases "st_get (sv_clock s) (digest (nl_sha1 lib) key) (sv_store s)")
  case (Some v)
  obtain ok s1 where vv: "verify_value lib key v s = (ok, s1)" by fastforce
  with Some verify_value_next [OF lib inv vv] show ?thesis by (simp add: sv_get_def Let_def)
next
  case absent: None
  show ?thesis
  proof (cases "sv_protocol s")
    case None
    with absent inv show ?thesis by (simp add: sv_get_def sv_next_def)
  next
    case (Some p)
    obtain ns p1 r ms p2 where lk: "neighbors_of (from_id (digest (nl_sha1 lib) key)) p = (ns, p1)"
      "crawl_value lib ev od s (digest (nl_sha1 lib) key) ns p1 = Some ((r, ms), p2)"
      "sv_next lib h cd s (s\<lparr>sv_protocol := Some p1\<rparr>)" "sv_next lib h cd s (s\<lparr>sv_protocol := Some p2\<rparr>)"
      "r \<noteq> None \<longrightarrow> ms = []"
      by (rule lookup_runs [OF assms(2-4) Some])
    show ?thesis
    proof (cases r)
      case None
      with lk absent Some show ?thesis by (simp add: sv_get_def Let_def)
    next
      case found: (Some v)
      obtain ok s2 where vv: "verify_value lib key v (s\<lparr>sv_protocol := Some p2\<rparr>) = (ok, s2)" by fastforce
      with lk absent Some found verify_found [OF lib lk(4) vv] show ?thesis by (simp add: sv_get_def Let_def)
    qed
  qed
qed

text \<open>A lookup that found a value returns no nodes, whether or not the value verifies.\<close>

lemma check_exists_runs:
  assumes lib: "lib_ok lib" and "orders_ok od" and "calm lib h (sv_node s) cd ev" and inv: "sv_inv lib h cd s"
  shows "\<exists>e ns s'. check_exists_and_get_nodes lib ev od key s = Some ((e, ns), s') \<and> sv_next lib h cd s s' \<and>
    (\<not> e \<longrightarrow> st_get (sv_clock s) (digest (nl_sha1 lib) key) (sv_store s) = None)"
proof (cases "st_get (sv_clock s) (digest (nl_sha1 lib) key) (sv_store s)")
  case (Some v)
  with inv show ?thesis by (simp add: check_exists_and_get_nodes_def sv_next_def ex_bool_eq)
next
  case absent: None
  show ?thesis
  proof (cases "sv_protocol s")
    case None
    with absent inv show ?thesis by (simp add: check_exists_and_get_nodes_def sv_next_def ex_bool_eq)
  next
    case (Some p)
    obtain ns p1 r ms p2 where lk: "neighbors_of (from_id (digest (nl_sha1 lib) key)) p = (ns, p1)"
      "crawl_value lib ev od s (digest (nl_sha1 lib) key) ns p1 = Some ((r, ms), p2)"
      "sv_next lib h cd s (s\<lparr>sv_protocol := Some p1\<rparr>)" "sv_next lib h cd s (s\<lparr>sv_protocol := Some p2\<rparr>)"
      "r \<noteq> None \<longrightarrow> ms = []"
      by (rule lookup_runs [OF assms(2-4) Some])
    show ?thesis
    proof (cases r)
      case None
      with lk absent Some show ?thesis by (simp add: check_exists_and_get_nodes_def Let_def ex_bool_eq)
    next
      case found: (Some v)
      obtain ok s2 where vv: "verify_value lib key v (s\<lparr>sv_protocol := Some p2\<rparr>) = (ok, s2)" by fastforce
      with lk absent Some found verify_found [OF lib lk(4) vv] show ?thesis
        by (simp add: check_exists_and_get_nodes_def Let_def ex_bool_eq)
    qed
  qed
qed

lemma set_digest_next:
  assumes "calm lib h (sv_node s) cd ev" and inv: "sv_inv lib h cd s" and "accepted lib h cd v"
    and "set_digest lib ev k v ns s = (b, s')"
  shows "sv_next lib h cd s s'"
proof (cases "sv_protocol s = None \<or> ns = []")
  case True
  with assms(2,4) show ?thesis by (auto simp: set_digest_def sv_next_def split: option.splits)
next
  case False
  then obtain p where p: "sv_protocol s = Some p" and "ns \<noteq> []" by auto
  let ?rpc = "\<lambda>n. call_store_rpc lib ev n k v"
  have "pr_inv lib h (sv_node s) cd (snd (call_each ?rpc ns (keep_copy s k v ns p)))"
    by (rule call_each_keeps) (use pr_inv_calls(2) [OF assms(1)] keep_copy_inv [OF sv_invD(5) [OF inv p] assms(3)] in auto)
  then show ?thesis
    using sv_next_protocol [OF inv] assms(4) p \<open>ns \<noteq> []\<close> by (auto simp: set_digest_def Let_def split: prod.splits)
qed

text \<open>A search for the nodes of a key from the routing table.\<close>

lemma node_lookup_runs:
  assumes "orders_ok od" and "calm lib h self cd ev" and "pr_inv lib h self cd p"
  obtains ns p1 ms p2 where "neighbors_of target p = (ns, p1)" and "pr_inv lib h self cd p1"
    and "crawl_nodes lib ev od s target ns p1 = Some (ms, p2)" and "pr_inv lib h self cd p2"
proof -
  obtain ns p1 where ns: "neighbors_of target p = (ns, p1)" by fastforce
  with neighbors_of_inv [OF assms(3)] crawl_nodes_runs [OF assms(1,2)] that show thesis by metis
qed

lemma update_digest_runs:
  assumes "orders_ok od" and "calm lib h (sv_node s) cd ev" and inv: "sv_inv lib h cd s" and "accepted lib h cd v"
  shows "\<exists>b s'. update_digest lib ev od key k v auth s = Some (b, s') \<and> sv_next lib h cd s s'"
proof (cases "sv_protocol s")
  case None
  with inv show ?thesis by (simp add: update_digest_def sv_next_def ex_bool_eq)
next
  case (Some p)
  obtain ns p1 ms p2 where lk: "neighbors_of (from_id k) p = (ns, p1)" "pr_inv lib h (sv_node s) cd p1"
    "crawl_nodes lib ev od s (from_id k) ns p1 = Some (ms, p2)" "pr_inv lib h (sv_node s) cd p2"
    by (rule node_lookup_runs [OF assms(1,2) sv_invD(5) [OF inv Some]])
  define rpc where "rpc = (\<lambda>n. if key = STATUS_LIST_KEY then call_status_list_update_rpc lib ev n k v
    else call_update_rpc lib ev n k v (case auth of Some a \<Rightarrow> a | None \<Rightarrow> []))"
  obtain rs p4 where each: "call_each rpc ms (keep_copy s k v ms p2) = (rs, p4)" by fastforce
  have "pr_inv lib h (sv_node s) cd (snd (call_each rpc ms (keep_copy s k v ms p2)))"
    by (rule call_each_keeps) (use pr_inv_calls(3,4) [OF assms(2)] keep_copy_inv [OF lk(4) assms(4)] in \<open>auto simp: rpc_def\<close>)
  then show ?thesis
    using sv_next_protocol [OF inv] lk each Some by (simp add: update_digest_def Let_def rpc_def ex_bool_eq)
qed

lemma delete_digest_runs:
  assumes "orders_ok od" and "calm lib h (sv_node s) cd ev" and inv: "sv_inv lib h cd s"
  shows "\<exists>b s'. delete_digest lib ev od k auth msg s = Some (b, s') \<and> sv_next lib h cd s s' \<and>
    b = (sv_protocol s \<noteq> None)"
proof (cases "sv_protocol s")
  case None
  with inv show ?thesis by (simp add: delete_digest_def sv_next_def ex_bool_eq)
next
  case (Some p)
  let ?p1 = "p\<lparr>pr_storage := st_delete k (pr_storage p)\<rparr>"
  have inv1: "pr_inv lib h (sv_node s) cd ?p1"
    by (rule pr_inv_storage [OF sv_invD(5) [OF inv Some]])
      (rule fs.keeps_del [OF pr_invD(8) [OF sv_invD(5) [OF inv Some]]])
  obtain ns p2 ms p3 where lk: "neighbors_of (from_id k) ?p1 = (ns, p2)" "pr_inv lib h (sv_node s) cd p2"
    "crawl_nodes lib ev od s (from_id k) ns p2 = Some (ms, p3)" "pr_inv lib h (sv_node s) cd p3"
    by (rule node_lookup_runs [OF assms(1,2) inv1])
  obtain rs p4 where each: "call_each (\<lambda>n. call_delete_rpc lib ev n k auth msg) ms p3 = (rs, p4)" by fastforce
  have "pr_inv lib h (sv_node s) cd (snd (call_each (\<lambda>n. call_delete_rpc lib ev n k auth msg) ms p3))"
    by (rule call_each_keeps) (use pr_inv_calls(5) [OF assms(2)] lk(4) in auto)
  then show ?thesis
    using sv_next_protocol [OF inv] lk each Some by (simp add: delete_digest_def Let_def ex_bool_eq)
qed

lemma sv_set_runs:
  assumes lib: "lib_ok lib" and "orders_ok od" and calm: "calm lib h (sv_node s) cd ev" and "sv_inv lib h cd s"
  shows "\<exists>r s'. sv_set lib ev od key v s = Some (r, s') \<and> sv_next lib h cd s s' \<and>
    (r \<noteq> None \<longrightarrow> verified lib h cd key v \<and> st_get (sv_clock s) (digest (nl_sha1 lib) key) (sv_store s) = None)"
proof -
  obtain e ns s1 where ce: "check_exists_and_get_nodes lib ev od key s = Some ((e, ns), s1)" "sv_next lib h cd s s1"
    "\<not> e \<longrightarrow> st_get (sv_clock s) (digest (nl_sha1 lib) key) (sv_store s) = None"
    using check_exists_runs [OF assms] by blast
  obtain ok s2 where vv: "verify_value lib key v s1 = (ok, s2)" by fastforce
  note vf = verify_found [OF lib ce(2) vv]
  obtain b s3 where sd: "set_digest lib ev (digest (nl_sha1 lib) key) v ns s2 = (b, s3)" by fastforce
  have "sv_next lib h cd s s3" if ok
    using set_digest_next [OF _ _ verified_accepted [OF vf(2) [OF that]] sd] vf(1) calm sv_next_trans
    by (simp add: sv_next_def)
  with ce vv vf sd show ?thesis by (simp add: sv_set_def Let_def)
qed

text \<open>An update that passes the check carries a record that a store may hold.\<close>

lemma update_check_accepted:
  assumes "auth_contract h"
    and "unwrap_or_false (if st then sh_issuer h v else sh_update h v old auth)"
  shows "accepted lib h cd v"
  using assms auth_contract.update_self_signed [OF assms(1)] by (cases st) (auto simp: accepted_def)

lemma sv_update_found:
  assumes "sv_get lib ev od key s = Some (Some old, s1)"
  shows "sv_update lib ev od key v auth s =
    (if unwrap_or_false (if key = STATUS_LIST_KEY \<and> auth = None then sh_issuer (sv_signature_handler s1) v
          else sh_update (sv_signature_handler s1) v old (case auth of Some a \<Rightarrow> a | None \<Rightarrow> []))
     then map_option (apfst Some) (update_digest lib ev od key (digest (nl_sha1 lib) key) v auth s1)
     else Some (None, s1))"
  unfolding sv_update_def assms Let_def
  by (cases "update_digest lib ev od key (digest (nl_sha1 lib) key) v auth s1") (simp_all split: prod.split)

lemma sv_update_runs:
  assumes lib: "lib_ok lib" and contract: "auth_contract h" and od: "orders_ok od"
    and calm: "calm lib h (sv_node s) cd ev" and "sv_inv lib h cd s"
  shows "\<exists>r s'. sv_update lib ev od key v auth s = Some (r, s') \<and> sv_next lib h cd s s'"
proof -
  obtain g s1 where get: "sv_get lib ev od key s = Some (g, s1)" "sv_next lib h cd s s1"
    using sv_get_runs [OF lib od calm assms(5)] by blast
  then have s1: "calm lib h (sv_node s1) cd ev" "sv_inv lib h cd s1" "sv_signature_handler s1 = h"
    using calm by (auto simp: sv_next_def dest: sv_invD(1))
  show ?thesis
  proof (cases g)
    case None
    with get show ?thesis by (simp add: sv_update_def)
  next
    case (Some old)
    define ok where "ok \<longleftrightarrow> unwrap_or_false (if key = STATUS_LIST_KEY \<and> auth = None then sh_issuer h v
      else sh_update h v old (case auth of Some a \<Rightarrow> a | None \<Rightarrow> []))"
    have eq: "sv_update lib ev od key v auth s =
        (if ok then map_option (apfst Some) (update_digest lib ev od key (digest (nl_sha1 lib) key) v auth s1)
         else Some (None, s1))"
      using sv_update_found get(1) Some s1(3) by (simp add: ok_def)
    show ?thesis
    proof (cases ok)
      case True
      then obtain b s2 where "update_digest lib ev od key (digest (nl_sha1 lib) key) v auth s1 = Some (b, s2)"
        "sv_next lib h cd s1 s2"
        using update_digest_runs [OF od s1(1,2) update_check_accepted [OF contract]] unfolding ok_def by blast
      with True eq sv_next_trans [OF get(2)] show ?thesis by simp
    qed (use eq get(2) in simp)
  qed
qed

lemma sv_delete_runs:
  assumes lib: "lib_ok lib" and od: "orders_ok od" and calm: "calm lib h (sv_node s) cd ev" and "sv_inv lib h cd s"
  shows "\<exists>r s'. sv_delete lib ev od key auth msg s = Some (r, s') \<and> sv_next lib h cd s s'"
proof -
  obtain g s1 where get: "sv_get lib ev od key s = Some (g, s1)" "sv_next lib h cd s s1"
    using sv_get_runs [OF assms] by blast
  note inv1 = get(2) [unfolded sv_next_def]
  have "calm lib h (sv_node s1) cd ev" "sv_inv lib h cd s1" using inv1 calm by simp_all
  then obtain b s2 where "delete_digest lib ev od (digest (nl_sha1 lib) key) auth msg s1 = Some (b, s2)"
    "sv_next lib h cd s1 s2"
    using delete_digest_runs [OF od] by blast
  with get sv_next_trans [OF get(2)] show ?thesis by (cases g) (simp_all add: sv_delete_def)
qed

lemma bootstrap_node_next:
  assumes "calm lib h self cd ev" and "pr_inv lib h self cd p" and "bootstrap_node lib ev a p = (r, p1)"
  shows "pr_inv lib h self cd p1" and "r = Some n \<Longrightarrow> wf_node n"
  using assms pr_inv_calls(1) [OF assms(1,2), of lib a]
  by (auto simp: bootstrap_node_def Let_def split: prod.splits if_splits)

lemma bootstrap_all_next:
  assumes "calm lib h self cd ev" and "pr_inv lib h self cd p" and "bootstrap_all lib ev as p = (ns, p1)"
  shows "pr_inv lib h self cd p1 \<and> (\<forall>n \<in> set ns. wf_node n)"
  using assms(2,3)
proof (induction as arbitrary: p ns p1)
  case (Cons a as)
  obtain r p2 ms p3 where eqs: "bootstrap_node lib ev a p = (r, p2)" "bootstrap_all lib ev as p2 = (ms, p3)" by fastforce
  with Cons.IH [OF _ eqs(2)] bootstrap_node_next [OF assms(1) Cons.prems(1) eqs(1)] Cons.prems(2)
  show ?case by (auto split: option.splits)
qed simp

lemma bootstrap_runs:
  assumes "orders_ok od" and "calm lib h (sv_node s) cd ev" and "sv_inv lib h cd s"
  shows "\<exists>ns s'. bootstrap lib ev od as s = Some (ns, s') \<and> sv_next lib h cd s s'"
proof (cases "sv_protocol s")
  case None
  with assms(3) show ?thesis by (simp add: bootstrap_def sv_next_def)
next
  case (Some p)
  obtain ns p1 where b: "bootstrap_all lib ev as p = (ns, p1)" by fastforce
  note ba = bootstrap_all_next [OF assms(2) sv_invD(5) [OF assms(3) Some] b]
  then obtain ms p2 where "crawl_nodes lib ev od s (sv_node s) ns p1 = Some (ms, p2)" "pr_inv lib h (sv_node s) cd p2"
    using crawl_nodes_runs [OF assms(1,2)] by blast
  with b Some sv_next_protocol [OF assms(3)] show ?thesis by (simp add: bootstrap_def Let_def)
qed

lemma sv_inv_loops [simp]:
  "sv_inv lib h cd (s\<lparr>sv_refresh_loop := x\<rparr>) = sv_inv lib h cd s"
  "sv_inv lib h cd (s\<lparr>sv_save_state_loop := y\<rparr>) = sv_inv lib h cd s"
  "sv_protocol s = None \<Longrightarrow> sv_inv lib h cd (s\<lparr>sv_now := now\<rparr>) = sv_inv lib h cd s"
  by (simp_all add: sv_inv_def sv_store_def sv_cache_def cong: option.case_cong)

lemma stop_next:
  assumes "calm lib h (sv_node s) cd ev" and inv: "sv_inv lib h cd s"
  shows "sv_next lib h cd s (stop lib ev s)"
proof (cases "sv_protocol s")
  case None
  with inv show ?thesis by (simp add: stop_def sv_next_def)
next
  case (Some p)
  obtain ns p1 where ns: "neighbors_of (sv_node s) p = (ns, p1)" by fastforce
  have "pr_inv lib h (sv_node s) cd p1" using neighbors_of_inv [OF sv_invD(5) [OF inv Some] ns] by blast
  then have "pr_inv lib h (sv_node s) cd (fold (call_leave_rpc lib ev) ns p1)"
    by (induction ns arbitrary: p1) (auto intro: pr_inv_calls(6) [OF assms(1)])
  from sv_next_protocol [OF inv this] Some ns show ?thesis by (simp add: stop_def sv_next_def Let_def)
qed

lemma bootstrappable_next:
  assumes inv: "sv_inv lib h cd s"
  shows "sv_next lib h cd s (snd (bootstrappable_neighbors s))"
proof (cases "sv_protocol s")
  case None
  with inv show ?thesis by (simp add: bootstrappable_neighbors_def sv_next_def)
next
  case (Some p)
  obtain ns p1 where ns: "neighbors_of (sv_node s) p = (ns, p1)" by fastforce
  with neighbors_of_inv [OF sv_invD(5) [OF inv Some] ns] sv_next_protocol [OF inv] Some
  show ?thesis by (simp add: bootstrappable_neighbors_def)
qed

lemma refresh_targets_next:
  "pr_inv lib h self cd p \<Longrightarrow> refresh_targets rids p = (ts, p1) \<Longrightarrow>
    pr_inv lib h self cd p1 \<and> (\<forall>t \<in> set ts. \<forall>n \<in> set (snd t). wf_node n)"
proof (induction rids arbitrary: p ts p1)
  case (Cons rid rids)
  obtain ns p2 us p3 where eqs: "neighbors_of (from_id rid) p = (ns, p2)" "refresh_targets rids p2 = (us, p3)" by fastforce
  with Cons.IH [OF _ eqs(2)] neighbors_of_inv [OF Cons.prems(1) eqs(1)] Cons.prems(2)
  show ?case by (auto simp: Let_def)
qed simp

lemma refresh_buckets_runs:
  assumes "orders_ok od" and "calm lib h self cd ev"
  shows "pr_inv lib h self cd p \<Longrightarrow> \<forall>t \<in> set ts. \<forall>n \<in> set (snd t). wf_node n \<Longrightarrow>
    \<exists>p1. refresh_buckets lib ev od s ts p = Some p1 \<and> pr_inv lib h self cd p1"
proof (induction ts arbitrary: p)
  case (Cons t ts)
  obtain target ns where t: "t = (target, ns)" by fastforce
  then have "\<forall>n \<in> set ns. wf_node n" using Cons.prems(2) by simp
  then obtain ms p1 where "crawl_nodes lib ev od s target ns p = Some (ms, p1)" "pr_inv lib h self cd p1"
    using crawl_nodes_runs [OF assms Cons.prems(1)] by blast
  with Cons.IH [of p1] Cons.prems(2) t show ?case by simp
qed simp

lemma republish_runs:
  assumes "orders_ok od" and "calm lib h self cd ev"
  shows "pr_inv lib h self cd p \<Longrightarrow> \<exists>p1. republish lib ev od s es p = Some p1 \<and> pr_inv lib h self cd p1"
proof (induction es arbitrary: p)
  case (Cons e es)
  obtain key v where e: "e = (key, v)" by fastforce
  obtain ns p1 ms p2 where lk: "neighbors_of (from_id key) p = (ns, p1)" "pr_inv lib h self cd p1"
    "crawl_nodes lib ev od s (from_id key) ns p1 = Some (ms, p2)" "pr_inv lib h self cd p2"
    by (rule node_lookup_runs [OF assms Cons.prems])
  have "pr_inv lib h self cd (snd (call_each (\<lambda>n. call_store_rpc lib ev n key v) ms p2))"
    by (rule call_each_keeps) (use pr_inv_calls(2) [OF assms(2)] lk(4) in auto)
  with Cons.IH lk Cons.prems e show ?case by (simp add: Let_def)
qed simp

lemma refresh_round_runs:
  assumes "orders_ok od" and "calm lib h self cd ev" and "pr_inv lib h self cd p"
  shows "\<exists>p1. refresh_round lib ev od s p = Some p1 \<and> pr_inv lib h self cd p1"
proof -
  obtain ts p0 where ts: "refresh_targets (get_refresh_ids ev p) p = (ts, p0)" by fastforce
  note tn = refresh_targets_next [OF assms(3) ts]
  then obtain p1 where "refresh_buckets lib ev od s ts p0 = Some p1" "pr_inv lib h self cd p1"
    using refresh_buckets_runs [OF assms(1,2)] by blast
  with republish_runs [OF assms(1,2)] ts show ?thesis by (simp add: refresh_round_def)
qed

section \<open>Runs of a server\<close>

lemma pr_new_keeps:
  assumes "fs.keeps (\<lambda>k. accepted lib h cd) st" and "cache_valid lib h c" and "(c \<noteq> None) = cd"
  shows "pr_inv lib h self cd (pr_new now secs self st k h c)"
proof -
  have "rt_node (rt_new secs self k) = self" by (simp add: rt_new_def)
  with assms show ?thesis by (simp add: pr_inv_def pr_new_def rt_new_inv reassembly_ok_def channels_ok_def)
qed

lemma listen_next:
  assumes "sv_inv lib h cd s"
  shows "sv_next lib h cd s (snd (listen bind_ok secs s))"
proof -
  have "pr_inv lib h (sv_node s) cd
      (pr_new (sv_clock s) secs (sv_node s) (sv_store s) (sv_ksize s) (sv_signature_handler s) (sv_cache s))"
    using pr_new_keeps [OF sv_invD(2-4) [OF assms]] sv_invD(1) [OF assms] by simp
  from sv_next_protocol [OF assms this] assms show ?thesis by (auto simp: listen_def sv_next_def)
qed

text \<open>
  One step of a server: it starts to listen, time passes before it does, its node takes a step, or
  one of its operations or background rounds runs to its end.
\<close>

inductive sv_step :: "net_lib \<Rightarrow> sig_handler \<Rightarrow> bool \<Rightarrow> server \<Rightarrow> server \<Rightarrow> bool" for lib h cd where
  listen: "sv_step lib h cd s (snd (listen bind_ok secs s))"
| tick: "sv_protocol s = None \<Longrightarrow> sv_now s \<le> now \<Longrightarrow> sv_step lib h cd s (s\<lparr>sv_now := now\<rparr>)"
| node: "sv_protocol s = Some p \<Longrightarrow> pr_step lib p p' \<Longrightarrow> sv_step lib h cd s (s\<lparr>sv_protocol := Some p'\<rparr>)"
| get: "orders_ok od \<Longrightarrow> calm lib h (sv_node s) cd ev \<Longrightarrow> sv_get lib ev od key s = Some (r, s') \<Longrightarrow>
    sv_step lib h cd s s'"
| set: "orders_ok od \<Longrightarrow> calm lib h (sv_node s) cd ev \<Longrightarrow> sv_set lib ev od key v s = Some (b, s') \<Longrightarrow>
    sv_step lib h cd s s'"
| update: "orders_ok od \<Longrightarrow> calm lib h (sv_node s) cd ev \<Longrightarrow> sv_update lib ev od key v auth s = Some (b, s') \<Longrightarrow>
    sv_step lib h cd s s'"
| delete: "orders_ok od \<Longrightarrow> calm lib h (sv_node s) cd ev \<Longrightarrow> sv_delete lib ev od key sig msg s = Some (b, s') \<Longrightarrow>
    sv_step lib h cd s s'"
| bootstrap: "orders_ok od \<Longrightarrow> calm lib h (sv_node s) cd ev \<Longrightarrow> bootstrap lib ev od addrs s = Some (ns, s') \<Longrightarrow>
    sv_step lib h cd s s'"
| stop: "calm lib h (sv_node s) cd ev \<Longrightarrow> sv_step lib h cd s (stop lib ev s)"
| save_state: "sv_step lib h cd s (snd (save_state s))"
| save_loop: "sv_step lib h cd s (save_state_regularly s)"
| save_round: "sv_protocol s = Some p \<Longrightarrow> sv_step lib h cd s (s\<lparr>sv_protocol := Some (snd (save_state_round s p))\<rparr>)"
| refresh: "orders_ok od \<Longrightarrow> calm lib h (sv_node s) cd ev \<Longrightarrow> sv_protocol s = Some p \<Longrightarrow>
    refresh_round lib ev od s p = Some p' \<Longrightarrow> sv_step lib h cd s (s\<lparr>sv_protocol := Some p'\<rparr>)"

lemma save_state_next: "sv_inv lib h cd s \<Longrightarrow> sv_next lib h cd s (snd (save_state s))"
  using bootstrappable_next [of lib h cd s] by (simp add: save_state_def Let_def split_def)

lemma save_state_round_next:
  "pr_inv lib h self cd p \<Longrightarrow> pr_inv lib h self cd (snd (save_state_round s p))"
  using neighbors_of_inv [of lib h self cd p "sv_node s"] by (simp add: save_state_round_def Let_def split: prod.split)

lemma sv_step_next:
  assumes lib: "lib_ok lib" and contract: "auth_contract h" and "sv_step lib h cd s s'" and inv: "sv_inv lib h cd s"
  shows "sv_next lib h cd s s'"
  using assms(3)
proof cases
  case (listen bind_ok secs)
  then show ?thesis using listen_next [OF inv] by simp
next
  case (tick now)
  then show ?thesis using inv by (simp add: sv_next_def)
next
  case (node p p')
  then show ?thesis
    using sv_next_protocol [OF inv] pr_step_inv [OF node(3) lib contract] sv_invD(5) [OF inv node(2)] by simp
next
  case (get od ev key r)
  then show ?thesis using sv_get_runs [OF lib get(1,2) inv, of key] by auto
next
  case (set od ev key v b)
  then show ?thesis using sv_set_runs [OF lib set(1,2) inv, of key v] by auto
next
  case (update od ev key v auth b)
  then show ?thesis using sv_update_runs [OF lib contract update(1,2) inv, of key v auth] by auto
next
  case (delete od ev key sig msg b)
  then show ?thesis using sv_delete_runs [OF lib delete(1,2) inv, of key sig msg] by auto
next
  case (bootstrap od ev addrs ns)
  then show ?thesis using bootstrap_runs [OF bootstrap(1,2) inv, of addrs] by auto
next
  case (stop ev)
  then show ?thesis using stop_next [OF stop(2) inv] by simp
next
  case save_state
  then show ?thesis using save_state_next [OF inv] by simp
next
  case save_loop
  then show ?thesis using inv by (simp add: save_state_regularly_def sv_next_def split: option.split)
next
  case (save_round p)
  then show ?thesis
    using sv_next_protocol [OF inv save_state_round_next [OF sv_invD(5) [OF inv save_round(2)]]] by simp
next
  case (refresh od ev p p')
  then show ?thesis
    using sv_next_protocol [OF inv] refresh_round_runs [OF refresh(2,3) sv_invD(5) [OF inv refresh(4)], of s] by auto
qed

text \<open>A server for DID documents as an application creates it, with or without a given empty store.\<close>

definition did_server ::
  "'x auth_lib_scheme \<Rightarrow> bytes option \<Rightarrow> (bytes \<Rightarrow> bytes) \<Rightarrow> bytes \<Rightarrow> instant \<Rightarrow> nat \<Rightarrow> nat \<Rightarrow> bytes option \<Rightarrow>
   64 word option \<Rightarrow> bool \<Rightarrow> server" where
  "did_server alib f sha1 random now k alpha fixed_id ttl use_cache =
     server_new sha1 random now (did_handler alib f) k alpha fixed_id (map_option st_new ttl) use_cache"

lemma did_server_inv:
  assumes "lib_ok lib"
    and "(sv_step lib (did_handler alib f) use_cache)\<^sup>*\<^sup>* (did_server alib f sha1 random now k alpha fixed_id ttl use_cache) s"
  shows "sv_inv lib (did_handler alib f) use_cache s"
  using assms(2)
proof (induction rule: rtranclp_induct)
  case base
  have "fs.keeps Q (st_new t)" for Q t by (simp add: fs.keeps_def)
  then show ?case
    by (simp add: did_server_def server_new_def sv_inv_def sv_store_def sv_cache_def cache_valid_def cache_ok_new split: option.split)
next
  case (step s s')
  then show ?case using sv_step_next [OF assms(1) did.auth_contract_axioms step(2,3)] by (simp add: sv_next_def)
qed

section \<open>Properties of the server\<close>



lemma call_each_true:
  "True \<in> set (fst (call_each rpc ns p)) \<Longrightarrow> \<exists>n \<in> set ns. \<exists>q. fst (rpc n q)"
  by (induction ns arbitrary: p) (auto simp: Let_def split_def)

lemma set_digest_true:
  assumes "set_digest lib ev k v ns s = (True, s')"
  shows "sv_protocol s \<noteq> None \<and> (\<exists>n \<in> set ns. \<exists>q. fst (call_store_rpc lib ev n k v q))"
proof -
  obtain p where p: "sv_protocol s = Some p" "ns \<noteq> []"
    using assms by (auto simp: set_digest_def split: option.splits if_splits)
  then have "filter (\<lambda>r. r) (fst (call_each (\<lambda>n. call_store_rpc lib ev n k v) ns (keep_copy s k v ns p))) \<noteq> []"
    using assms by (simp add: set_digest_def Let_def split: prod.splits)
  then have "True \<in> set (fst (call_each (\<lambda>n. call_store_rpc lib ev n k v) ns (keep_copy s k v ns p)))"
    by (auto simp: filter_empty_conv)
  from call_each_true [OF this] p(1) show ?thesis by blast
qed

lemma check_exists_protocol:
  "check_exists_and_get_nodes lib ev od key s = Some (r, s') \<Longrightarrow> (sv_protocol s' = None) = (sv_protocol s = None)"
  by (auto simp: check_exists_and_get_nodes_def verify_value_def sv_set_cache_def Let_def
      split: option.splits prod.splits if_splits)

lemma apfst_Some_eq: "Some (r, s) = map_option (apfst Some) x \<longleftrightarrow> (\<exists>b. r = Some b \<and> x = Some (b, s))"
  by (cases x) auto

lemma verify_value_protocol:
  "verify_value lib key v s = (ok, s') \<Longrightarrow> (sv_protocol s' = None) = (sv_protocol s = None)"
  by (auto simp: verify_value_def sv_set_cache_def Let_def split: option.splits prod.splits if_splits)



text \<open>
  C39. A record that fails verification blocks its key: when the lookup that precedes a publication
  finds such a record, no nodes are left to store at, so a valid new record is refused with
  \<open>Some False\<close> and no store request is sent. The comment in the source states the opposite.
\<close>

theorem invalid_record_blocks_set:
  assumes "lib_ok lib" and "orders_ok od"
    and "(sv_step lib (did_handler alib f) use_cache)\<^sup>*\<^sup>* (did_server alib f sha1 random now k alpha fixed_id ttl use_cache) s"
    and "calm lib (did_handler alib f) (sv_node s) use_cache ev"
    and "st_get (sv_clock s) (digest (nl_sha1 lib) key) (sv_store s) = None" and "sv_protocol s = Some p"
    and "neighbors_of (from_id (digest (nl_sha1 lib) key)) p = (nearest, p1)" and "nearest \<noteq> []"
    and "crawl_value lib ev od s (digest (nl_sha1 lib) key) nearest p1 = Some ((Some bad, ns), p2)"
    and "verify_value lib key bad (s\<lparr>sv_protocol := Some p2\<rparr>) = (False, s2)"
    and "verify_value lib key v s2 = (True, s3)"
  shows "sv_set lib ev od key v s = Some (Some False, s3)"
proof -
  note inv = sv_invD(5) [OF did_server_inv [OF assms(1,3)] assms(6)]
  have "ns = []"
    using crawl_value_runs [OF assms(2,4), of p1 nearest s "digest (nl_sha1 lib) key"] neighbors_of_inv [OF inv assms(7)] assms(9) by auto
  moreover have "set_digest lib ev (digest (nl_sha1 lib) key) v [] s3 = (False, s3)"
    by (simp add: set_digest_def split: option.split)
  ultimately show ?thesis
    using assms(5-11) by (simp add: sv_set_def check_exists_and_get_nodes_def Let_def)
qed

lemma try_workers_spec:
  "case try_workers accepts n base ws of
     None \<Rightarrow> \<forall>i \<in> set ws. \<not> accepts ((base + i) mod n)
   | Some w \<Rightarrow> \<exists>pre i post. ws = pre @ i # post \<and> w = (base + i) mod n \<and> accepts w \<and>
       (\<forall>j \<in> set pre. \<not> accepts ((base + j) mod n))"
proof (induction ws)
  case (Cons i rest)
  show ?case
  proof (cases "accepts ((base + i) mod n)")
    case True
    then show ?thesis by (auto simp: Let_def intro!: exI [of _ "[]"])
  next
    case False
    with Cons show ?thesis
      by (cases "try_workers accepts n base rest") (auto simp: Let_def, metis append_Cons set_ConsD)
  qed
qed simp

text \<open>
  The receive loop gives a datagram to the first worker with room, in the order that starts at
  the round-robin position, and to the worker at that position if none has room; the next position
  is the one after the chosen worker, and it is a worker's.
\<close>

theorem pick_worker_round_robin:
  assumes "0 < n" and "pick_worker accepts n idx = (w, idx')"
  shows "w < n \<and> idx' = (w + 1) mod n \<and> idx' < n \<and>
    (\<exists>i < n. w = (idx + i) mod n \<and> (\<forall>j < i. \<not> accepts ((idx + j) mod n)) \<and>
       (accepts w \<or> i = 0 \<and> (\<forall>u < n. \<not> accepts u)))"
proof (cases "try_workers accepts n idx [0..<n]")
  case None
  then have refused: "\<not> accepts ((idx + i) mod n)" if "i < n" for i
    using try_workers_spec [where accepts = accepts and n = n and base = idx and ws = "[0..<n]"] that by simp
  have "\<not> accepts u" if "u < n" for u
  proof -
    let ?i = "u + (n - idx mod n)"
    have "idx + ?i = u + n * (idx div n + 1)"
      using mod_less_divisor [OF assms(1), of idx] mult_div_mod_eq [of n idx] unfolding distrib_left by linarith
    then have "(idx + ?i mod n) mod n = (u + n * (idx div n + 1)) mod n" unfolding mod_add_right_eq by (rule arg_cong)
    also have "\<dots> = u" unfolding mod_mult_self2 using that by simp
    finally have "(idx + ?i mod n) mod n = u" .
    with refused [of "?i mod n"] assms(1) show ?thesis by simp
  qed
  then show ?thesis
    using None assms by (auto simp: pick_worker_def Let_def intro!: exI [of _ 0])
next
  case (Some v)
  then obtain pre i post where split: "[0..<n] = pre @ i # post" "v = (idx + i) mod n" "accepts v"
    "\<forall>j \<in> set pre. \<not> accepts ((idx + j) mod n)"
    using try_workers_spec [where accepts = accepts and n = n and base = idx and ws = "[0..<n]"] by auto
  have "length pre < n" using arg_cong [OF split(1), of length] by simp
  then have i: "i < n" "i = length pre" using arg_cong [OF split(1), of "\<lambda>l. l ! length pre"] by simp_all
  have "pre = take (length pre) [0..<n]" by (simp add: split(1))
  then have "pre = [0..<i]" using i by (metis add.commute add.right_neutral less_imp_le take_upt)
  then have "\<forall>j < i. \<not> accepts ((idx + j) mod n)" using split(4) by simp
  then show ?thesis
    using Some assms split(2,3) i(1) by (auto simp: pick_worker_def Let_def)
qed

theorem pick_worker_round_robin_witness:
  "pick_worker (\<lambda>w. w = 1) 4 3 = (1, 2) \<and> (1::nat) < 4"
  using pick_worker_round_robin [of 4 "\<lambda>w. w = 1" 3 1 2]
  by (simp add: pick_worker_def upt_rec)

section \<open>Concrete runs of a server\<close>

definition plain_orders :: orders where
  "plain_orders = \<lparr>od_responses = (\<lambda>x. x), od_counts = (\<lambda>x. x)\<rparr>"

lemma plain_orders_ok: "orders_ok plain_orders"
  by (simp add: orders_ok_def plain_orders_def hash_iteration_def)

lemma plain_calm: "calm lib h self cd plain_env"
  by (simp add: calm_def)

definition demo_server :: "bool \<Rightarrow> server" where
  "demo_server uc = did_server echo_auth_lib None (\<lambda>x. x) [] 0 1 1 (Some (replicate 20 0)) None uc"

lemma demo_server_sel [simp]:
  "sv_protocol (demo_server uc) = None" "sv_storage (demo_server uc) = st_new (- 1)"
  "sv_node (demo_server uc) = demo_self" "sv_signature_handler (demo_server uc) = did_handler echo_auth_lib None"
  "sv_sig_cache (demo_server uc) = (if uc then Some (sc_new 4096) else None)" "sv_ksize (demo_server uc) = 1"
  "sv_alpha (demo_server uc) = 1" "sv_now (demo_server uc) = 0"
  by (simp_all add: demo_server_def did_server_def server_new_def)

abbreviation demo_text :: rust_str where
  "demo_text \<equiv> replicate 20 5"

lemma demo_text_digest: "digest (\<lambda>x. x) demo_text = demo_key"
  by (simp add: digest_def digest_bytes_def as_bytes_def utf8_encode_char_def numeral_eq_Suc)

lemma demo_text_not_status: "demo_text \<noteq> STATUS_LIST_KEY"
  using demo_key_not_status demo_text_digest by metis

text \<open>The server listens, and its node then takes one step.\<close>

lemma demo_server_steps:
  assumes "(pr_step demo_lib)\<^sup>*\<^sup>* (demo_start uc) p"
  shows "(sv_step demo_lib h uc)\<^sup>*\<^sup>* (demo_server uc) ((demo_server uc)\<lparr>sv_refresh_loop := True, sv_protocol := Some p\<rparr>)"
  using assms
proof (induction rule: rtranclp_induct)
  case base
  have "snd (listen True 0 (demo_server uc)) =
      (demo_server uc)\<lparr>sv_refresh_loop := True, sv_protocol := Some (demo_start uc)\<rparr>"
    by (intro server.equality) (simp_all add: listen_def demo_start_def did_node_def sv_clock_def sv_store_def sv_cache_def)
  then show ?case using sv_step.listen [of demo_lib h uc "demo_server uc" True 0] by (simp add: r_into_rtranclp)
next
  case (step p q)
  have "sv_step demo_lib h uc ((demo_server uc)\<lparr>sv_refresh_loop := True, sv_protocol := Some p\<rparr>)
      (((demo_server uc)\<lparr>sv_refresh_loop := True, sv_protocol := Some p\<rparr>)\<lparr>sv_protocol := Some q\<rparr>)"
    by (rule sv_step.node) (use step in simp_all)
  with step.IH show ?case by (simp add: rtranclp.rtrancl_into_rtrancl)
qed

lemma demo_server_holds:
  obtains s p where "(sv_step demo_lib (did_handler echo_auth_lib None) False)\<^sup>*\<^sup>* (demo_server False) s"
    and "sv_protocol s = Some p" and "sv_get demo_lib plain_env plain_orders demo_text s = Some (Some echo_record, s)"
proof -
  obtain p where p: "pr_step demo_lib (demo_start False) p" "pr_now p = 0" "st_get 0 demo_key (pr_storage p) = Some echo_record"
    using demo_stored by blast
  let ?s = "(demo_server False)\<lparr>sv_refresh_loop := True, sv_protocol := Some p\<rparr>"
  have steps: "(sv_step demo_lib (did_handler echo_auth_lib None) False)\<^sup>*\<^sup>* (demo_server False) ?s"
    by (rule demo_server_steps) (use p(1) in simp)
  then have "pr_sig_cache p = None"
    using sv_invD(4) [OF did_server_inv [OF demo_lib_ok steps [unfolded demo_server_def]]] by (simp add: sv_cache_def)
  then have "sv_get demo_lib plain_env plain_orders demo_text ?s = Some (Some echo_record, ?s)"
    using p demo_text_not_status echo_record_accepted
    by (simp add: sv_get_def verify_value_def sv_clock_def sv_store_def sv_cache_def sv_set_cache_def demo_text_digest)
  with that steps show thesis by simp
qed





text \<open>A peer that answers the first request with an empty, hence invalid, record.\<close>

definition bad_env :: env where
  "bad_env = plain_env\<lparr>ev_wait := (\<lambda>q. case pr_pending q 0 of
      None \<Rightarrow> q
    | Some c \<Rightarrow> q\<lparr>pr_pending := (pr_pending q)(0 := None), pr_inbox := (pr_inbox q)(c \<mapsto> FindValueHit [])\<rparr>)\<rparr>"

lemma bad_env_calm: "calm lib h self cd bad_env"
  by (simp add: calm_def bad_env_def pr_inv_deliver split: option.split)

definition demo_contact :: node where
  "demo_contact = new_node demo_peer (Some (ipv4_to_string (127, 0, 0, 1))) (Some 9)"

lemma demo_contact_sel [simp]:
  "node_id demo_contact = demo_peer" "peer_sock_addr demo_contact = Some (V4 (127, 0, 0, 1) 9)"
  by (simp_all add: demo_contact_def new_node_def peer_sock_addr_def address_def sock_addr_of_v4)

lemma send_datagrams_frame: "\<exists>ds. snd (send_datagrams ev addr dgs q) = q\<lparr>pr_sent := ds\<rparr>"
proof -
  have "snd (send_datagrams ev addr dgs q) = q\<lparr>pr_sent := pr_sent (snd (send_datagrams ev addr dgs q))\<rparr>"
    by (induction ev addr dgs q rule: send_datagrams.induct) simp_all
  then show ?thesis by blast
qed

lemma send_frame_frame: "\<exists>i ds. snd (send_frame lib ev addr f p) = p\<lparr>pr_next_frag_id := i, pr_sent := ds\<rparr>"
proof (cases "\<exists>bs. nl_serialize lib f = Some bs \<and> length bs \<le> MAX_MESSAGE_SIZE")
  case True
  then obtain bs where bs: "nl_serialize lib f = Some bs" "length bs \<le> MAX_MESSAGE_SIZE" by blast
  obtain ds where "snd (send_datagrams ev addr (encode_fragments (pr_next_frag_id p) bs)
      (p\<lparr>pr_next_frag_id := pr_next_frag_id p + 1\<rparr>)) = p\<lparr>pr_next_frag_id := pr_next_frag_id p + 1\<rparr>\<lparr>pr_sent := ds\<rparr>"
    using send_datagrams_frame by blast
  with bs have "snd (send_frame lib ev addr f p) = p\<lparr>pr_next_frag_id := pr_next_frag_id p + 1, pr_sent := ds\<rparr>"
    by (simp add: send_frame_def next_frag_id_val_def)
  then show ?thesis by blast
next
  case False
  then have "snd (send_frame lib ev addr f p) = p\<lparr>pr_next_frag_id := pr_next_frag_id p, pr_sent := pr_sent p\<rparr>"
    by (auto simp: send_frame_def split: option.split)
  then show ?thesis by blast
qed

lemma demo_start_fields [simp]:
  "pr_secs (demo_start uc) = 0" "pr_tasks (demo_start uc) = []" "pr_pending (demo_start uc) = Map.empty"
  "pr_next_msg_id (demo_start uc) = 0"
  by (simp_all add: demo_start_def did_node_def pr_new_def)

lemma demo_welcomed:
  obtains p where "(pr_step demo_lib)\<^sup>*\<^sup>* (demo_start uc) p" and "rt_contacts (pr_router p) = {demo_contact}"
    and "rt_ksize (pr_router p) = 1" and "pr_pending p = Map.empty" and "pr_next_msg_id p = 0"
    and "pr_storage p = st_new (- 1)" and "pr_now p = 0" and "pr_source_node p = demo_self"
proof -
  let ?peer = "V4 (127, 0, 0, 1) 9" and ?q = "spawn (WelcomeIfNew demo_contact) (demo_start uc)"
  obtain i ds where "handle_datagram demo_lib plain_env (fragment_header 0 0 1 @ [1]) ?peer (demo_start uc) =
      Some (?q\<lparr>pr_next_frag_id := i, pr_sent := ds\<rparr>)"
    using handle_single [of "[1]" 0 demo_lib plain_env ?peer "demo_start uc"]
      send_frame_frame [of demo_lib plain_env ?peer _ ?q]
    by (fastforce simp: FRAG_CHUNK_SIZE_def handle_payload_request demo_lib_def tiny_lib_def rpc_ping_def demo_contact_def)
  then have step1: "pr_step demo_lib (demo_start uc) (?q\<lparr>pr_next_frag_id := i, pr_sent := ds\<rparr>)" (is "pr_step _ _ ?q1")
    by (rule pr_step.datagram)
  let ?rt = "rt_new 0 demo_self 1\<lparr>rt_buckets := [kb_new 0 0 (- 1) 1\<lparr>kb_nodes := [demo_contact]\<rparr>]\<rparr>"
  have sel: "pr_tasks ?q1 = [] @ WelcomeIfNew demo_contact # []"
    by simp
  have "rt_is_new_node (rt_new 0 demo_self 1) demo_contact"
    by (simp add: rt_is_new_node_def rt_new_def kb_contains_def kb_new_def rt_bucket_index_for_def)
  moreover have "rt_add_contact 0 demo_contact (rt_new 0 demo_self 1) = Some (None, ?rt)"
    by (rule rt_add_contact_new) simp_all
  ultimately have "run_task demo_lib plain_env (WelcomeIfNew demo_contact) (?q1\<lparr>pr_tasks := [] @ []\<rparr>) =
      Some (?q1\<lparr>pr_tasks := [] @ [], pr_router := ?rt\<rparr>)"
    by (simp add: welcome_if_new_def st_iter_all_def st_entries_def)
  then have "pr_step demo_lib ?q1 (?q1\<lparr>pr_tasks := [] @ [], pr_router := ?rt\<rparr>)"
    by (rule pr_step.task [OF sel, where ev = plain_env, rotated]) simp
  with step1 have "(pr_step demo_lib)\<^sup>*\<^sup>* (demo_start uc) (?q1\<lparr>pr_tasks := [] @ [], pr_router := ?rt\<rparr>)" by simp
  then show thesis
    by (rule that) (simp_all add: rt_contacts_def rt_new_def)
qed

lemma value_find_single_hit:
  assumes "rpc n target p = ((True, Value v), p1)"
  shows "value_find rpc store (\<lambda>x. x) (\<lambda>x. x) (value_crawl_new target [n] 1 1) p = Some ((Some v, []), p1)"
  by (subst value_find.simps)
    (simp add: assms value_round_def find_round_def value_crawl_new_def crawl_new_def nh_push_def nh_new_def
      nh_contains_def nh_enforce_maxsize_def nh_get_uncontacted_def nh_iter_def nh_len_def nh_get_ids_def
      happened_def has_value_def get_value_def value_hit_def max_by_count_def value_counts_def nh_popleft_def Let_def)

lemma sv_set_cache_same: "sv_set_cache (sv_cache s) s = s"
  by (simp add: sv_set_cache_def sv_cache_def split: option.split)

lemma verify_value_uncached:
  assumes "sv_cache s = None" and "key \<noteq> STATUS_LIST_KEY"
  shows "verify_value lib key v s = (sh_signature (sv_signature_handler s) v = Inr True, s)"
  using assms sv_set_cache_same [of s] by (simp add: verify_value_def Let_def)

lemma bad_env_answers:
  assumes "pr_pending p = Map.empty" and "pr_next_msg_id p = 0"
  shows "\<exists>p1. call_find_value demo_lib bad_env demo_contact target p = ((True, Value []), p1)"
proof -
  let ?addr = "V4 (127, 0, 0, 1) 9" and ?m = "FindValue (node_id (pr_source_node p)) (node_id target)"
  let ?f = "\<lparr>fr_msg_id = 0, fr_is_request = True, fr_message = ?m\<rparr>"
  let ?q = "p\<lparr>pr_next_msg_id := 1, pr_next_chan := pr_next_chan p + 1, pr_pending := [0 \<mapsto> pr_next_chan p]\<rparr>"
  have "fst (send_frame demo_lib bad_env ?addr ?f ?q)"
    using send_frame_all [of bad_env ?addr demo_lib ?f "[7]" ?q]
    by (simp add: bad_env_def demo_lib_def tiny_lib_def MAX_MESSAGE_SIZE_def)
  moreover obtain i ds where "snd (send_frame demo_lib bad_env ?addr ?f ?q) = ?q\<lparr>pr_next_frag_id := i, pr_sent := ds\<rparr>"
    using send_frame_frame by blast
  ultimately have sent: "send_frame demo_lib bad_env ?addr ?f ?q = (True, ?q\<lparr>pr_next_frag_id := i, pr_sent := ds\<rparr>)"
    by (simp add: prod_eq_iff)
  have start: "call_start demo_lib bad_env ?addr ?m p = (Some (0, pr_next_chan p), ?q\<lparr>pr_next_frag_id := i, pr_sent := ds\<rparr>)"
    unfolding call_start_def next_id_def using sent assms by (simp add: Let_def)
  have "\<exists>p1. call demo_lib bad_env ?addr ?m p = (Some (FindValueHit []), p1)"
    unfolding call_def start by (simp add: call_finish_def bad_env_def)
  then show ?thesis by (auto simp: call_find_value_def)
qed

lemma empty_record_rejected: "handle_signature_verification lib [] \<noteq> Inr True"
  unfolding handle_signature_verification_def verify_self_signed_iff by (simp add: record_parts_def)

lemma demo_neighbors:
  assumes "rt_inv (pr_router p)" and "rt_contacts (pr_router p) = {demo_contact}" and "rt_ksize (pr_router p) = 1"
  shows "\<exists>rt. neighbors_of (from_id demo_key) p = ([demo_contact], p\<lparr>pr_router := rt\<rparr>)"
proof -
  define ns where "ns = fst (rt_find_neighbors (pr_secs p) (pr_router p) (from_id demo_key) None)"
  have "{m \<in> {demo_contact}. rt_eligible (from_id demo_key) None m} = {demo_contact}"
    by (auto simp: rt_eligible_def from_id_def new_node_def)
  then have "set ns \<subseteq> {demo_contact}" "length ns = 1"
    using rt_find_neighbors_spec(3,4) [OF assms(1) _ ns_def] assms(2,3) by auto
  then have "ns = [demo_contact]" by (cases ns) auto
  then show ?thesis by (auto simp: neighbors_of_def ns_def Let_def split: prod.split)
qed

theorem invalid_record_blocks_set_witness:
  "\<exists>s s'. (sv_step demo_lib (did_handler echo_auth_lib None) False)\<^sup>*\<^sup>*
      (did_server echo_auth_lib None (\<lambda>x. x) [] 0 1 1 (Some (replicate 20 0)) None False) s \<and>
    sv_set demo_lib bad_env plain_orders demo_text echo_record s = Some (Some False, s') \<and>
    handle_signature_verification echo_auth_lib echo_record = Inr True"
proof -
  let ?h = "did_handler echo_auth_lib None"
  obtain p where p: "(pr_step demo_lib)\<^sup>*\<^sup>* (demo_start False) p" "rt_contacts (pr_router p) = {demo_contact}"
    "rt_ksize (pr_router p) = 1" "pr_pending p = Map.empty" "pr_next_msg_id p = 0"
    "pr_storage p = st_new (- 1)" by (rule demo_welcomed)
  define s where "s = (demo_server False)\<lparr>sv_refresh_loop := True, sv_protocol := Some p\<rparr>"
  have steps: "(sv_step demo_lib ?h False)\<^sup>*\<^sup>* (did_server echo_auth_lib None (\<lambda>x. x) [] 0 1 1 (Some (replicate 20 0)) None False) s"
    using demo_server_steps [OF p(1)] by (simp add: s_def demo_server_def)
  note inv = did_server_inv [OF demo_lib_ok steps]
  have sp: "sv_protocol s = Some p" by (simp add: s_def)
  obtain rt where near: "neighbors_of (from_id demo_key) p = ([demo_contact], p\<lparr>pr_router := rt\<rparr>)"
    using demo_neighbors [OF pr_invD(3) [OF sv_invD(5) [OF inv sp]] p(2,3)] by blast
  obtain p2 where "call_find_value demo_lib bad_env demo_contact (from_id demo_key) (p\<lparr>pr_router := rt\<rparr>) = ((True, Value []), p2)"
    using bad_env_answers [of "p\<lparr>pr_router := rt\<rparr>"] p(4,5) by auto
  then have crawl: "crawl_value demo_lib bad_env plain_orders s demo_key [demo_contact] (p\<lparr>pr_router := rt\<rparr>) = Some ((Some [], []), p2)"
    using value_find_single_hit by (simp add: crawl_value_def plain_orders_def s_def)
  have "sv_next demo_lib ?h False s (s\<lparr>sv_protocol := Some p2\<rparr>)"
    by (rule lookup_runs [OF plain_orders_ok bad_env_calm inv sp, of demo_key]) (use near crawl in simp)
  then have "sv_inv demo_lib ?h False (s\<lparr>sv_protocol := Some p2\<rparr>)" by (simp add: sv_next_def)
  from sv_invD(4) [OF this] sv_invD(1) [OF this]
  have "sv_cache (s\<lparr>sv_protocol := Some p2\<rparr>) = None" "sv_signature_handler (s\<lparr>sv_protocol := Some p2\<rparr>) = ?h" by simp_all
  note vv = verify_value_uncached [OF this(1) demo_text_not_status, of demo_lib, unfolded this(2) did_handler_sel]
  have "st_get (sv_clock s) demo_key (sv_store s) = None" by (simp add: sv_store_def sp p(6))
  then have "sv_set demo_lib bad_env plain_orders demo_text echo_record s = Some (Some False, s\<lparr>sv_protocol := Some p2\<rparr>)"
    using invalid_record_blocks_set [OF demo_lib_ok plain_orders_ok steps bad_env_calm, of demo_text p "[demo_contact]" "p\<lparr>pr_router := rt\<rparr>" "[]" "[]" p2
        "s\<lparr>sv_protocol := Some p2\<rparr>" echo_record "s\<lparr>sv_protocol := Some p2\<rparr>"]
      vv [of "[]"] vv [of echo_record] empty_record_rejected [of echo_auth_lib] echo_record_accepted sp near crawl
    by (simp add: demo_text_digest)
  with steps echo_record_accepted show ?thesis by blast
qed

end
