(* ===== verification/Ledger.thy ===== *)
theory Ledger
  imports Network_Safety
begin

text \<open>
  The contract of a node as a store of records. The abstract state is a map from keys to the
  record that can be read; it changes only by publishing, rotating, issuing, revoking and expiring.
  The protocol of \<^verbatim>\<open>src/protocol.rs\<close> refines it: every step of a node, with all that happens
  while its calls wait, is a finite sequence of abstract steps. Responses are typed by requests.
\<close>

section \<open>The abstract ledger\<close>

type_synonym ledger = "bytes \<rightharpoonup> bytes"

text \<open>
  \<open>valid\<close> tells which records may be published, the handler \<open>h\<close> which signatures authorise a change
  of the record that is there.
\<close>

inductive ledger_step :: "(bytes \<Rightarrow> bool) \<Rightarrow> sig_handler \<Rightarrow> ledger \<Rightarrow> ledger \<Rightarrow> bool" for valid h where
  publish: "m k = None \<Longrightarrow> valid v \<Longrightarrow> ledger_step valid h m (m(k \<mapsto> v))"
| rotate: "m k = Some old \<Longrightarrow> sh_update h v old s = Inr True \<Longrightarrow> ledger_step valid h m (m(k \<mapsto> v))"
| issue: "m k = Some old \<Longrightarrow> sh_issuer h v = Inr True \<Longrightarrow> ledger_step valid h m (m(k \<mapsto> v))"
| revoke: "m k = Some old \<Longrightarrow> sh_delete h old s d = Inr True \<Longrightarrow> ledger_step valid h m (m(k := None))"
| expire: "m' \<subseteq>\<^sub>m m \<Longrightarrow> ledger_step valid h m m'"

section \<open>Refinement maps\<close>

text \<open>
  A concrete system refines an abstract one through the map \<open>absf\<close>: on states that satisfy the
  invariant, a concrete step is a finite sequence of abstract steps.
\<close>

locale refinement_map =
  fixes cstep :: "'c \<Rightarrow> 'c \<Rightarrow> bool" and astep :: "'a \<Rightarrow> 'a \<Rightarrow> bool"
    and absf :: "'c \<Rightarrow> 'a" and cinv :: "'c \<Rightarrow> bool"
  assumes cinv_step: "cinv s \<Longrightarrow> cstep s t \<Longrightarrow> cinv t"
    and sim_step: "cinv s \<Longrightarrow> cstep s t \<Longrightarrow> astep\<^sup>*\<^sup>* (absf s) (absf t)"
begin

lemma cinv_run: "cstep\<^sup>*\<^sup>* s t \<Longrightarrow> cinv s \<Longrightarrow> cinv t"
  by (induction rule: rtranclp_induct) (auto intro: cinv_step)

lemma sim_run: "cstep\<^sup>*\<^sup>* s t \<Longrightarrow> cinv s \<Longrightarrow> astep\<^sup>*\<^sup>* (absf s) (absf t)"
proof (induction rule: rtranclp_induct)
  case (step t u)
  then have "cinv t" using cinv_run by blast
  with step show ?case using sim_step [of t u] by force
qed simp

end

section \<open>The ledger of a node\<close>

definition ledger_of :: "protocol \<Rightarrow> ledger" where
  "ledger_of p = (\<lambda>k. st_get (pr_now p) k (pr_storage p))"

lemma ledger_of_cong: "pr_storage q = pr_storage p \<Longrightarrow> pr_now q = pr_now p \<Longrightarrow> ledger_of q = ledger_of p"
  by (simp add: ledger_of_def)

lemma ledger_of_write:
  "pr_storage q = st_set (pr_now p) k v (pr_storage p) \<Longrightarrow> pr_now q = pr_now p \<Longrightarrow> ledger_of q = (ledger_of p)(k \<mapsto> v)"
  "pr_storage q = st_delete k (pr_storage p) \<Longrightarrow> pr_now q = pr_now p \<Longrightarrow> ledger_of q = (ledger_of p)(k := None)"
  by (auto simp: ledger_of_def st_get_set st_get_delete fun_eq_iff)

lemma ledger_of_clock:
  "pr_now p \<le> now \<Longrightarrow> ledger_of (p\<lparr>pr_now := now, pr_secs := secs\<rparr>) \<subseteq>\<^sub>m ledger_of p"
  by (auto simp: ledger_of_def map_le_def dest: fs.get_earlier)

lemma rpc_now [simp]:
  "pr_now (snd (rpc_store lib i a k v p)) = pr_now p" "pr_now (snd (rpc_update i a k v s p)) = pr_now p"
  "pr_now (snd (rpc_update_status_list i a k v p)) = pr_now p" "pr_now (snd (rpc_delete i a k s m p)) = pr_now p"
  by (simp_all add: rpc_store_def rpc_update_def rpc_update_status_list_def rpc_delete_def Let_def split_def split: option.split)

lemma rpc_find_value_frame:
  "rpc_find_value ev i a k p = Some (r, p') \<Longrightarrow> pr_storage p' = pr_storage p \<and> pr_now p' = pr_now p"
  by (auto simp: rpc_find_value_def Let_def split_def dest!: welcome_if_new_storage split: option.splits)

text \<open>The ledger of \<open>q\<close> is reached from that of \<open>p\<close>.\<close>

abbreviation follows :: "net_lib \<Rightarrow> sig_handler \<Rightarrow> bool \<Rightarrow> protocol \<Rightarrow> protocol \<Rightarrow> bool" where
  "follows lib h cd p q \<equiv> (ledger_step (accepted lib h cd) h)\<^sup>*\<^sup>* (ledger_of p) (ledger_of q)"

text \<open>A request that changes the ledger is one abstract step.\<close>

abbreviation stays_or_steps :: "net_lib \<Rightarrow> sig_handler \<Rightarrow> bool \<Rightarrow> protocol \<Rightarrow> protocol \<Rightarrow> bool" where
  "stays_or_steps lib h cd p q \<equiv> ledger_of q = ledger_of p \<or> ledger_step (accepted lib h cd) h (ledger_of p) (ledger_of q)"

lemma rpc_store_ledger:
  assumes "lib_ok lib" and "pr_inv lib h self cd p"
  shows "stays_or_steps lib h cd p (snd (rpc_store lib i a k v p))"
proof (cases "fst (rpc_store lib i a k v p)")
  case True
  then have "ledger_of p k = None" "accepted lib h cd v"
    using verify_for_key_inv [OF assms, of k v] by (simp_all add: rpc_store_storage(1) ledger_of_def)
  moreover have "ledger_of (snd (rpc_store lib i a k v p)) = (ledger_of p)(k \<mapsto> v)"
    using True by (intro ledger_of_write) (simp_all add: rpc_store_storage(2))
  ultimately show ?thesis by (simp add: ledger_step.publish)
qed (intro disjI1 ledger_of_cong, simp_all add: rpc_store_storage(2))

lemma rpc_update_ledger:
  assumes "pr_signature_handler p = h"
  shows "stays_or_steps lib h cd p (snd (rpc_update i a k v s p))"
proof (cases "fst (rpc_update i a k v s p)")
  case True
  then obtain old where "ledger_of p k = Some old" "sh_update h v old s = Inr True"
    by (auto simp: rpc_update_storage(1) ledger_of_def assms)
  moreover have "ledger_of (snd (rpc_update i a k v s p)) = (ledger_of p)(k \<mapsto> v)"
    using True by (intro ledger_of_write) (simp_all add: rpc_update_storage(2))
  ultimately show ?thesis by (simp add: ledger_step.rotate)
qed (intro disjI1 ledger_of_cong, simp_all add: rpc_update_storage(2))

lemma rpc_update_status_list_ledger:
  assumes "pr_signature_handler p = h"
  shows "stays_or_steps lib h cd p (snd (rpc_update_status_list i a k v p))"
proof (cases "fst (rpc_update_status_list i a k v p)")
  case True
  then obtain old where "ledger_of p k = Some old" "sh_issuer h v = Inr True"
    by (auto simp: rpc_update_status_list_storage(1) ledger_of_def assms)
  moreover have "ledger_of (snd (rpc_update_status_list i a k v p)) = (ledger_of p)(k \<mapsto> v)"
    using True by (intro ledger_of_write) (simp_all add: rpc_update_status_list_storage(2))
  ultimately show ?thesis by (simp add: ledger_step.issue)
qed (intro disjI1 ledger_of_cong, simp_all add: rpc_update_status_list_storage(2))

lemma rpc_delete_ledger:
  assumes "pr_signature_handler p = h"
  shows "stays_or_steps lib h cd p (snd (rpc_delete i a k s x p))"
proof (cases "fst (rpc_delete i a k s x p)")
  case True
  then obtain old where "ledger_of p k = Some old" "sh_delete h old s x = Inr True"
    by (auto simp: rpc_delete_storage(1) ledger_of_def assms)
  moreover have "ledger_of (snd (rpc_delete i a k s x p)) = (ledger_of p)(k := None)"
    using True by (intro ledger_of_write) (simp_all add: rpc_delete_storage(2))
  ultimately show ?thesis by (simp add: ledger_step.revoke)
qed (intro disjI1 ledger_of_cong, simp_all add: rpc_delete_storage(2))

lemma dispatch_ledger:
  assumes "lib_ok lib" and inv: "pr_inv lib h self cd p" and d: "dispatch_request lib ev m peer p = Some (r, p')"
  shows "follows lib h cd p p'"
proof -
  note changes = rpc_store_ledger [OF assms(1,2)] rpc_update_ledger [OF pr_invD(1) [OF inv]]
    rpc_update_status_list_ledger [OF pr_invD(1) [OF inv]] rpc_delete_ledger [OF pr_invD(1) [OF inv]]
  have "stays_or_steps lib h cd p p'"
  proof (cases m)
    case (Store i k v)
    with d have "p' = snd (rpc_store lib i (sa_ip_string peer, sa_port peer) k v p)" by (simp add: Let_def split_def)
    then show ?thesis using changes(1) by blast
  next
    case (Update i k v s)
    with d have "p' = snd (rpc_update i (sa_ip_string peer, sa_port peer) k v s p)" by (simp add: Let_def split_def)
    then show ?thesis using changes(2) by blast
  next
    case (UpdateStatusList i k v)
    with d have "p' = snd (rpc_update_status_list i (sa_ip_string peer, sa_port peer) k v p)" by (simp add: Let_def split_def)
    then show ?thesis using changes(3) by blast
  next
    case (Delete i k s x)
    with d have "p' = snd (rpc_delete i (sa_ip_string peer, sa_port peer) k s x p)" by (simp add: Let_def split_def)
    then show ?thesis using changes(4) by blast
  next
    case (FindValue i k)
    with d have "pr_storage p' = pr_storage p \<and> pr_now p' = pr_now p"
      by (auto dest!: rpc_find_value_frame split: option.splits find_value_result.splits)
    then show ?thesis using ledger_of_cong [of p' p] by blast
  qed (use d in \<open>auto simp: ledger_of_def Let_def split_def rpc_ping_def rpc_leave_def rpc_find_node_def\<close>)
  then show ?thesis by auto
qed

lemma handle_payload_ledger:
  assumes "lib_ok lib" and "pr_inv lib h self cd p" and "handle_payload lib ev payload peer p = Some p'"
  shows "follows lib h cd p p'"
proof (cases "nl_deserialize lib payload")
  case None
  with assms(3) show ?thesis by (simp add: handle_payload_def)
next
  case (Some f)
  show ?thesis
  proof (cases "fr_is_request f")
    case False
    let ?p1 = "case fr_message f of
        Pong sender_id \<Rightarrow> spawn (WelcomeIfNew (new_node sender_id (Some (sa_ip_string peer)) (Some (sa_port peer)))) p
      | _ \<Rightarrow> p"
    have "pr_storage ?p1 = pr_storage p" "pr_now ?p1 = pr_now p" by (simp_all split: rpc_message.split)
    then have "ledger_of p' = ledger_of p"
      using assms(3) Some False by (auto simp: handle_payload_def Let_def ledger_of_def split: option.splits)
    then show ?thesis by simp
  next
    case True
    then obtain r p1 where d: "dispatch_request lib ev (fr_message f) peer p = Some (r, p1)"
      using assms(3) Some by (auto simp: handle_payload_def split: option.splits)
    then have "ledger_of p' = ledger_of p1"
      using assms(3) Some True by (auto simp: handle_payload_def ledger_of_def send_frame_storage split: option.splits)
    then show ?thesis using dispatch_ledger [OF assms(1,2) d] by simp
  qed
qed

lemma ledger_of_reassembly [simp]:
  "ledger_of (p\<lparr>pr_reassembly := x\<rparr>) = ledger_of p" "ledger_of (gc_reassembly p) = ledger_of p"
  by (simp_all add: ledger_of_def gc_reassembly_eq)

lemma handle_datagram_ledger:
  assumes "lib_ok lib" and "pr_inv lib h self cd p" and "handle_datagram lib ev d peer p = Some p'"
  shows "follows lib h cd p p'"
proof -
  have gone: "pr_inv lib h self cd (p\<lparr>pr_reassembly := (pr_reassembly p)(key := None)\<rparr>)" for key
    by (intro pr_inv_reassembly assms(2) reassembly_ok_remove pr_invD(6) [OF assms(2)])
  have deliver: "follows lib h cd p p'"
    if "handle_payload lib ev payload peer (p\<lparr>pr_reassembly := (pr_reassembly p)(key := None)\<rparr>) = Some p'" for payload key
    using handle_payload_ledger [OF assms(1) gone that] by simp
  show ?thesis
    using assms(3) deliver handle_payload_ledger [OF assms(1,2)]
    by (auto simp: handle_datagram_def Let_def split: option.splits prod.splits if_splits)
qed

section \<open>Calls and tasks\<close>

text \<open>What happens while a call waits follows the ledger too.\<close>

definition honest_wait :: "net_lib \<Rightarrow> sig_handler \<Rightarrow> node \<Rightarrow> bool \<Rightarrow> env \<Rightarrow> bool" where
  "honest_wait lib h self cd ev \<longleftrightarrow>
     (\<forall>p. pr_inv lib h self cd p \<longrightarrow> follows lib h cd p (ev_wait ev p))"

lemma call_start_ledger [simp]: "ledger_of (snd (call_start lib ev addr m p)) = ledger_of p"
  by (simp add: ledger_of_def call_start_def next_id_def Let_def split_def send_frame_storage)

lemma call_finish_ledger [simp]: "ledger_of (snd (call_finish i c p)) = ledger_of p"
  by (simp add: ledger_of_def call_finish_def split: option.split)

lemma call_ledger:
  assumes "honest_wait lib h self cd ev" and "pr_inv lib h self cd p" and "call lib' ev addr m p = (r, p')"
  shows "follows lib h cd p p'"
proof (cases "fst (call_start lib' ev addr m p)")
  case None
  then have "p' = snd (call_start lib' ev addr m p)" using assms(3) by (simp add: call_def split_def)
  then show ?thesis by simp
next
  case (Some ic)
  then have "p' = snd (call_finish (fst ic) (snd ic) (ev_wait ev (snd (call_start lib' ev addr m p))))"
    using assms(3) by (simp add: call_def split_def)
  moreover have "follows lib h cd (snd (call_start lib' ev addr m p)) (ev_wait ev (snd (call_start lib' ev addr m p)))"
    using assms(1) pr_inv_call_start [OF assms(2)] unfolding honest_wait_def by blast
  ultimately show ?thesis by simp
qed

lemma ledger_of_plumbing [simp]:
  "ledger_of (spawn t p) = ledger_of p" "ledger_of (drop_peer n p) = ledger_of p"
  "ledger_of (p\<lparr>pr_tasks := ts\<rparr>) = ledger_of p" "ledger_of (p\<lparr>pr_router := rt\<rparr>) = ledger_of p"
  by (simp_all add: ledger_of_def)

lemma calls_ledger:
  assumes "honest_wait lib h self cd ev" and "pr_inv lib h self cd p"
  shows "follows lib h cd p (snd (call_ping_addr lib' ev a p))"
    and "follows lib h cd p (snd (call_store_rpc lib' ev n k v p))"
    and "follows lib h cd p (snd (call_update_rpc lib' ev n k v s p))"
    and "follows lib h cd p (snd (call_status_list_update_rpc lib' ev n k v p))"
    and "follows lib h cd p (snd (call_delete_rpc lib' ev n k s m p))"
    and "follows lib h cd p (call_leave_rpc lib' ev n p)"
    and "follows lib h cd p (snd (call_find_node lib' ev n t p))"
    and "follows lib h cd p (snd (call_find_value lib' ev n t p))"
    and "follows lib h cd p (call_ping_node lib' ev n p)"
proof -
  note q = call_ledger [OF assms] call_ledger [OF assms surjective_pairing]
  show ping: "follows lib h cd p (snd (call_ping_addr lib' ev a p))" for a
    using q by (auto simp: call_ping_addr_def Let_def split: option.split prod.split rpc_message.split)
  show "follows lib h cd p (snd (call_store_rpc lib' ev n k v p))"
    "follows lib h cd p (snd (call_update_rpc lib' ev n k v s p))"
    "follows lib h cd p (snd (call_status_list_update_rpc lib' ev n k v p))"
    "follows lib h cd p (snd (call_delete_rpc lib' ev n k s m p))"
    "follows lib h cd p (call_leave_rpc lib' ev n p)"
    "follows lib h cd p (snd (call_find_node lib' ev n t p))"
    "follows lib h cd p (snd (call_find_value lib' ev n t p))"
    using q by (auto simp: call_defs split: option.split prod.split rpc_message.split)
  show "follows lib h cd p (call_ping_node lib' ev n p)"
    using ping by (auto simp: call_ping_node_def Let_def split_def split: option.split)
qed

lemma run_task_ledger:
  assumes "honest_wait lib h self cd ev" and "pr_inv lib h self cd p" and "run_task lib ev t p = Some p'"
  shows "follows lib h cd p p'"
proof (cases t)
  case (WelcomeIfNew n)
  then have "pr_storage p' = pr_storage p \<and> pr_now p' = pr_now p" using assms(3) welcome_if_new_storage by simp
  then show ?thesis using ledger_of_cong [of p' p] by simp
qed (use assms(3) calls_ledger [OF assms(1,2)] in auto)

section \<open>The refinement\<close>

lemma waitI:
  assumes "\<forall>q. (\<lambda>x y. pr_step lib x y \<and> (pr_inv lib h self cd x \<longrightarrow> follows lib h cd x y))\<^sup>*\<^sup>* q (ev_wait ev q)"
    and "lib_ok lib" and "auth_contract h"
  shows "honest_wait lib h self cd ev"
proof -
  have "pr_inv lib h self cd y \<and> follows lib h cd q y"
    if "(\<lambda>x y. pr_step lib x y \<and> (pr_inv lib h self cd x \<longrightarrow> follows lib h cd x y))\<^sup>*\<^sup>* q y" "pr_inv lib h self cd q" for q y
    using that(1)
  proof (induction rule: rtranclp_induct)
    case base
    show ?case using that(2) by simp
  next
    case (step y z)
    then have "pr_inv lib h self cd z" "follows lib h cd y z" using pr_step_inv [OF _ assms(2,3), of y z] by blast+
    with step.IH show ?case by force
  qed
  with assms(1) show ?thesis unfolding honest_wait_def by blast
qed

lemma pr_step_ledger:
  assumes "pr_step lib p p'" and "lib_ok lib" and "auth_contract h"
  shows "pr_inv lib h self cd p \<longrightarrow> follows lib h cd p p'"
  using assms(1)
proof (induction rule: pr_step.induct)
  case (datagram ev d peer p p')
  then show ?case using handle_datagram_ledger [OF assms(2)] by blast
next
  case (task p ts t us ev p')
  show ?case
  proof
    assume inv: "pr_inv lib h self cd p"
    then have "pr_inv lib h self cd (p\<lparr>pr_tasks := ts @ us\<rparr>)"
      using pr_invD(5) [OF inv] task(1) by (auto intro: pr_inv_tasks)
    from run_task_ledger [OF waitI [OF task.IH assms(2,3)] this task.hyps(2)] show "follows lib h cd p p'" by simp
  qed
next
  case (clock p now secs)
  then show ?case by (blast intro: ledger_step.expire ledger_of_clock)
next
  case (search p target ex)
  then show ?case by simp
next
  case call_ping
  then show ?case by (intro impI calls_ledger(1) [OF waitI [OF _ assms(2,3)]])
next
  case call_store
  then show ?case by (intro impI calls_ledger(2) [OF waitI [OF _ assms(2,3)]])
next
  case call_update
  then show ?case by (intro impI calls_ledger(3) [OF waitI [OF _ assms(2,3)]])
next
  case call_status
  then show ?case by (intro impI calls_ledger(4) [OF waitI [OF _ assms(2,3)]])
next
  case call_delete
  then show ?case by (intro impI calls_ledger(5) [OF waitI [OF _ assms(2,3)]])
next
  case call_leave
  then show ?case by (intro impI calls_ledger(6) [OF waitI [OF _ assms(2,3)]])
next
  case call_find_node
  then show ?case by (intro impI calls_ledger(7) [OF waitI [OF _ assms(2,3)]])
next
  case call_find_value
  then show ?case by (intro impI calls_ledger(8) [OF waitI [OF _ assms(2,3)]])
qed

interpretation ledger_node: refinement_map "pr_step lib" "ledger_step (accepted lib h cd) h" ledger_of
  "\<lambda>p. lib_ok lib \<and> auth_contract h \<and> pr_inv lib h self cd p" for lib h cd self
proof unfold_locales
  fix p q assume "lib_ok lib \<and> auth_contract h \<and> pr_inv lib h self cd p" and "pr_step lib p q"
  then show "lib_ok lib \<and> auth_contract h \<and> pr_inv lib h self cd q" "follows lib h cd p q"
    using pr_step_inv [of lib p q h self cd] pr_step_ledger [of lib p q h self cd] by simp_all
qed

lemma ledger_of_new: "ledger_of (did_node alib f self k ttl use_cache now secs) = Map.empty"
  by (rule ext) (simp add: ledger_of_def did_node_def pr_new_def)



section \<open>Requests and responses\<close>

text \<open>The responses a request may have; a leave message and the responses themselves have none.\<close>

fun response_of :: "rpc_message \<Rightarrow> rpc_message option \<Rightarrow> bool" where
  "response_of (Ping _) r = (\<exists>i. r = Some (Pong i))"
| "response_of (Store _ _ _) r = (\<exists>b. r = Some (StoreResult b))"
| "response_of (Update _ _ _ _) r = (\<exists>b. r = Some (UpdateResult b))"
| "response_of (UpdateStatusList _ _ _) r = (\<exists>b. r = Some (UpdateStatusListResult b))"
| "response_of (Delete _ _ _ _) r = (\<exists>b. r = Some (DeleteResult b))"
| "response_of (FindNode _ _) r = (\<exists>ns. r = Some (FindNodeResult ns))"
| "response_of (FindValue _ _) r = ((\<exists>v. r = Some (FindValueHit v)) \<or> (\<exists>ns. r = Some (FindValueNodes ns)))"
| "response_of _ r = (r = None)"

lemma neighbors_wf:
  assumes "pr_inv lib h self cd p" and "n \<in> set (fst (rt_find_neighbors secs (pr_router p) target ex))"
  shows "length (node_id n) = ID_LEN"
  using rt_find_neighbors_subset [OF pr_invD(3) [OF assms(1)], of secs target ex] assms(2)
    rt_known_wf [OF pr_invD(3) [OF assms(1)]] rt_contacts_known by (auto simp: wf_node_def)

lemma rpc_find_value_wf:
  assumes "pr_inv lib h self cd p" and "length i = ID_LEN" and "rpc_find_value ev i a k p = Some (FoundNodes ns, p')"
  shows "\<forall>n \<in> set ns. length (node_id n) = ID_LEN"
proof -
  let ?src = "new_node i (Some (fst a)) (Some (snd a))"
  obtain p1 where w: "welcome_if_new ev ?src p = Some p1"
    and ns: "ns = fst (rt_find_neighbors (pr_secs p1) (pr_router p1) (from_id k) (Some ?src))"
    using assms(3) by (auto simp: rpc_find_value_def Let_def split_def split: option.splits)
  have "pr_inv lib h self cd p1" using pr_inv_welcome [OF assms(1) _ w] assms(2) by simp
  then show ?thesis using neighbors_wf ns by blast
qed

text \<open>
  C19. The type of the wire protocol: in every reachable state, a well-formed request is answered
  by a response of its own kind and by no other message, the response is well-formed, so every
  identifier in it has twenty bytes; a leave message and a response that arrives as a request are
  not answered.
\<close>

theorem dispatch_response_typed:
  assumes "lib_ok lib" and "(pr_step lib)\<^sup>*\<^sup>* (did_node alib f self k ttl use_cache now secs) p"
    and "wf_node self" and "wf_message m" and "dispatch_request lib ev m peer p = Some (r, p')"
  shows "response_of m r \<and> (case r of None \<Rightarrow> True | Some m' \<Rightarrow> wf_message m')"
proof -
  note inv = did_node_inv [OF assms(1,2)]
  have self: "length (node_id (pr_source_node p)) = ID_LEN"
    using assms(3) pr_invD(2) [OF inv] by (simp add: wf_node_def)
  show ?thesis
  proof (cases m)
    case (FindValue i key)
    with assms(4,5) rpc_find_value_wf [OF inv, of i ev _ key] show ?thesis
      by (auto simp: wire_of_node_def split: option.splits find_value_result.splits)
  qed (use assms(4,5) self neighbors_wf [OF inv] in
      \<open>auto simp: Let_def split_def rpc_ping_def rpc_find_node_def wire_of_node_def\<close>)
qed

theorem dispatch_response_typed_witness:
  "\<exists>r p'. dispatch_request demo_lib plain_env (Ping demo_peer) (V4 (127, 0, 0, 1) 9) (demo_start True) = Some (r, p') \<and>
     response_of (Ping demo_peer) r"
proof -
  let ?peer = "V4 (127, 0, 0, 1) 9"
  obtain r p' where d: "dispatch_request demo_lib plain_env (Ping demo_peer) ?peer (demo_start True) = Some (r, p')"
    by (simp add: Let_def split_def)
  have "wf_node demo_self" "wf_message (Ping demo_peer)" by (simp_all add: ID_LEN_def)
  with dispatch_response_typed [OF demo_lib_ok _ _ _ d, of echo_auth_lib None demo_self 1 "- 1" True 0 0] d show ?thesis
    by (auto simp: demo_start_def)
qed

end
