(* ===== verification/Did_Document.thy ===== *)
theory Did_Document
  imports Auth_Handler
begin

text \<open>
  DID documents and the records built from them. The programs that publish records each have their
  own copy of the same helpers: \<^verbatim>\<open>scripts/dht_node.rs\<close>, \<^verbatim>\<open>scripts/resilience_attacker.rs\<close>,
  \<^verbatim>\<open>scripts/resilience_victim.rs\<close>, \<^verbatim>\<open>examples/publish_did.rs\<close>, \<^verbatim>\<open>examples/topology_analysis.rs\<close>
  and \<^verbatim>\<open>examples/cache_bench.rs\<close>. Printing JSON and base64 are fields of \<open>doc_lib\<close>; key pairs and the
  random UUID are arguments; a failing \<open>expect\<close> or \<open>unwrap\<close> is \<open>None\<close>.
\<close>

record doc_lib = auth_lib +
  json_to_vec :: "json_value \<Rightarrow> bytes option"
  json_to_string_pretty :: "json_value \<Rightarrow> rust_str option"
  b64_encode :: "bytes \<Rightarrow> rust_str"

section \<open>The helpers of dht_node\<close>

definition base64url_encode :: "'x doc_lib_scheme \<Rightarrow> bytes \<Rightarrow> rust_str" where
  "base64url_encode lib pk = b64_encode lib pk"

lemma size_btree_member [termination_simp]:
  assumes "(k, v) \<in> set (btree_collect m)"
  shows "size v < Suc (size_list (\<lambda>x. Suc (size (snd x))) m)"
proof -
  have "size v \<le> size_list (\<lambda>x. Suc (size (snd x))) m"
    using btree_collect_subset [of m] assms by (intro size_list_estimation' [of "(k, v)"]) auto
  then show ?thesis by simp
qed

fun sort_json_keys :: "json_value \<Rightarrow> json_value" where
  "sort_json_keys (Object m) =
     (let sorted = btree_collect (map (\<lambda>kv. (fst kv, sort_json_keys (snd kv))) (btree_collect m))
      in Object sorted)"
| "sort_json_keys (Array arr) = Array (map sort_json_keys arr)"
| "sort_json_keys other = other"

definition encode_did_document :: "'x doc_lib_scheme \<Rightarrow> json_value \<Rightarrow> bytes option" where
  "encode_did_document lib doc = json_to_vec lib (sort_json_keys doc)"

definition build_signed_record ::
  "'x doc_lib_scheme \<Rightarrow> json_value \<Rightarrow> bytes \<Rightarrow> rust_str \<Rightarrow> bytes option" where
  "build_signed_record lib doc secret_key algorithm =
     (case encode_did_document lib doc of
        None \<Rightarrow> None
      | Some doc_bytes \<Rightarrow> Some (assemble_record lib doc_bytes secret_key algorithm))"

definition build_did_document :: "'x doc_lib_scheme \<Rightarrow> rust_str \<Rightarrow> bytes \<Rightarrow> bytes \<Rightarrow> json_value" where
  "build_did_document lib did dilithium_pk kyber_pk =
     json_object
      [(str_lit ''@context'', Array [String (str_lit ''https://www.w3.org/ns/did/v1'')]),
       (str_lit ''id'', String did),
       (str_lit ''verificationMethod'', Array
         [json_object
           [(str_lit ''id'', String (did @ str_lit ''#k0'')),
            (str_lit ''type'', String (str_lit ''JsonWebKey2020'')),
            (str_lit ''controller'', String did),
            (str_lit ''publicKeyJwk'', json_object
              [(str_lit ''kty'', String (str_lit ''OKP'')), (str_lit ''crv'', String (str_lit ''Dilithium2'')),
               (str_lit ''x'', String (base64url_encode lib dilithium_pk))])],
          json_object
           [(str_lit ''id'', String (did @ str_lit ''#k1'')),
            (str_lit ''type'', String (str_lit ''JsonWebKey2020'')),
            (str_lit ''controller'', String did),
            (str_lit ''publicKeyJwk'', json_object
              [(str_lit ''kty'', String (str_lit ''OKP'')), (str_lit ''crv'', String (str_lit ''Kyber512'')),
               (str_lit ''x'', String (base64url_encode lib kyber_pk))])]]),
       (str_lit ''authentication'', Array [String (did @ str_lit ''#k0'')]),
       (str_lit ''keyAgreement'', Array [String (did @ str_lit ''#k1'')]),
       (str_lit ''service'', Array
         [json_object
           [(str_lit ''id'', String (did @ str_lit ''#device'')),
            (str_lit ''type'', String (str_lit ''DeviceAgent'')),
            (str_lit ''serviceEndpoint'', String (str_lit ''http://example.com/device''))]])]"

text \<open>The algorithm field is only logged.\<close>

definition decode_record :: "'x doc_lib_scheme \<Rightarrow> bytes \<Rightarrow> rust_str option" where
  "decode_record lib record =
     (let SIG_LEN = 2420
      in if length record < 12 + SIG_LEN then None
         else
           (case json_from_slice lib (drop (12 + SIG_LEN) record) of
              None \<Rightarrow> None
            | Some doc \<Rightarrow> json_to_string_pretty lib doc))"

section \<open>The helpers of publish_did\<close>

text \<open>\<open>uuid\<close> is the text of \<open>Uuid::new_v4()\<close>.\<close>

definition pd_base64url_encode :: "'x doc_lib_scheme \<Rightarrow> bytes \<Rightarrow> rust_str" where
  "pd_base64url_encode lib pk = b64_encode lib pk"

fun pd_sort_json_keys :: "json_value \<Rightarrow> json_value" where
  "pd_sort_json_keys (Object m) =
     (let sorted = btree_collect (map (\<lambda>kv. (fst kv, pd_sort_json_keys (snd kv))) (btree_collect m))
      in Object sorted)"
| "pd_sort_json_keys (Array arr) = Array (map pd_sort_json_keys arr)"
| "pd_sort_json_keys other = other"

definition pd_encode_did_document :: "'x doc_lib_scheme \<Rightarrow> json_value \<Rightarrow> bytes option" where
  "pd_encode_did_document lib doc =
     (let canonical = pd_sort_json_keys doc
      in json_to_vec lib canonical)"

definition pd_build_signed_record ::
  "'x doc_lib_scheme \<Rightarrow> json_value \<Rightarrow> bytes \<Rightarrow> rust_str \<Rightarrow> bytes option" where
  "pd_build_signed_record lib doc secret_key algorithm =
     (case pd_encode_did_document lib doc of
        None \<Rightarrow> None
      | Some doc_bytes \<Rightarrow>
          let alg_bytes = as_bytes algorithm;
              copy_len = min (length alg_bytes) 12;
              alg_field = take copy_len alg_bytes @ replicate (12 - copy_len) 0;
              signature = detached_sign (dilithium2 lib) doc_bytes secret_key
          in Some (alg_field @ signature @ doc_bytes))"

definition generate_did_iiot :: "rust_str \<Rightarrow> rust_str" where
  "generate_did_iiot uuid = str_lit ''did:iiot:'' @ uuid"

definition pd_build_did_document :: "'x doc_lib_scheme \<Rightarrow> rust_str \<Rightarrow> bytes \<Rightarrow> bytes \<Rightarrow> json_value" where
  "pd_build_did_document lib did dilithium_pk kyber_pk =
     (let dilithium_x = pd_base64url_encode lib dilithium_pk;
          kyber_x = pd_base64url_encode lib kyber_pk
      in json_object
        [(str_lit ''@context'', Array [String (str_lit ''https://www.w3.org/ns/did/v1'')]),
         (str_lit ''id'', String did),
         (str_lit ''verificationMethod'', Array
           [json_object
             [(str_lit ''id'', String (did @ str_lit ''#k0'')),
              (str_lit ''type'', String (str_lit ''JsonWebKey2020'')),
              (str_lit ''controller'', String did),
              (str_lit ''publicKeyJwk'', json_object
                [(str_lit ''kty'', String (str_lit ''OKP'')), (str_lit ''crv'', String (str_lit ''Dilithium2'')),
                 (str_lit ''x'', String dilithium_x)])],
            json_object
             [(str_lit ''id'', String (did @ str_lit ''#k1'')),
              (str_lit ''type'', String (str_lit ''JsonWebKey2020'')),
              (str_lit ''controller'', String did),
              (str_lit ''publicKeyJwk'', json_object
                [(str_lit ''kty'', String (str_lit ''OKP'')), (str_lit ''crv'', String (str_lit ''Kyber512'')),
                 (str_lit ''x'', String kyber_x)])]]),
         (str_lit ''authentication'', Array [String (did @ str_lit ''#k0'')]),
         (str_lit ''keyAgreement'', Array [String (did @ str_lit ''#k1'')]),
         (str_lit ''service'', Array
           [json_object
             [(str_lit ''id'', String (did @ str_lit ''#device'')),
              (str_lit ''type'', String (str_lit ''DeviceAgent'')),
              (str_lit ''serviceEndpoint'', String (str_lit ''http://example.com/device''))]])])"

section \<open>The helpers of the resilience scripts\<close>

text \<open>\<open>s.split(c).next_back().unwrap()\<close>: what follows the last \<open>c\<close>.\<close>

definition split_next_back :: "nat \<Rightarrow> rust_str \<Rightarrow> rust_str" where
  "split_next_back c s = rev (takeWhile (\<lambda>x. x \<noteq> c) (rev s))"

definition ra_b64url :: "'x doc_lib_scheme \<Rightarrow> bytes \<Rightarrow> rust_str" where
  "ra_b64url lib data = b64_encode lib data"

fun ra_sort_json :: "json_value \<Rightarrow> json_value" where
  "ra_sort_json (Object m) =
     Object (btree_collect (map (\<lambda>kv. (fst kv, ra_sort_json (snd kv))) (btree_collect m)))"
| "ra_sort_json (Array a) = Array (map ra_sort_json a)"
| "ra_sort_json other = other"

definition ra_make_record ::
  "'x doc_lib_scheme \<Rightarrow> bytes \<times> bytes \<Rightarrow> bytes \<Rightarrow> rust_str \<Rightarrow> (rust_str \<times> bytes) option" where
  "ra_make_record lib dilithium_keys kpk uuid =
     (let (dpk, dsk) = dilithium_keys;
          did = str_lit ''did:iiot:'' @ uuid;
          key = split_next_back (of_char (CHR '':'')) did;
          doc = json_object
            [(str_lit ''@context'', Array [String (str_lit ''https://www.w3.org/ns/did/v1'')]),
             (str_lit ''id'', String did),
             (str_lit ''verificationMethod'', Array
               [json_object
                 [(str_lit ''id'', String (did @ str_lit ''#k0'')), (str_lit ''type'', String (str_lit ''JsonWebKey2020'')),
                  (str_lit ''controller'', String did),
                  (str_lit ''publicKeyJwk'', json_object
                    [(str_lit ''kty'', String (str_lit ''OKP'')), (str_lit ''crv'', String (str_lit ''Dilithium2'')),
                     (str_lit ''x'', String (ra_b64url lib dpk))])],
                json_object
                 [(str_lit ''id'', String (did @ str_lit ''#k1'')), (str_lit ''type'', String (str_lit ''JsonWebKey2020'')),
                  (str_lit ''controller'', String did),
                  (str_lit ''publicKeyJwk'', json_object
                    [(str_lit ''kty'', String (str_lit ''OKP'')), (str_lit ''crv'', String (str_lit ''Kyber512'')),
                     (str_lit ''x'', String (ra_b64url lib kpk))])]]),
             (str_lit ''authentication'', Array [String (did @ str_lit ''#k0'')]),
             (str_lit ''keyAgreement'', Array [String (did @ str_lit ''#k1'')]),
             (str_lit ''service'', Array
               [json_object
                 [(str_lit ''id'', String (did @ str_lit ''#device'')), (str_lit ''type'', String (str_lit ''DeviceAgent'')),
                  (str_lit ''serviceEndpoint'', String (str_lit ''http://example.com/device''))]])]
      in case json_to_vec lib (ra_sort_json doc) of
           None \<Rightarrow> None
         | Some doc_bytes \<Rightarrow>
             let sig = detached_sign (dilithium2 lib) doc_bytes dsk;
                 alg = as_bytes (str_lit ''Dilithium-2'') @ [0]
             in Some (key, alg @ sig @ doc_bytes))"

definition rv_b64url :: "'x doc_lib_scheme \<Rightarrow> bytes \<Rightarrow> rust_str" where
  "rv_b64url lib data = b64_encode lib data"

fun rv_sort_json :: "json_value \<Rightarrow> json_value" where
  "rv_sort_json (Object m) =
     Object (btree_collect (map (\<lambda>kv. (fst kv, rv_sort_json (snd kv))) (btree_collect m)))"
| "rv_sort_json (Array a) = Array (map rv_sort_json a)"
| "rv_sort_json other = other"

definition rv_make_record ::
  "'x doc_lib_scheme \<Rightarrow> bytes \<times> bytes \<Rightarrow> bytes \<Rightarrow> rust_str \<Rightarrow> (rust_str \<times> bytes) option" where
  "rv_make_record lib dilithium_keys kpk uuid =
     (let (dpk, dsk) = dilithium_keys;
          did = str_lit ''did:iiot:'' @ uuid;
          key = split_next_back (of_char (CHR '':'')) did;
          doc = json_object
            [(str_lit ''@context'', Array [String (str_lit ''https://www.w3.org/ns/did/v1'')]),
             (str_lit ''id'', String did),
             (str_lit ''verificationMethod'', Array
               [json_object
                 [(str_lit ''id'', String (did @ str_lit ''#k0'')), (str_lit ''type'', String (str_lit ''JsonWebKey2020'')),
                  (str_lit ''controller'', String did),
                  (str_lit ''publicKeyJwk'', json_object
                    [(str_lit ''kty'', String (str_lit ''OKP'')), (str_lit ''crv'', String (str_lit ''Dilithium2'')),
                     (str_lit ''x'', String (rv_b64url lib dpk))])],
                json_object
                 [(str_lit ''id'', String (did @ str_lit ''#k1'')), (str_lit ''type'', String (str_lit ''JsonWebKey2020'')),
                  (str_lit ''controller'', String did),
                  (str_lit ''publicKeyJwk'', json_object
                    [(str_lit ''kty'', String (str_lit ''OKP'')), (str_lit ''crv'', String (str_lit ''Kyber512'')),
                     (str_lit ''x'', String (rv_b64url lib kpk))])]]),
             (str_lit ''authentication'', Array [String (did @ str_lit ''#k0'')]),
             (str_lit ''keyAgreement'', Array [String (did @ str_lit ''#k1'')]),
             (str_lit ''service'', Array
               [json_object
                 [(str_lit ''id'', String (did @ str_lit ''#device'')), (str_lit ''type'', String (str_lit ''DeviceAgent'')),
                  (str_lit ''serviceEndpoint'', String (str_lit ''http://example.com/device''))]])]
      in case json_to_vec lib (rv_sort_json doc) of
           None \<Rightarrow> None
         | Some doc_bytes \<Rightarrow>
             let sig = detached_sign (dilithium2 lib) doc_bytes dsk;
                 alg = as_bytes (str_lit ''Dilithium-2'') @ [0]
             in Some (key, alg @ sig @ doc_bytes))"

section \<open>The helpers of cache_bench and topology_analysis\<close>

definition cb_base64url :: "'x doc_lib_scheme \<Rightarrow> bytes \<Rightarrow> rust_str" where
  "cb_base64url lib pk = b64_encode lib pk"

fun cb_sort_json_keys :: "json_value \<Rightarrow> json_value" where
  "cb_sort_json_keys (Object m) =
     Object (btree_collect (map (\<lambda>kv. (fst kv, cb_sort_json_keys (snd kv))) (btree_collect m)))"
| "cb_sort_json_keys (Array arr) = Array (map cb_sort_json_keys arr)"
| "cb_sort_json_keys other = other"

definition cb_new_record ::
  "'x doc_lib_scheme \<Rightarrow> bytes \<times> bytes \<Rightarrow> bytes \<Rightarrow> rust_str \<Rightarrow> (rust_str \<times> bytes) option" where
  "cb_new_record lib dilithium_keys kpk uuid =
     (let (dpk, dsk) = dilithium_keys;
          did = str_lit ''did:iiot:'' @ uuid;
          key = split_next_back (of_char (CHR '':'')) did;
          doc = json_object
            [(str_lit ''@context'', Array [String (str_lit ''https://www.w3.org/ns/did/v1'')]),
             (str_lit ''id'', String did),
             (str_lit ''verificationMethod'', Array
               [json_object
                 [(str_lit ''id'', String (did @ str_lit ''#k0'')), (str_lit ''type'', String (str_lit ''JsonWebKey2020'')),
                  (str_lit ''controller'', String did),
                  (str_lit ''publicKeyJwk'', json_object
                    [(str_lit ''kty'', String (str_lit ''OKP'')), (str_lit ''crv'', String (str_lit ''Dilithium2'')),
                     (str_lit ''x'', String (cb_base64url lib dpk))])],
                json_object
                 [(str_lit ''id'', String (did @ str_lit ''#k1'')), (str_lit ''type'', String (str_lit ''JsonWebKey2020'')),
                  (str_lit ''controller'', String did),
                  (str_lit ''publicKeyJwk'', json_object
                    [(str_lit ''kty'', String (str_lit ''OKP'')), (str_lit ''crv'', String (str_lit ''Kyber512'')),
                     (str_lit ''x'', String (cb_base64url lib kpk))])]]),
             (str_lit ''authentication'', Array [String (did @ str_lit ''#k0'')]),
             (str_lit ''keyAgreement'', Array [String (did @ str_lit ''#k1'')]),
             (str_lit ''service'', Array
               [json_object
                 [(str_lit ''id'', String (did @ str_lit ''#device'')), (str_lit ''type'', String (str_lit ''DeviceAgent'')),
                  (str_lit ''serviceEndpoint'', String (str_lit ''http://example.com/device''))]])]
      in case json_to_vec lib (cb_sort_json_keys doc) of
           None \<Rightarrow> None
         | Some doc_bytes \<Rightarrow>
             let sig = detached_sign (dilithium2 lib) doc_bytes dsk;
                 alg = as_bytes (str_lit ''Dilithium-2'') @ [0]
             in Some (key, alg @ sig @ doc_bytes))"

definition ta_base64url :: "'x doc_lib_scheme \<Rightarrow> bytes \<Rightarrow> rust_str" where
  "ta_base64url lib pk = b64_encode lib pk"

fun ta_sort_json_keys :: "json_value \<Rightarrow> json_value" where
  "ta_sort_json_keys (Object m) =
     Object (btree_collect (map (\<lambda>kv. (fst kv, ta_sort_json_keys (snd kv))) (btree_collect m)))"
| "ta_sort_json_keys (Array arr) = Array (map ta_sort_json_keys arr)"
| "ta_sort_json_keys other = other"

definition ta_encode_did_document :: "'x doc_lib_scheme \<Rightarrow> json_value \<Rightarrow> bytes option" where
  "ta_encode_did_document lib doc = json_to_vec lib (ta_sort_json_keys doc)"

definition ta_build_signed_record :: "'x doc_lib_scheme \<Rightarrow> json_value \<Rightarrow> bytes \<Rightarrow> bytes option" where
  "ta_build_signed_record lib doc sk =
     (case ta_encode_did_document lib doc of
        None \<Rightarrow> None
      | Some doc_bytes \<Rightarrow>
          let alg = as_bytes (str_lit ''Dilithium-2'') @ [0];
              sig_bytes = detached_sign (dilithium2 lib) doc_bytes sk
          in Some (alg @ sig_bytes @ doc_bytes))"

definition ta_build_did_document :: "'x doc_lib_scheme \<Rightarrow> rust_str \<Rightarrow> bytes \<Rightarrow> bytes \<Rightarrow> json_value" where
  "ta_build_did_document lib did dpk kpk =
     json_object
       [(str_lit ''@context'', Array [String (str_lit ''https://www.w3.org/ns/did/v1'')]),
        (str_lit ''id'', String did),
        (str_lit ''verificationMethod'', Array
          [json_object
            [(str_lit ''id'', String (did @ str_lit ''#k0'')), (str_lit ''type'', String (str_lit ''JsonWebKey2020'')),
             (str_lit ''controller'', String did),
             (str_lit ''publicKeyJwk'', json_object
               [(str_lit ''kty'', String (str_lit ''OKP'')), (str_lit ''crv'', String (str_lit ''Dilithium2'')),
                (str_lit ''x'', String (ta_base64url lib dpk))])],
           json_object
            [(str_lit ''id'', String (did @ str_lit ''#k1'')), (str_lit ''type'', String (str_lit ''JsonWebKey2020'')),
             (str_lit ''controller'', String did),
             (str_lit ''publicKeyJwk'', json_object
               [(str_lit ''kty'', String (str_lit ''OKP'')), (str_lit ''crv'', String (str_lit ''Kyber512'')),
                (str_lit ''x'', String (ta_base64url lib kpk))])]]),
        (str_lit ''authentication'', Array [String (did @ str_lit ''#k0'')]),
        (str_lit ''keyAgreement'', Array [String (did @ str_lit ''#k1'')]),
        (str_lit ''service'', Array
          [json_object
            [(str_lit ''id'', String (did @ str_lit ''#device'')), (str_lit ''type'', String (str_lit ''DeviceAgent'')),
             (str_lit ''serviceEndpoint'', String (str_lit ''http://example.com/device''))]])]"

definition ta_new_record ::
  "'x doc_lib_scheme \<Rightarrow> bytes \<times> bytes \<Rightarrow> bytes \<Rightarrow> rust_str \<Rightarrow> (rust_str \<times> rust_str \<times> bytes) option" where
  "ta_new_record lib dilithium_keys kpk uuid =
     (let (dpk, dsk) = dilithium_keys;
          did = str_lit ''did:iiot:'' @ uuid;
          key = split_next_back (of_char (CHR '':'')) did;
          doc = ta_build_did_document lib did dpk kpk
      in case ta_build_signed_record lib doc dsk of
           None \<Rightarrow> None
         | Some record \<Rightarrow> Some (did, key, record))"

definition extract_doc :: "'x doc_lib_scheme \<Rightarrow> bytes \<Rightarrow> json_value option" where
  "extract_doc lib record =
     (let SIG_LEN = 2420;
          doc_start = 12 + SIG_LEN
      in if length record \<le> doc_start then None
         else json_from_slice lib (drop doc_start record))"

section \<open>Canonical documents\<close>

lemma sort_object [simp]:
  "sort_json_keys (Object m) = Object (map (\<lambda>kv. (fst kv, sort_json_keys (snd kv))) (btree_collect m))"
  using btree_collect_id [of "map (\<lambda>kv. (fst kv, sort_json_keys (snd kv))) (btree_collect m)"] by (simp add: comp_def)

declare sort_json_keys.simps(1) [simp del]

lemma sort_canonical: "canonical (sort_json_keys v)"
  by (induction v rule: sort_json_keys.induct) (auto simp: comp_def)

lemma canonical_sort_id: "canonical v \<Longrightarrow> sort_json_keys v = v"
proof (induction v rule: sort_json_keys.induct)
  case (1 m)
  then show ?case by (auto simp: btree_collect_id intro!: map_idI)
next
  case (2 arr)
  then show ?case by (auto intro!: map_idI)
qed simp_all

lemma json_equiv_simps [simp]:
  "json_equiv (Object m) (Object n) \<longleftrightarrow>
     fst ` set m = fst ` set n \<and>
     (\<forall>kv \<in> set m. \<forall>kw \<in> set n. fst kv = fst kw \<longrightarrow> json_equiv (snd kv) (snd kw))"
  "json_equiv (Array xs) (Array ys) \<longleftrightarrow> list_all2 json_equiv xs ys"
  by (subst json_equiv.simps, simp)+

lemma sorted_entries_eq_iff:
  assumes "distinct (map fst m)" and "distinct (map fst n)"
  shows "map (\<lambda>kv. (fst kv, f (snd kv))) (btree_collect m) = map (\<lambda>kv. (fst kv, f (snd kv))) (btree_collect n) \<longleftrightarrow>
    fst ` set m = fst ` set n \<and> (\<forall>kv \<in> set m. \<forall>kw \<in> set n. fst kv = fst kw \<longrightarrow> f (snd kv) = f (snd kw))"
    (is "?l m = ?l n \<longleftrightarrow> ?r")
proof -
  have ord: "ordered (?l m)" "ordered (?l n)" by (simp_all add: comp_def)
  have set: "set (?l m) = (\<lambda>kv. (fst kv, f (snd kv))) ` set m" "set (?l n) = (\<lambda>kv. (fst kv, f (snd kv))) ` set n"
    using assms by (simp_all add: btree_collect_set)
  have "?l m = ?l n \<longleftrightarrow> set (?l m) = set (?l n)"
    using ordered_set_unique [OF ord] arg_cong [of "?l m" "?l n" set] by (intro iffI)
  also have "\<dots> \<longleftrightarrow> ?r"
  proof
    assume eq: "set (?l m) = set (?l n)"
    have "fst ` set (?l m) = fst ` set (?l n)" using eq by simp
    then have "fst ` set m = fst ` set n" unfolding set by (simp add: image_image)
    moreover have "f (snd kv) = f (snd kw)" if "kv \<in> set m" "kw \<in> set n" "fst kv = fst kw" for kv kw
    proof -
      have "(fst kv, f (snd kv)) \<in> set (?l n)" using that eq set(1) by blast
      moreover have "(fst kv, f (snd kw)) \<in> set (?l n)" using that set(2) by force
      ultimately show ?thesis using ord(2) eq_key_imp_eq_value [of "?l n"] by blast
    qed
    ultimately show ?r by blast
  next
    assume r: ?r
    have sub: "(\<lambda>kv. (fst kv, f (snd kv))) ` set a \<subseteq> (\<lambda>kv. (fst kv, f (snd kv))) ` set b"
      if keys: "fst ` set a \<subseteq> fst ` set b"
        and vals: "\<And>kv kw. kv \<in> set a \<Longrightarrow> kw \<in> set b \<Longrightarrow> fst kv = fst kw \<Longrightarrow> f (snd kv) = f (snd kw)" for a b
    proof
      fix x assume "x \<in> (\<lambda>kv. (fst kv, f (snd kv))) ` set a"
      then obtain kv where kv: "kv \<in> set a" "x = (fst kv, f (snd kv))" by blast
      then obtain kw where kw: "kw \<in> set b" "fst kv = fst kw" using keys by blast
      then have "x = (fst kw, f (snd kw))" using kv vals by simp
      with kw show "x \<in> (\<lambda>kv. (fst kv, f (snd kv))) ` set b" by blast
    qed
    show "set (?l m) = set (?l n)" unfolding set by (rule equalityI; rule sub) (use r in auto)
  qed
  finally show ?thesis .
qed

lemma sort_eq_iff:
  "keys_distinct v \<Longrightarrow> keys_distinct w \<Longrightarrow> sort_json_keys v = sort_json_keys w \<longleftrightarrow> json_equiv v w"
proof (induction v arbitrary: w)
  case (Object m)
  show ?case
  proof (cases w)
    case w: (Object n)
    have IH: "sort_json_keys (snd kv) = sort_json_keys (snd kw) \<longleftrightarrow> json_equiv (snd kv) (snd kw)"
      if "kv \<in> set m" "kw \<in> set n" for kv kw
      using Object.IH [of kv "snd kv" "snd kw"] Object.prems that w by (auto simp: prod_set_simps snds.simps)
    have "sort_json_keys (Object m) = sort_json_keys w \<longleftrightarrow>
        fst ` set m = fst ` set n \<and>
        (\<forall>kv \<in> set m. \<forall>kw \<in> set n. fst kv = fst kw \<longrightarrow> sort_json_keys (snd kv) = sort_json_keys (snd kw))"
      using sorted_entries_eq_iff [of m n sort_json_keys] Object.prems w by simp
    then show ?thesis using IH w by auto
  qed (auto simp: json_equiv.simps)
next
  case (Array xs)
  show ?case
  proof (cases w)
    case w: (Array ys)
    have "map sort_json_keys xs = map sort_json_keys ys \<longleftrightarrow> list_all2 (\<lambda>x y. sort_json_keys x = sort_json_keys y) xs ys"
      by (auto simp: list_all2_conv_all_nth list_eq_iff_nth_eq)
    also have "\<dots> \<longleftrightarrow> list_all2 json_equiv xs ys"
      using Array w by (intro list.rel_cong) auto
    finally show ?thesis using w by simp
  qed (auto simp: json_equiv.simps)
next
  case Null
  show ?case by (cases w) (simp_all add: json_equiv.simps)
next
  case Bool
  show ?case by (cases w) (simp_all add: json_equiv.simps)
next
  case Number
  show ?case by (cases w) (simp_all add: json_equiv.simps)
next
  case String
  show ?case by (cases w) (simp_all add: json_equiv.simps)
qed

section \<open>The documented behaviour of the libraries\<close>

text \<open>
  Indexing a \<open>Value\<close> and \<open>as_str\<close>; a value that \<open>serde_json\<close> prints and reads back; a key that base64
  without padding encodes and decodes; and a Dilithium-2 key pair.
\<close>

definition json_access_ok :: "'x auth_lib_scheme \<Rightarrow> bool" where
  "json_access_ok lib \<longleftrightarrow>
     (\<forall>m k. json_index_str lib (Object m) k = (case map_of m k of Some v \<Rightarrow> v | None \<Rightarrow> Null)) \<and>
     (\<forall>vs i. json_index_usize lib (Array vs) i = (if i < length vs then vs ! i else Null)) \<and>
     (\<forall>s. json_as_str lib (String s) = Some s)"

definition json_roundtrip :: "'x doc_lib_scheme \<Rightarrow> json_value \<Rightarrow> bool" where
  "json_roundtrip lib v \<longleftrightarrow> (\<exists>bs. json_to_vec lib v = Some bs \<and> json_from_slice lib bs = Some v)"

definition b64_roundtrip :: "'x doc_lib_scheme \<Rightarrow> bytes \<Rightarrow> bool" where
  "b64_roundtrip lib bs \<longleftrightarrow>
     b64_decode lib (b64_encode lib bs) = Some bs \<and> of_char (CHR ''='') \<notin> set (b64_encode lib bs)"

definition signing_pair :: "dilithium_mod \<Rightarrow> bytes \<Rightarrow> bytes \<Rightarrow> bool" where
  "signing_pair m pk sk \<longleftrightarrow>
     length pk = 1312 \<and> pk_from_bytes m pk \<and>
     (\<forall>msg. length (detached_sign m msg sk) = 2420 \<and> sig_from_bytes m (detached_sign m msg sk) \<and>
        verify_detached_signature m (detached_sign m msg sk) msg pk)"

lemma signing_pair_verify:
  "signing_pair (dilithium2 lib) pk sk \<Longrightarrow>
     verify lib DilithiumSignatureVerifier pk (detached_sign (dilithium2 lib) msg sk) msg = Inr True"
  by (simp add: signing_pair_def dilithium_verify_def dilithium_level_from_pubkey_len_def verify_d_def)

section \<open>The key of a document\<close>

lemma json_object_canonical: "(\<forall>kv \<in> set kvs. canonical (snd kv)) \<Longrightarrow> canonical (json_object kvs)"
  using btree_collect_subset [of kvs] by (auto simp: json_object_def)

lemma did_document_canonical: "canonical (build_did_document lib did dpk kpk)"
  unfolding build_did_document_def by (intro json_object_canonical) (simp add: json_object_canonical)

lemma json_object_index:
  "json_access_ok lib \<Longrightarrow>
     json_index_str lib (json_object kvs) k = (case map_of (rev kvs) k of Some v \<Rightarrow> v | None \<Rightarrow> Null)"
  by (simp add: json_access_ok_def json_object_def map_of_btree_collect)

lemma str_lit_eq_iff [simp]: "str_lit s = str_lit t \<longleftrightarrow> s = t"
  by (simp add: str_lit_def inj_map_eq_map [OF inj_of_char])

lemma trim_end_absent: "c \<notin> set s \<Longrightarrow> trim_end_matches (\<lambda>x. x = c) s = s"
  by (cases s rule: rev_cases) (simp_all add: trim_end_matches_def)

lemma document_key:
  assumes "json_access_ok lib" and "b64_roundtrip lib dpk"
    and "json_from_slice lib bs = Some (build_did_document lib did dpk kpk)"
  shows "public_key_from_did_doc lib bs = Inr dpk"
proof -
  have "decode_b64url lib (b64_encode lib dpk) = Inr dpk"
    using assms(2) by (simp add: decode_b64url_def b64_roundtrip_def trim_end_absent ok_or_def)
  moreover have "json_index_usize lib (Array (v # vs)) 0 = v" "json_as_str lib (String s) = Some s" for v vs s
    using assms(1) by (simp_all add: json_access_ok_def)
  ultimately show ?thesis
    using assms(3) json_object_index [OF assms(1)]
    by (simp add: public_key_from_did_doc_def build_did_document_def ok_or_def base64url_encode_def)
qed

lemma built_record:
  assumes "json_access_ok lib" and "b64_roundtrip lib dpk" and "json_roundtrip lib (build_did_document lib did dpk kpk)"
    and "signing_pair (dilithium2 lib) dpk dsk"
  obtains r bs where "build_signed_record lib (build_did_document lib did dpk kpk) dsk (str_lit ''Dilithium-2'') = Some r"
    "r = assemble_record lib bs dsk (str_lit ''Dilithium-2'')"
    "json_from_slice lib bs = Some (build_did_document lib did dpk kpk)"
    "record_parts r DilithiumSignatureVerifier (detached_sign (dilithium2 lib) bs dsk) bs"
    "public_key_from_did_doc lib bs = Inr dpk"
proof -
  let ?doc = "build_did_document lib did dpk kpk"
  obtain bs where bs: "json_to_vec lib ?doc = Some bs" "json_from_slice lib bs = Some ?doc"
    using assms(3) by (auto simp: json_roundtrip_def)
  have "encode_did_document lib ?doc = Some bs"
    using bs(1) by (simp add: encode_did_document_def canonical_sort_id did_document_canonical)
  then have "build_signed_record lib ?doc dsk (str_lit ''Dilithium-2'') =
      Some (assemble_record lib bs dsk (str_lit ''Dilithium-2''))"
    by (simp add: build_signed_record_def)
  then show thesis
    using that bs(2) document_key [OF assms(1,2) bs(2)] assemble_record_parts [of lib bs dsk] assms(4)
    by (simp add: signing_pair_def)
qed

section \<open>Properties of the documents and records\<close>

text \<open>
  Sorting the keys before signing makes the signed bytes independent of the order in which
  the objects of a document were written: two documents have the same sorted form exactly when they
  differ only in the order of the entries of their objects, at any depth. In the sorted form every
  object has ascending keys, and sorting it again changes nothing.
\<close>

theorem sort_json_keys_canonical:
  assumes "keys_distinct v" and "keys_distinct w"
  shows "(sort_json_keys v = sort_json_keys w \<longleftrightarrow> json_equiv v w) \<and>
    canonical (sort_json_keys v) \<and> sort_json_keys (sort_json_keys v) = sort_json_keys v"
  using sort_eq_iff [OF assms] sort_canonical canonical_sort_id by blast

theorem sort_json_keys_canonical_witness:
  "sort_json_keys (Object [(str_lit ''id'', Null), (str_lit ''controller'', Bool True)]) =
   sort_json_keys (Object [(str_lit ''controller'', Bool True), (str_lit ''id'', Null)])"
proof -
  let ?v = "Object [(str_lit ''id'', Null), (str_lit ''controller'', Bool True)]"
  let ?w = "Object [(str_lit ''controller'', Bool True), (str_lit ''id'', Null)]"
  have "keys_distinct ?v" "keys_distinct ?w" by simp_all
  moreover have "json_equiv ?v ?w" by (auto simp: json_equiv.simps)
  ultimately show ?thesis using sort_json_keys_canonical [of ?v ?w] by simp
qed

text \<open>
  C15. The life of a record: the record that \<open>dht_node\<close> builds from a generated document is accepted
  by the handler and decodes to that document; a second record is accepted as its update when the
  first key signed it, and the deletion is accepted when the first key signed the request.
\<close>

theorem record_lifecycle_accepted:
  assumes "json_access_ok lib"
    and "b64_roundtrip lib dpk" and "json_roundtrip lib (build_did_document lib did dpk kpk)"
    and "signing_pair (dilithium2 lib) dpk dsk"
    and "b64_roundtrip lib dpk'" and "json_roundtrip lib (build_did_document lib did dpk' kpk')"
    and "signing_pair (dilithium2 lib) dpk' dsk'"
  shows "\<exists>r r'. build_signed_record lib (build_did_document lib did dpk kpk) dsk (str_lit ''Dilithium-2'') = Some r \<and>
    build_signed_record lib (build_did_document lib did dpk' kpk') dsk' (str_lit ''Dilithium-2'') = Some r' \<and>
    handle_signature_verification lib r = Inr True \<and>
    decode_record lib r = json_to_string_pretty lib (build_did_document lib did dpk kpk) \<and>
    handle_update_verification lib r' r (detached_sign (dilithium2 lib) r' dsk) = Inr True \<and>
    handle_signature_delete_operation lib r (detached_sign (dilithium2 lib) msg dsk) msg = Inr True"
proof -
  let ?doc = "build_did_document lib did dpk kpk"
  obtain r bs where r: "build_signed_record lib ?doc dsk (str_lit ''Dilithium-2'') = Some r"
    "r = assemble_record lib bs dsk (str_lit ''Dilithium-2'')" "json_from_slice lib bs = Some ?doc"
    "record_parts r DilithiumSignatureVerifier (detached_sign (dilithium2 lib) bs dsk) bs"
    "public_key_from_did_doc lib bs = Inr dpk"
    by (rule built_record [OF assms(1-4)])
  obtain r' bs' where r': "build_signed_record lib (build_did_document lib did dpk' kpk') dsk' (str_lit ''Dilithium-2'') = Some r'"
    "record_parts r' DilithiumSignatureVerifier (detached_sign (dilithium2 lib) bs' dsk') bs'"
    "public_key_from_did_doc lib bs' = Inr dpk'"
    by (rule built_record [OF assms(1,5-7)])
  note ver = signing_pair_verify [OF assms(4)] signing_pair_verify [OF assms(7)]
  have self: "verify_self_signed lib r = Inr True" "verify_self_signed lib r' = Inr True"
    unfolding verify_self_signed_iff using r(4,5) r'(2,3) ver by blast+
  moreover have "handle_update_verification lib r' r (detached_sign (dilithium2 lib) r' dsk) = Inr True"
    unfolding handle_update_verification_def key_rotation_iff using self r(4,5) ver(1) by blast
  moreover have "handle_signature_delete_operation lib r (detached_sign (dilithium2 lib) msg dsk) msg = Inr True"
    unfolding delete_operation_iff using r(4,5) ver(1) by blast
  moreover have "decode_record lib r = json_to_string_pretty lib ?doc"
    using r(2,3) assms(4) by (simp add: decode_record_def assemble_record_def alg_field_dilithium2 signing_pair_def)
  ultimately show ?thesis using r(1) r'(1) by (auto simp: handle_signature_verification_def)
qed

text \<open>A stand-in for the libraries with one signature and one document \<open>v\<close>.\<close>

definition stamp_mod :: dilithium_mod where
  "stamp_mod = \<lparr>pk_from_bytes = (\<lambda>_. True), sig_from_bytes = (\<lambda>_. True), sk_from_bytes = (\<lambda>_. True),
     verify_detached_signature = (\<lambda>sig msg pk. sig = replicate 2420 9), detached_sign = (\<lambda>msg sk. replicate 2420 9)\<rparr>"

definition stamp_lib :: "json_value \<Rightarrow> doc_lib" where
  "stamp_lib v = auth_lib.extend
     (echo_auth_lib\<lparr>dilithium2 := stamp_mod, json_from_slice := (\<lambda>_. Some v),
       json_index_str := (\<lambda>w k. case w of Object m \<Rightarrow> (case map_of m k of Some u \<Rightarrow> u | None \<Rightarrow> Null) | _ \<Rightarrow> Null),
       json_index_usize := (\<lambda>w i. case w of Array vs \<Rightarrow> (if i < length vs then vs ! i else Null) | _ \<Rightarrow> Null),
       json_as_str := (\<lambda>w. case w of String s \<Rightarrow> Some s | _ \<Rightarrow> None), b64_decode := (\<lambda>s. Some (map of_nat s))\<rparr>)
     (doc_lib.fields (\<lambda>_. Some [123, 125]) (\<lambda>_. Some []) (map unat))"

lemma stamp_lib_sel [simp]:
  "dilithium2 (stamp_lib v) = stamp_mod" "json_from_slice (stamp_lib v) bs = Some v"
  "json_to_vec (stamp_lib v) w = Some [123, 125]" "b64_encode (stamp_lib v) = map unat"
  "b64_decode (stamp_lib v) s = Some (map of_nat s)"
  by (simp_all add: stamp_lib_def auth_lib.defs doc_lib.defs)

lemma stamp_lib_access: "json_access_ok (stamp_lib v)"
  by (simp add: json_access_ok_def stamp_lib_def auth_lib.defs doc_lib.defs)

lemma stamp_pair: "signing_pair stamp_mod (replicate 1312 1) sk"
  by (simp add: signing_pair_def stamp_mod_def)

definition stamp_doc :: json_value where
  "stamp_doc = build_did_document (stamp_lib Null) (str_lit ''did:iiot:1'') (replicate 1312 1) []"

lemma stamp_doc_built: "build_did_document (stamp_lib v) (str_lit ''did:iiot:1'') (replicate 1312 1) [] = stamp_doc"
  by (simp add: stamp_doc_def build_did_document_def base64url_encode_def)

theorem record_lifecycle_accepted_witness:
  "\<exists>r. build_signed_record (stamp_lib stamp_doc) stamp_doc [] (str_lit ''Dilithium-2'') = Some r \<and>
     handle_signature_verification (stamp_lib stamp_doc) r = Inr True \<and>
     handle_signature_delete_operation (stamp_lib stamp_doc) r (replicate 2420 9) [1] = Inr True"
proof -
  let ?lib = "stamp_lib stamp_doc" and ?pk = "replicate 1312 1" and ?did = "str_lit ''did:iiot:1''"
  have doc: "json_roundtrip ?lib (build_did_document ?lib ?did ?pk [])"
    by (simp add: json_roundtrip_def stamp_doc_built)
  have b64: "b64_roundtrip ?lib ?pk" by (simp add: b64_roundtrip_def of_char_def)
  have pair: "signing_pair (dilithium2 ?lib) ?pk []" by (simp add: stamp_pair)
  have "detached_sign (dilithium2 ?lib) [1] [] = replicate 2420 9" by (simp add: stamp_mod_def)
  with record_lifecycle_accepted [OF stamp_lib_access b64 doc pair b64 doc pair, of "[1]"] show ?thesis
    unfolding stamp_doc_built by metis
qed

text \<open>The copies of the recursion compute the same function.\<close>

lemma sort_unique:
  assumes "\<And>m. f (Object m) = Object (btree_collect (map (\<lambda>kv. (fst kv, f (snd kv))) (btree_collect m)))"
    and "\<And>xs. f (Array xs) = Array (map f xs)"
    and "f Null = Null" "\<And>b. f (Bool b) = Bool b" "\<And>n. f (Number n) = Number n" "\<And>s. f (String s) = String s"
  shows "f v = sort_json_keys v"
proof (induction v rule: sort_json_keys.induct)
  case (1 m)
  have "map (\<lambda>kv. (fst kv, f (snd kv))) (btree_collect m) = map (\<lambda>kv. (fst kv, sort_json_keys (snd kv))) (btree_collect m)"
    using 1 by simp
  then show ?case unfolding assms(1) sort_json_keys.simps(1) Let_def by (rule arg_cong)
qed (simp_all add: assms(2-))

lemma sort_copies:
  "pd_sort_json_keys v = sort_json_keys v" "ra_sort_json v = sort_json_keys v" "rv_sort_json v = sort_json_keys v"
  "cb_sort_json_keys v = sort_json_keys v" "ta_sort_json_keys v = sort_json_keys v"
  by (rule sort_unique; simp)+

lemma split_did:
  assumes "of_char (CHR '':'') \<notin> set uuid"
  shows "split_next_back (of_char (CHR '':'')) (str_lit ''did:iiot:'' @ uuid) = uuid"
proof -
  have "takeWhile (\<lambda>x. x \<noteq> of_char (CHR '':'')) (rev uuid @ of_char (CHR '':'') # ys) = rev uuid" for ys
    using assms by (subst takeWhile_append2) auto
  then show ?thesis by (simp add: split_next_back_def str_lit_def)
qed

lemma alg_bytes: "as_bytes (str_lit ''Dilithium-2'') @ [0] = alg_field (str_lit ''Dilithium-2'')"
  unfolding alg_field_dilithium2 by (simp add: str_lit_def as_bytes_def utf8_encode_char_def of_char_def)

text \<open>The record of \<open>dht_node\<close> for given keys and UUID, and the copies that build it.\<close>

abbreviation node_record :: "'x doc_lib_scheme \<Rightarrow> bytes \<Rightarrow> bytes \<Rightarrow> bytes \<Rightarrow> rust_str \<Rightarrow> bytes option" where
  "node_record lib dpk dsk kpk uuid \<equiv>
     build_signed_record lib (build_did_document lib (str_lit ''did:iiot:'' @ uuid) dpk kpk) dsk (str_lit ''Dilithium-2'')"

lemma build_signed_record_bytes:
  "build_signed_record lib d sk (str_lit ''Dilithium-2'') =
     map_option (\<lambda>bs. alg_field (str_lit ''Dilithium-2'') @ detached_sign (dilithium2 lib) bs sk @ bs)
       (json_to_vec lib (sort_json_keys d))"
  by (simp add: build_signed_record_def encode_did_document_def assemble_record_def split: option.split)

lemma make_record_copies:
  assumes "of_char (CHR '':'') \<notin> set uuid"
  shows "ra_make_record lib (dpk, dsk) kpk uuid = map_option (Pair uuid) (node_record lib dpk dsk kpk uuid)"
    and "rv_make_record lib (dpk, dsk) kpk uuid = map_option (Pair uuid) (node_record lib dpk dsk kpk uuid)"
    and "cb_new_record lib (dpk, dsk) kpk uuid = map_option (Pair uuid) (node_record lib dpk dsk kpk uuid)"
proof -
  have key: "split_next_back 58 (str_lit ''did:iiot:'' @ uuid) = uuid" using split_did [OF assms] by simp
  note defs = build_did_document_def base64url_encode_def sort_copies build_signed_record_bytes alg_bytes key
  show "ra_make_record lib (dpk, dsk) kpk uuid = map_option (Pair uuid) (node_record lib dpk dsk kpk uuid)"
    by (simp add: ra_make_record_def ra_b64url_def defs Let_def split: option.split)
  show "rv_make_record lib (dpk, dsk) kpk uuid = map_option (Pair uuid) (node_record lib dpk dsk kpk uuid)"
    by (simp add: rv_make_record_def rv_b64url_def defs Let_def split: option.split)
  show "cb_new_record lib (dpk, dsk) kpk uuid = map_option (Pair uuid) (node_record lib dpk dsk kpk uuid)"
    by (simp add: cb_new_record_def cb_base64url_def defs Let_def split: option.split)
qed

lemma document_copies:
  "pd_build_did_document lib did dpk kpk = build_did_document lib did dpk kpk"
  "ta_build_did_document lib did dpk kpk = build_did_document lib did dpk kpk"
  by (simp_all add: pd_build_did_document_def ta_build_did_document_def build_did_document_def pd_base64url_encode_def
      ta_base64url_def base64url_encode_def Let_def)

lemma signed_record_copies:
  "pd_build_signed_record lib d sk a = build_signed_record lib d sk a"
  "ta_build_signed_record lib d sk = build_signed_record lib d sk (str_lit ''Dilithium-2'')"
  by (simp_all add: pd_build_signed_record_def pd_encode_did_document_def ta_build_signed_record_def ta_encode_did_document_def
      sort_copies build_signed_record_def encode_did_document_def assemble_record_def alg_field_def Let_def
      alg_bytes [unfolded alg_field_def Let_def] split: option.split)



end
