(* ===== verification/Script_Host.thy ===== *)
theory Script_Host
  imports Ledger Did_Document
begin

text \<open>
  What the programs under \<^verbatim>\<open>scripts\<close> and \<^verbatim>\<open>examples\<close> share: the process environment, numbers read from
  it, sleeping, and loops that retry an operation of the server. A result \<open>None\<close> is an operation
  that does not return.
\<close>

section \<open>The process\<close>

text \<open>
  The libraries, what happens on the network, the environment variables, the content of
  \<^verbatim>\<open>issuer.bin\<close>, the clock and the random bytes when a server is created, and whether a socket can be
  bound.
\<close>

record host =
  ho_doc :: doc_lib
  ho_net :: net_lib
  ho_env :: env
  ho_orders :: orders
  ho_var :: "rust_str \<Rightarrow> rust_str option"
  ho_issuer :: "bytes option"
  ho_now :: instant
  ho_secs :: nat
  ho_random :: bytes
  ho_bind :: "u16 \<Rightarrow> rust_str \<Rightarrow> bool"

datatype script_error =
    ParseIntError | BadBootstrapAddr | BadBootstrapPort | SignalError | Panicked

type_synonym 'a script_result = "(script_error + 'a) option"

definition script_bind :: "'a script_result \<Rightarrow> ('a \<Rightarrow> 'b script_result) \<Rightarrow> 'b script_result" where
  "script_bind r f = (case r of None \<Rightarrow> None | Some (Inl e) \<Rightarrow> Some (Inl e) | Some (Inr a) \<Rightarrow> f a)"

text \<open>\<open>str::parse\<close> for an unsigned type whose values are below \<open>bound\<close>.\<close>

definition parse_unsigned :: "nat \<Rightarrow> rust_str \<Rightarrow> nat option" where
  "parse_unsigned bound s =
     (let ds = (case s of c # r \<Rightarrow> if c = 43 then r else s | [] \<Rightarrow> []);
          v = foldl (\<lambda>acc d. acc * 10 + (d - 48)) 0 ds
      in if ds \<noteq> [] \<and> list_all is_digit ds \<and> v < bound then Some v else None)"

definition parse_u16 :: "rust_str \<Rightarrow> u16 option" where
  "parse_u16 s = map_option word_of_nat (parse_unsigned (2 ^ 16) s)"

definition var_or :: "host \<Rightarrow> string \<Rightarrow> string \<Rightarrow> rust_str" where
  "var_or ho name dflt = (case ho_var ho (str_lit name) of Some v \<Rightarrow> v | None \<Rightarrow> str_lit dflt)"

text \<open>\<open>env::var(name).ok().and_then(|s| s.parse().ok()).unwrap_or(dflt)\<close>.\<close>

definition var_number :: "host \<Rightarrow> nat \<Rightarrow> string \<Rightarrow> nat \<Rightarrow> nat" where
  "var_number ho bound name dflt =
     (case Option.bind (ho_var ho (str_lit name)) (parse_unsigned bound) of Some n \<Rightarrow> n | None \<Rightarrow> dflt)"

text \<open>While a program sleeps, anything may happen to a server that listens.\<close>

definition pause :: "host \<Rightarrow> server \<Rightarrow> server" where
  "pause ho s = (case sv_protocol s of None \<Rightarrow> s | Some p \<Rightarrow> s\<lparr>sv_protocol := Some (ev_wait (ho_env ho) p)\<rparr>)"

text \<open>\<open>for attempt in ... { if let Some(r) = op() { return } sleep }\<close>.\<close>

fun for_attempts ::
  "('s \<Rightarrow> ('r option \<times> 's) option) \<Rightarrow> ('s \<Rightarrow> 's) \<Rightarrow> nat list \<Rightarrow> 's \<Rightarrow> ((nat \<times> 'r) option \<times> 's) option" where
  "for_attempts op wait [] s = Some (None, s)"
| "for_attempts op wait (attempt # rest) s =
     (case op s of
        None \<Rightarrow> None
      | Some (Some r, s1) \<Rightarrow> Some (Some (attempt, r), s1)
      | Some (None, s1) \<Rightarrow> for_attempts op wait rest (wait s1))"

section \<open>Retrying\<close>

text \<open>
  An operation that always returns and keeps an invariant can be retried: the loop returns, keeps
  the invariant, and what it returns satisfies what every result of the operation satisfies.
\<close>

locale retried =
  fixes op :: "'s \<Rightarrow> ('r option \<times> 's) option" and wait :: "'s \<Rightarrow> 's"
    and sinv :: "'s \<Rightarrow> bool" and good :: "'r \<Rightarrow> bool"
  assumes op_returns: "sinv s \<Longrightarrow> \<exists>r s'. op s = Some (r, s') \<and> sinv s' \<and> (\<forall>x. r = Some x \<longrightarrow> good x)"
    and wait_keeps: "sinv s \<Longrightarrow> sinv (wait s)"
begin

lemma retry_returns:
  "sinv s \<Longrightarrow> \<exists>r s'. for_attempts op wait attempts s = Some (r, s') \<and> sinv s' \<and>
     (\<forall>i x. r = Some (i, x) \<longrightarrow> i \<in> set attempts \<and> good x)"
proof (induction attempts arbitrary: s)
  case (Cons i js)
  obtain r s1 where op: "op s = Some (r, s1)" "sinv s1" "\<forall>x. r = Some x \<longrightarrow> good x"
    using op_returns [OF Cons.prems] by blast
  show ?case
  proof (cases r)
    case None
    with op Cons.IH [OF wait_keeps [OF op(2)]] show ?thesis by force
  next
    case (Some x)
    with op show ?thesis by simp
  qed
qed simp

end

section \<open>What a server keeps while a program uses it\<close>

definition host_handler :: "host \<Rightarrow> sig_handler" where
  "host_handler ho = did_handler (ho_doc ho) (ho_issuer ho)"

definition host_ok :: "host \<Rightarrow> node \<Rightarrow> bool \<Rightarrow> bool" where
  "host_ok ho self cd \<longleftrightarrow>
     lib_ok (ho_net ho) \<and> orders_ok (ho_orders ho) \<and> calm (ho_net ho) (host_handler ho) self cd (ho_env ho)"

definition script_inv :: "host \<Rightarrow> node \<Rightarrow> bool \<Rightarrow> server \<Rightarrow> bool" where
  "script_inv ho self cd s \<longleftrightarrow> host_ok ho self cd \<and> sv_inv (ho_net ho) (host_handler ho) cd s \<and> sv_node s = self"

lemma script_invD:
  assumes "script_inv ho self cd s"
  shows "lib_ok (ho_net ho)" "orders_ok (ho_orders ho)" "calm (ho_net ho) (host_handler ho) (sv_node s) cd (ho_env ho)"
    "sv_inv (ho_net ho) (host_handler ho) cd s" "sv_node s = self" "host_ok ho self cd"
  using assms by (auto simp: script_inv_def host_ok_def)

lemma script_inv_next:
  "script_inv ho self cd s \<Longrightarrow> sv_next (ho_net ho) (host_handler ho) cd s s' \<Longrightarrow> script_inv ho self cd s'"
  by (simp add: script_inv_def sv_next_def)

lemma script_inv_pause: "script_inv ho self cd s \<Longrightarrow> script_inv ho self cd (pause ho s)"
  using sv_inv_protocol [of "ho_net ho" "host_handler ho" cd s]
  by (auto simp: script_inv_def host_ok_def pause_def calm_def dest: sv_invD(5) split: option.split)

lemma script_ops:
  assumes "script_inv ho self cd s"
  shows "\<exists>ns s'. bootstrap (ho_net ho) (ho_env ho) (ho_orders ho) addrs s = Some (ns, s') \<and> script_inv ho self cd s'"
    and "\<exists>r s'. sv_get (ho_net ho) (ho_env ho) (ho_orders ho) key s = Some (r, s') \<and> script_inv ho self cd s' \<and>
      (\<forall>v. r = Some v \<longrightarrow> verified (ho_net ho) (host_handler ho) cd key v)"
    and "\<exists>r s'. sv_set (ho_net ho) (ho_env ho) (ho_orders ho) key v s = Some (r, s') \<and> script_inv ho self cd s' \<and>
      (r \<noteq> None \<longrightarrow> verified (ho_net ho) (host_handler ho) cd key v)"
    and "script_inv ho self cd (stop (ho_net ho) (ho_env ho) s)"
  using bootstrap_runs [OF script_invD(2-4) [OF assms], of addrs] sv_get_runs [OF script_invD(1-4) [OF assms], of key]
    sv_set_runs [OF script_invD(1-4) [OF assms], of key v] stop_next [OF script_invD(3,4) [OF assms]]
    script_inv_next [OF assms] by blast+

text \<open>A server as every program creates it: no fixed identifier and no given store.\<close>

definition fresh_server :: "host \<Rightarrow> nat \<Rightarrow> nat \<Rightarrow> bool \<Rightarrow> server" where
  "fresh_server ho ksize alpha use_cache =
     server_new (nl_sha1 (ho_net ho)) (ho_random ho) (ho_now ho) (host_handler ho) ksize alpha None None use_cache"

lemma fresh_server_inv:
  "host_ok ho (sv_node (fresh_server ho ksize alpha cd)) cd \<Longrightarrow>
     script_inv ho (sv_node (fresh_server ho ksize alpha cd)) cd (snd (listen bind_ok secs (fresh_server ho ksize alpha cd)))"
proof -
  let ?s = "fresh_server ho ksize alpha cd"
  assume ok: "host_ok ho (sv_node ?s) cd"
  have "sv_inv (ho_net ho) (host_handler ho) cd ?s"
    using did_server_inv [of "ho_net ho" "ho_doc ho" "ho_issuer ho" cd "nl_sha1 (ho_net ho)" "ho_random ho" "ho_now ho" ksize alpha None None ?s] ok
    by (simp add: did_server_def fresh_server_def host_handler_def host_ok_def)
  with ok show ?thesis
    using listen_next [of "ho_net ho" "host_handler ho" cd ?s bind_ok secs] by (simp add: script_inv_def sv_next_def)
qed

end
