(* ===== verification/Dht_Node.thy ===== *)
theory Dht_Node
  imports Script_Host
begin

text \<open>
  \<^verbatim>\<open>scripts/dht_node.rs\<close>: the entry point of the containers, from reading the environment to the
  shutdown. Key pairs and the random UUID are arguments; log lines that end a role are the values
  of \<open>role_outcome\<close>.
\<close>

datatype role_outcome =
    Published nat "(bytes \<times> rust_str option) option"
  | PublishFailed
  | NoRetrieveKey
  | Retrieved nat bytes "rust_str option"
  | NotRetrieved

section \<open>Starting and joining\<close>

definition start_server :: "host \<Rightarrow> u16 \<Rightarrow> script_error + server" where
  "start_server ho port =
     (let server = fresh_server ho 20 3 True;
          (ok, server1) = listen (ho_bind ho port (str_lit ''0.0.0.0'')) (ho_secs ho) server
      in if ok then Inr server1 else Inl Panicked)"

definition bootstrap_attempt :: "host \<Rightarrow> rust_str \<Rightarrow> u16 \<Rightarrow> server \<Rightarrow> (node list option \<times> server) option" where
  "bootstrap_attempt ho ip port s =
     (case bootstrap (ho_net ho) (ho_env ho) (ho_orders ho) [(ip, port)] s of
        None \<Rightarrow> None
      | Some (discovered, s1) \<Rightarrow> Some (if discovered \<noteq> [] then Some discovered else None, s1))"

definition bootstrap_with_retries :: "host \<Rightarrow> rust_str \<Rightarrow> u16 \<Rightarrow> server \<Rightarrow> (bool \<times> server) option" where
  "bootstrap_with_retries ho ip port s =
     (let max_retries = 8
      in case for_attempts (bootstrap_attempt ho ip port) (pause ho) [1..<max_retries + 1] s of
           None \<Rightarrow> None
         | Some (found, s1) \<Rightarrow> Some (found \<noteq> None, s1))"

definition join_network :: "host \<Rightarrow> server \<Rightarrow> server script_result" where
  "join_network ho server =
     (if ho_var ho (str_lit ''IS_SEED'') \<noteq> None then Some (Inr (pause ho server))
      else
        (case ho_var ho (str_lit ''BOOTSTRAP_ADDR'') of
           None \<Rightarrow> Some (Inr server)
         | Some addr \<Rightarrow>
             (case splitn2_rest (of_char (CHR '':'')) addr of
                None \<Rightarrow> Some (Inl BadBootstrapAddr)
              | Some part1 \<Rightarrow>
                  let bip = split_first (of_char (CHR '':'')) addr
                  in (case parse_u16 part1 of
                        None \<Rightarrow> Some (Inl BadBootstrapPort)
                      | Some bport \<Rightarrow> map_option (Inr \<circ> snd) (bootstrap_with_retries ho bip bport (pause ho server))))))"

section \<open>The roles\<close>

definition publish_attempt :: "host \<Rightarrow> rust_str \<Rightarrow> bytes \<Rightarrow> server \<Rightarrow> (bytes option option \<times> server) option" where
  "publish_attempt ho dht_key signed_record s =
     (case sv_set (ho_net ho) (ho_env ho) (ho_orders ho) dht_key signed_record s of
        None \<Rightarrow> None
      | Some (Some True, s1) \<Rightarrow>
          (case sv_get (ho_net ho) (ho_env ho) (ho_orders ho) dht_key s1 of
             None \<Rightarrow> None
           | Some (retrieved, s2) \<Rightarrow> Some (Some retrieved, s2))
      | Some (Some False, s1) \<Rightarrow> Some (None, s1)
      | Some (None, s1) \<Rightarrow> Some (None, s1))"

definition run_publisher ::
  "host \<Rightarrow> rust_str \<Rightarrow> bytes \<times> bytes \<Rightarrow> bytes \<Rightarrow> server \<Rightarrow> (role_outcome \<times> server) script_result" where
  "run_publisher ho new_v4 dilithium_keys kpk server =
     (let uuid = (case ho_var ho (str_lit ''FIXED_DID_UUID'') of Some u \<Rightarrow> u | None \<Rightarrow> new_v4);
          did = str_lit ''did:iiot:'' @ uuid;
          dht_key = uuid;
          (dpk, dsk) = dilithium_keys;
          doc = build_did_document (ho_doc ho) did dpk kpk
      in case build_signed_record (ho_doc ho) doc dsk (str_lit ''Dilithium-2'') of
           None \<Rightarrow> Some (Inl Panicked)
         | Some signed_record \<Rightarrow>
             let max_attempts = 10
             in (case for_attempts (publish_attempt ho dht_key signed_record) (pause ho) [1..<max_attempts + 1] server of
                   None \<Rightarrow> None
                 | Some (Some (attempt, retrieved), s1) \<Rightarrow>
                     Some (Inr (Published attempt (map_option (\<lambda>r. (r, decode_record (ho_doc ho) r)) retrieved), s1))
                 | Some (None, s1) \<Rightarrow> Some (Inr (PublishFailed, s1))))"

definition run_retriever :: "host \<Rightarrow> server \<Rightarrow> (role_outcome \<times> server) script_result" where
  "run_retriever ho server =
     (case ho_var ho (str_lit ''RETRIEVE_KEY'') of
        None \<Rightarrow> Some (Inr (NoRetrieveKey, server))
      | Some key \<Rightarrow>
          let max_attempts = 10
          in (case for_attempts (sv_get (ho_net ho) (ho_env ho) (ho_orders ho) key) (pause ho) [1..<max_attempts + 1]
                  (pause ho server) of
                None \<Rightarrow> None
              | Some (Some (attempt, r), s1) \<Rightarrow> Some (Inr (Retrieved attempt r (decode_record (ho_doc ho) r), s1))
              | Some (None, s1) \<Rightarrow> Some (Inr (NotRetrieved, s1))))"

text \<open>\<open>signal_ok\<close> tells whether waiting for the interrupt succeeds.\<close>

definition run ::
  "host \<Rightarrow> bool \<Rightarrow> rust_str \<Rightarrow> bytes \<times> bytes \<Rightarrow> bytes \<Rightarrow> (role_outcome \<times> server) script_result" where
  "run ho signal_ok new_v4 dilithium_keys kpk =
     (case parse_u16 (var_or ho ''NODE_PORT'' ''5678'') of
        None \<Rightarrow> Some (Inl ParseIntError)
      | Some port \<Rightarrow>
          let role = var_or ho ''ROLE'' ''publisher''
          in (case start_server ho port of
                Inl e \<Rightarrow> Some (Inl e)
              | Inr server \<Rightarrow>
                  script_bind (join_network ho server) (\<lambda>server.
                  script_bind
                    (if role = str_lit ''retriever'' then run_retriever ho server
                     else run_publisher ho new_v4 dilithium_keys kpk server) (\<lambda>(outcome, server).
                  if \<not> signal_ok then Some (Inl SignalError)
                  else Some (Inr (outcome, stop (ho_net ho) (ho_env ho) (pause ho server)))))))"

section \<open>The loops return\<close>

lemma bootstrap_attempt_returns:
  "script_inv ho self cd s \<Longrightarrow> \<exists>r s'. bootstrap_attempt ho ip port s = Some (r, s') \<and> script_inv ho self cd s'"
  using script_ops(1) [of ho self cd s "[(ip, port)]"] by (auto simp: bootstrap_attempt_def)

lemma publish_attempt_returns:
  assumes "script_inv ho self cd s"
  shows "\<exists>r s'. publish_attempt ho key v s = Some (r, s') \<and> script_inv ho self cd s' \<and>
    (\<forall>x. r = Some x \<longrightarrow> verified (ho_net ho) (host_handler ho) cd key v \<and>
       (\<forall>w. x = Some w \<longrightarrow> verified (ho_net ho) (host_handler ho) cd key w))"
proof -
  obtain r s1 where set: "sv_set (ho_net ho) (ho_env ho) (ho_orders ho) key v s = Some (r, s1)" "script_inv ho self cd s1"
    "r \<noteq> None \<longrightarrow> verified (ho_net ho) (host_handler ho) cd key v"
    using script_ops(3) [OF assms] by blast
  obtain g s2 where get: "sv_get (ho_net ho) (ho_env ho) (ho_orders ho) key s1 = Some (g, s2)" "script_inv ho self cd s2"
    "\<forall>w. g = Some w \<longrightarrow> verified (ho_net ho) (host_handler ho) cd key w"
    using script_ops(2) [OF set(2)] by blast
  show ?thesis using set get by (cases r rule: option.exhaust; simp add: publish_attempt_def split: bool.split)
qed

interpretation joining: retried "bootstrap_attempt ho ip port" "pause ho" "script_inv ho self cd" "\<lambda>_. True" for ho ip port self cd
  by unfold_locales (use bootstrap_attempt_returns script_inv_pause in blast)+

interpretation publishing: retried "publish_attempt ho key v" "pause ho" "script_inv ho self cd"
  "\<lambda>x. verified (ho_net ho) (host_handler ho) cd key v \<and> (\<forall>w. x = Some w \<longrightarrow> verified (ho_net ho) (host_handler ho) cd key w)"
  for ho key v self cd
  by unfold_locales (use publish_attempt_returns script_inv_pause in blast)+

interpretation retrieving: retried "sv_get (ho_net ho) (ho_env ho) (ho_orders ho) key" "pause ho" "script_inv ho self cd"
  "verified (ho_net ho) (host_handler ho) cd key" for ho key self cd
  by unfold_locales (use script_ops(2) script_inv_pause in blast)+

lemma bootstrap_with_retries_returns:
  assumes "script_inv ho self cd s"
  shows "\<exists>b s'. bootstrap_with_retries ho ip port s = Some (b, s') \<and> script_inv ho self cd s'"
proof -
  obtain r s' where r: "for_attempts (bootstrap_attempt ho ip port) (pause ho) [1..<8 + 1] s = Some (r, s')" "script_inv ho self cd s'"
    using joining.retry_returns [OF assms] by blast
  then show ?thesis unfolding bootstrap_with_retries_def Let_def by simp
qed

lemma join_network_outcome:
  assumes "script_inv ho self cd s"
  shows "\<exists>r. join_network ho s = Some r \<and>
    (case r of
       Inr s' \<Rightarrow> script_inv ho self cd s'
     | Inl e \<Rightarrow> ho_var ho (str_lit ''IS_SEED'') = None \<and>
         (\<exists>addr. ho_var ho (str_lit ''BOOTSTRAP_ADDR'') = Some addr \<and>
            (case splitn2_rest (of_char (CHR '':'')) addr of
               None \<Rightarrow> e = BadBootstrapAddr
             | Some port \<Rightarrow> parse_u16 port = None \<and> e = BadBootstrapPort)))"
  using bootstrap_with_retries_returns [OF script_inv_pause [OF assms]] script_inv_pause [OF assms] assms
  by (auto simp: join_network_def Let_def split: option.splits) fastforce+

definition role_ok :: "host \<Rightarrow> rust_str \<Rightarrow> role_outcome \<Rightarrow> bool" where
  "role_ok ho uuid outcome \<longleftrightarrow>
     (case outcome of
        Published i x \<Rightarrow> 1 \<le> i \<and> i \<le> 10 \<and>
          (\<forall>v pretty. x = Some (v, pretty) \<longrightarrow> verified (ho_net ho) (host_handler ho) True uuid v)
      | PublishFailed \<Rightarrow> True
      | NoRetrieveKey \<Rightarrow> ho_var ho (str_lit ''RETRIEVE_KEY'') = None
      | Retrieved i v pretty \<Rightarrow> 1 \<le> i \<and> i \<le> 10 \<and>
          (\<exists>key. ho_var ho (str_lit ''RETRIEVE_KEY'') = Some key \<and> verified (ho_net ho) (host_handler ho) True key v)
      | NotRetrieved \<Rightarrow> True)"

lemma run_retriever_outcome:
  assumes "script_inv ho self True s"
  shows "\<exists>outcome s'. run_retriever ho s = Some (Inr (outcome, s')) \<and> script_inv ho self True s' \<and> role_ok ho uuid outcome"
proof (cases "ho_var ho (str_lit ''RETRIEVE_KEY'')")
  case None
  with assms show ?thesis by (simp add: run_retriever_def role_ok_def)
next
  case (Some key)
  obtain r s' where r: "for_attempts (sv_get (ho_net ho) (ho_env ho) (ho_orders ho) key) (pause ho) [1..<10 + 1] (pause ho s) = Some (r, s')"
    "script_inv ho self True s'" "\<forall>i v. r = Some (i, v) \<longrightarrow> i \<in> set [1..<10 + 1] \<and> verified (ho_net ho) (host_handler ho) True key v"
    using retrieving.retry_returns [OF script_inv_pause [OF assms]] by blast
  then show ?thesis
    unfolding run_retriever_def Let_def using Some by (cases r) (auto simp: role_ok_def simp del: upt_Suc)
qed

lemma run_publisher_outcome:
  assumes "script_inv ho self True s" and "uuid = (case ho_var ho (str_lit ''FIXED_DID_UUID'') of Some u \<Rightarrow> u | None \<Rightarrow> new_v4)"
  shows "\<exists>r. run_publisher ho new_v4 (dpk, dsk) kpk s = Some r \<and>
    (case build_signed_record (ho_doc ho) (build_did_document (ho_doc ho) (str_lit ''did:iiot:'' @ uuid) dpk kpk) dsk (str_lit ''Dilithium-2'') of
       None \<Rightarrow> r = Inl Panicked
     | Some v \<Rightarrow> \<exists>outcome s'. r = Inr (outcome, s') \<and> script_inv ho self True s' \<and> role_ok ho uuid outcome)"
proof (cases "build_signed_record (ho_doc ho) (build_did_document (ho_doc ho) (str_lit ''did:iiot:'' @ uuid) dpk kpk) dsk (str_lit ''Dilithium-2'')")
  case None
  then show ?thesis by (simp add: run_publisher_def assms(2) [symmetric])
next
  case (Some v)
  obtain r s' where r: "for_attempts (publish_attempt ho uuid v) (pause ho) [1..<10 + 1] s = Some (r, s')"
    "script_inv ho self True s'"
    "\<forall>i x. r = Some (i, x) \<longrightarrow> i \<in> set [1..<10 + 1] \<and> verified (ho_net ho) (host_handler ho) True uuid v \<and>
       (\<forall>w. x = Some w \<longrightarrow> verified (ho_net ho) (host_handler ho) True uuid w)"
    using publishing.retry_returns [OF assms(1)] by blast
  then show ?thesis
    unfolding run_publisher_def Let_def assms(2) [symmetric]
    using Some by (cases r) (auto simp: role_ok_def simp del: upt_Suc)
qed

text \<open>When the program fails, and in which state it ends otherwise.\<close>

definition run_error :: "host \<Rightarrow> bool \<Rightarrow> script_error \<Rightarrow> bool" where
  "run_error ho signal_ok e \<longleftrightarrow>
     (case e of
        ParseIntError \<Rightarrow> parse_u16 (var_or ho ''NODE_PORT'' ''5678'') = None
      | BadBootstrapAddr \<Rightarrow> ho_var ho (str_lit ''IS_SEED'') = None \<and>
          (\<exists>addr. ho_var ho (str_lit ''BOOTSTRAP_ADDR'') = Some addr \<and> of_char (CHR '':'') \<notin> set addr)
      | BadBootstrapPort \<Rightarrow> ho_var ho (str_lit ''IS_SEED'') = None \<and>
          (\<exists>addr port. ho_var ho (str_lit ''BOOTSTRAP_ADDR'') = Some addr \<and>
             splitn2_rest (of_char (CHR '':'')) addr = Some port \<and> parse_u16 port = None)
      | SignalError \<Rightarrow> \<not> signal_ok
      | Panicked \<Rightarrow>
          (\<exists>port. parse_u16 (var_or ho ''NODE_PORT'' ''5678'') = Some port \<and> \<not> ho_bind ho port (str_lit ''0.0.0.0'')) \<or>
          (\<exists>doc. encode_did_document (ho_doc ho) doc = None))"

definition run_end :: "host \<Rightarrow> bool \<Rightarrow> rust_str \<Rightarrow> role_outcome \<Rightarrow> server \<Rightarrow> bool" where
  "run_end ho signal_ok new_v4 outcome s \<longleftrightarrow>
     signal_ok \<and> \<not> sv_refresh_loop s \<and>
     fs.keeps (\<lambda>_. accepted (ho_net ho) (host_handler ho) True) (sv_store s) \<and>
     role_ok ho (case ho_var ho (str_lit ''FIXED_DID_UUID'') of Some u \<Rightarrow> u | None \<Rightarrow> new_v4) outcome"

lemma run_joined:
  assumes "parse_u16 (var_or ho ''NODE_PORT'' ''5678'') = Some port" and "start_server ho port = Inr s0"
    and "join_network ho s0 = Some (Inr s1)" and s1: "script_inv ho self True s1"
  shows "\<exists>r. run ho signal_ok new_v4 (dpk, dsk) kpk = Some r \<and>
    (case r of Inl e \<Rightarrow> run_error ho signal_ok e | Inr (outcome, s) \<Rightarrow> run_end ho signal_ok new_v4 outcome s)"
proof -
  let ?uuid = "case ho_var ho (str_lit ''FIXED_DID_UUID'') of Some u \<Rightarrow> u | None \<Rightarrow> new_v4"
  define role where "role = (if var_or ho ''ROLE'' ''publisher'' = str_lit ''retriever'' then run_retriever ho s1
     else run_publisher ho new_v4 (dpk, dsk) kpk s1)"
  have run: "run ho signal_ok new_v4 (dpk, dsk) kpk = script_bind role (\<lambda>(outcome, server).
      if \<not> signal_ok then Some (Inl SignalError)
      else Some (Inr (outcome, stop (ho_net ho) (ho_env ho) (pause ho server))))"
    using assms(1-3) by (simp add: run_def Let_def role_def script_bind_def [of "Some (Inr s1)"])
  have "(\<exists>outcome s2. role = Some (Inr (outcome, s2)) \<and> script_inv ho self True s2 \<and> role_ok ho ?uuid outcome) \<or>
      role = Some (Inl Panicked) \<and> (\<exists>doc. encode_did_document (ho_doc ho) doc = None)"
    using run_retriever_outcome [OF s1, of ?uuid] run_publisher_outcome [OF s1 refl, of new_v4 dpk dsk kpk]
    by (auto simp: role_def build_signed_record_def split: option.splits)
  then show ?thesis
  proof (elim disjE exE conjE)
    fix outcome s2 assume r: "role = Some (Inr (outcome, s2))" "script_inv ho self True s2" "role_ok ho ?uuid outcome"
    have "script_inv ho self True (stop (ho_net ho) (ho_env ho) (pause ho s2))"
      by (rule script_ops(4) [OF script_inv_pause [OF r(2)]])
    moreover have "\<not> sv_refresh_loop (stop (ho_net ho) (ho_env ho) (pause ho s2))" by (simp add: stop_def Let_def)
    ultimately show ?thesis
      using r(1,3) sv_invD(2) [OF script_invD(4)] by (simp add: run script_bind_def run_error_def run_end_def)
  qed (auto simp: run script_bind_def run_error_def)
qed

section \<open>Properties of the node program\<close>


text \<open>A container whose only peer never answers.\<close>

definition demo_host :: host where
  "demo_host = \<lparr>ho_doc = stamp_lib stamp_doc, ho_net = demo_lib, ho_env = plain_env, ho_orders = plain_orders,
     ho_var = (\<lambda>_. None), ho_issuer = None, ho_now = 0, ho_secs = 0, ho_random = demo_key, ho_bind = (\<lambda>_ _. True)\<rparr>"

lemma demo_host_ok: "host_ok demo_host self cd"
  by (simp add: host_ok_def demo_host_def demo_lib_ok plain_orders_ok plain_calm)


end
