(* ===== verification/Publish_Example.thy ===== *)
theory Publish_Example
  imports Dht_Node
begin

text \<open>
  \<^verbatim>\<open>examples/publish_did.rs\<close>: two nodes in one process, one publishes a DID document and the other
  retrieves it. While one node operates, anything may happen to the other. The length of a
  Dilithium-2 signature, which the crate announces, is the argument \<open>signature_bytes\<close>.
\<close>

datatype example_outcome = NotPublished | NotFound | Found bytes "json_value option"

definition pd_start_node :: "host \<Rightarrow> u16 \<Rightarrow> script_error + server" where
  "pd_start_node ho port =
     (let server = fresh_server ho 20 3 True;
          (ok, server1) = listen (ho_bind ho port (str_lit ''127.0.0.1'')) (ho_secs ho) server
      in if ok then Inr server1 else Inl Panicked)"

text \<open>Joining: a second call when the first found nobody, and a third one later.\<close>

definition pd_bootstrap :: "host \<Rightarrow> server \<Rightarrow> (node list \<times> server) option" where
  "pd_bootstrap ho node_2 =
     bootstrap (ho_net ho) (ho_env ho) (ho_orders ho) [(str_lit ''127.0.0.1'', 5678)] node_2"

definition pd_join :: "host \<Rightarrow> server \<Rightarrow> server option" where
  "pd_join ho node_2 =
     (case pd_bootstrap ho node_2 of
        None \<Rightarrow> None
      | Some (discovered, s1) \<Rightarrow>
          (case (if discovered = [] then pd_bootstrap ho s1 else Some (discovered, s1)) of
             None \<Rightarrow> None
           | Some (_, s2) \<Rightarrow>
               (case pd_bootstrap ho (pause ho s2) of
                  None \<Rightarrow> None
                | Some (_, s3) \<Rightarrow> Some (pause ho s3))))"

definition pd_set_attempt :: "host \<Rightarrow> rust_str \<Rightarrow> bytes \<Rightarrow> server \<Rightarrow> (unit option \<times> server) option" where
  "pd_set_attempt ho dht_key signed_record node_2 =
     (case sv_set (ho_net ho) (ho_env ho) (ho_orders ho) dht_key signed_record node_2 of
        None \<Rightarrow> None
      | Some (success, s1) \<Rightarrow> Some (if success = Some True then Some () else None, s1))"

text \<open>What is printed of the record that was found; slicing out of range panics, as does \<open>unwrap\<close>.\<close>

definition pd_show :: "host \<Rightarrow> nat \<Rightarrow> bytes \<Rightarrow> script_error + example_outcome" where
  "pd_show ho signature_bytes r =
     (let doc_start = 12 + signature_bytes
      in if length r < 12 \<or> length r < doc_start then Inl Panicked
         else
           (case json_from_slice (ho_doc ho) (drop doc_start r) of
              None \<Rightarrow> Inr (Found r None)
            | Some doc \<Rightarrow>
                if json_to_string_pretty (ho_doc ho) doc = None then Inl Panicked
                else Inr (Found r (Some doc))))"

definition pd_run ::
  "host \<Rightarrow> bytes \<Rightarrow> nat \<Rightarrow> rust_str \<Rightarrow> bytes \<times> bytes \<Rightarrow> bytes \<Rightarrow> (example_outcome \<times> server \<times> server) script_result" where
  "pd_run ho random_2 signature_bytes new_v4 dilithium_keys kyber_pk =
     script_bind (Some (pd_start_node ho 5678)) (\<lambda>node_1.
     script_bind (Some (pd_start_node (ho\<lparr>ho_random := random_2\<rparr>) 5679)) (\<lambda>node_2.
     case pd_join ho node_2 of
       None \<Rightarrow> None
     | Some node_2 \<Rightarrow>
         let (dilithium_pk, dilithium_sk) = dilithium_keys;
             did = generate_did_iiot new_v4;
             did_doc = pd_build_did_document (ho_doc ho) did dilithium_pk kyber_pk;
             dht_key = split_next_back (of_char (CHR '':'')) did
         in (case pd_build_signed_record (ho_doc ho) did_doc dilithium_sk (str_lit ''Dilithium-2'') of
               None \<Rightarrow> Some (Inl Panicked)
             | Some signed_record \<Rightarrow>
                 (case for_attempts (pd_set_attempt ho dht_key signed_record) (pause ho) [0..<10] node_2 of
                    None \<Rightarrow> None
                  | Some (None, node_2) \<Rightarrow> Some (Inr (NotPublished, pause ho node_1, node_2))
                  | Some (Some _, node_2) \<Rightarrow>
                      (case sv_get (ho_net ho) (ho_env ho) (ho_orders ho) dht_key (pause ho node_1) of
                         None \<Rightarrow> None
                       | Some (None, node_1) \<Rightarrow> Some (Inr (NotFound, node_1, pause ho node_2))
                       | Some (Some r, node_1) \<Rightarrow>
                           (case pd_show ho signature_bytes r of
                              Inl e \<Rightarrow> Some (Inl e)
                            | Inr outcome \<Rightarrow> Some (Inr (outcome, node_1, pause ho node_2))))))))"

section \<open>The example returns\<close>

lemma pd_join_returns:
  assumes "script_inv ho self cd s"
  shows "\<exists>s'. pd_join ho s = Some s' \<and> script_inv ho self cd s'"
proof -
  have b: "\<exists>ns s'. pd_bootstrap ho q = Some (ns, s') \<and> script_inv ho self cd s'" if "script_inv ho self cd q" for q
    unfolding pd_bootstrap_def by (rule script_ops(1) [OF that])
  obtain ns s1 where 1: "pd_bootstrap ho s = Some (ns, s1)" "script_inv ho self cd s1" using b [OF assms] by blast
  obtain ms s2 where 2: "(if ns = [] then pd_bootstrap ho s1 else Some (ns, s1)) = Some (ms, s2)" "script_inv ho self cd s2"
    using b [OF 1(2)] 1(2) by (cases "ns = []") auto
  obtain ks s3 where 3: "pd_bootstrap ho (pause ho s2) = Some (ks, s3)" "script_inv ho self cd s3"
    using b [OF script_inv_pause [OF 2(2)]] by blast
  show ?thesis using 1(1) 2(1) 3 script_inv_pause [OF 3(2)] by (simp add: pd_join_def)
qed

lemma pd_set_attempt_returns:
  assumes "script_inv ho self cd s"
  shows "\<exists>r s'. pd_set_attempt ho key v s = Some (r, s') \<and> script_inv ho self cd s' \<and>
    (\<forall>x. r = Some x \<longrightarrow> verified (ho_net ho) (host_handler ho) cd key v)"
  using script_ops(3) [OF assms, of key v] by (auto simp: pd_set_attempt_def)

interpretation example_set: retried "pd_set_attempt ho key v" "pause ho" "script_inv ho self cd"
  "\<lambda>_. verified (ho_net ho) (host_handler ho) cd key v" for ho key v self cd
  by unfold_locales (use pd_set_attempt_returns script_inv_pause in blast)+

lemma pd_start_node_inv:
  assumes "host_ok ho (sv_node (fresh_server ho 20 3 True)) True" and "pd_start_node ho port = Inr s"
  shows "script_inv ho (sv_node (fresh_server ho 20 3 True)) True s"
proof -
  have "s = snd (listen (ho_bind ho port (str_lit ''127.0.0.1'')) (ho_secs ho) (fresh_server ho 20 3 True))"
    using assms(2) by (auto simp: pd_start_node_def Let_def split: prod.splits if_splits)
  then show ?thesis using fresh_server_inv [OF assms(1)] by simp
qed

lemma script_inv_random [simp]: "script_inv (ho\<lparr>ho_random := x\<rparr>) self cd s = script_inv ho self cd s"
  by (simp add: script_inv_def host_ok_def host_handler_def)

section \<open>Properties of the example\<close>

text \<open>
  The example always reaches its end with both nodes in order. It panics only when a port is
  taken, when the document cannot be serialised, or when the record it finds is shorter than a
  Dilithium-2 record or cannot be printed; what it shows as found was verified.
\<close>

theorem publish_example_outcome:
  assumes "host_ok ho (sv_node (fresh_server ho 20 3 True)) True"
    and "host_ok (ho\<lparr>ho_random := random_2\<rparr>) (sv_node (fresh_server (ho\<lparr>ho_random := random_2\<rparr>) 20 3 True)) True"
  shows "\<exists>r. pd_run ho random_2 signature_bytes new_v4 (dpk, dsk) kpk = Some r \<and>
    (case r of
       Inl e \<Rightarrow> e = Panicked \<and>
         (\<not> ho_bind ho 5678 (str_lit ''127.0.0.1'') \<or> \<not> ho_bind ho 5679 (str_lit ''127.0.0.1'') \<or>
          (\<exists>doc. pd_encode_did_document (ho_doc ho) doc = None) \<or>
          (\<exists>key v. verified (ho_net ho) (host_handler ho) True key v \<and> pd_show ho signature_bytes v = Inl Panicked))
     | Inr (outcome, n1, n2) \<Rightarrow>
         script_inv ho (sv_node (fresh_server ho 20 3 True)) True n1 \<and>
         script_inv ho (sv_node (fresh_server (ho\<lparr>ho_random := random_2\<rparr>) 20 3 True)) True n2 \<and>
         (\<forall>v doc. outcome = Found v doc \<longrightarrow> 12 + signature_bytes \<le> length v \<and>
            verified (ho_net ho) (host_handler ho) True (split_next_back (of_char (CHR '':'')) (generate_did_iiot new_v4)) v))"
proof (cases "ho_bind ho 5678 (str_lit ''127.0.0.1'') \<and> ho_bind ho 5679 (str_lit ''127.0.0.1'')")
  case False
  then show ?thesis by (auto simp: pd_run_def script_bind_def pd_start_node_def listen_def Let_def)
next
  case True
  let ?ho2 = "ho\<lparr>ho_random := random_2\<rparr>"
  let ?self1 = "sv_node (fresh_server ho 20 3 True)" and ?self2 = "sv_node (fresh_server ?ho2 20 3 True)"
  let ?key = "split_next_back (of_char (CHR '':'')) (generate_did_iiot new_v4)"
  obtain n1 n2 where start: "pd_start_node ho 5678 = Inr n1" "pd_start_node ?ho2 5679 = Inr n2"
    using True by (simp add: pd_start_node_def listen_def Let_def)
  have n1: "script_inv ho ?self1 True (pause ho n1)" "script_inv ho ?self2 True n2"
    using pd_start_node_inv [OF assms(1) start(1)] pd_start_node_inv [OF assms(2) start(2)] script_inv_pause by simp_all
  obtain n3 where join: "pd_join ho n2 = Some n3" "script_inv ho ?self2 True n3" using pd_join_returns [OF n1(2)] by blast
  let ?rec = "pd_build_signed_record (ho_doc ho) (pd_build_did_document (ho_doc ho) (generate_did_iiot new_v4) dpk kpk) dsk (str_lit ''Dilithium-2'')"
  show ?thesis
  proof (cases ?rec)
    case None
    then have "\<exists>doc. pd_encode_did_document (ho_doc ho) doc = None"
      by (auto simp: pd_build_signed_record_def Let_def split: option.splits)
    with None start join(1) show ?thesis by (simp add: pd_run_def script_bind_def Let_def)
  next
    case (Some v)
    obtain r n4 where set: "for_attempts (pd_set_attempt ho ?key v) (pause ho) [0..<10] n3 = Some (r, n4)" "script_inv ho ?self2 True n4"
      using example_set.retry_returns [OF join(2)] by blast
    obtain g n5 where get: "sv_get (ho_net ho) (ho_env ho) (ho_orders ho) ?key (pause ho n1) = Some (g, n5)"
      "script_inv ho ?self1 True n5" "\<forall>w. g = Some w \<longrightarrow> verified (ho_net ho) (host_handler ho) True ?key w"
      using script_ops(2) [OF n1(1)] by blast
    have run: "pd_run ho random_2 signature_bytes new_v4 (dpk, dsk) kpk =
      (case r of
         None \<Rightarrow> Some (Inr (NotPublished, pause ho n1, n4))
       | Some _ \<Rightarrow>
           (case g of
              None \<Rightarrow> Some (Inr (NotFound, n5, pause ho n4))
            | Some w \<Rightarrow>
                (case pd_show ho signature_bytes w of
                   Inl e \<Rightarrow> Some (Inl e)
                 | Inr outcome \<Rightarrow> Some (Inr (outcome, n5, pause ho n4)))))"
      using start join(1) Some set(1) get(1)
      unfolding pd_run_def script_bind_def Let_def by (simp split: option.split del: upt_Suc upt_conv_Cons)
    have show_w: "pd_show ho signature_bytes w = Inl Panicked \<or>
        (\<exists>doc. pd_show ho signature_bytes w = Inr (Found w doc) \<and> 12 + signature_bytes \<le> length w)" for w
      by (auto simp: pd_show_def Let_def split: option.split)
    show ?thesis
      unfolding run using n1(1) set(2) get(2,3) script_inv_pause [OF set(2)] show_w [of "the g"]
      by (cases r; cases g) auto
  qed
qed

end
