(* ===== verification/Resilience.thy ===== *)
theory Resilience
  imports Dht_Node
begin

text \<open>
  The resilience test: \<^verbatim>\<open>scripts/resilience_attacker.rs\<close> floods a node with valid and tampered records
  and reads them back, \<^verbatim>\<open>scripts/resilience_victim.rs\<close> is the node under load. A set of concurrent
  tasks is the list of those that are in flight; which one finishes next, whether it came too late
  or panicked, and its latency are decided by \<open>tasks\<close>. An abandoned call leaves whatever may happen
  while one waits. Latencies are collected; the floating-point summary of them is not modelled.
\<close>

record 's tasks =
  tk_next :: "'s \<Rightarrow> nat"
  tk_panics :: "'s \<Rightarrow> bool"
  tk_late :: "'s \<Rightarrow> bool"
  tk_elapsed :: "'s \<Rightarrow> nat"

section \<open>Bounded concurrency\<close>

text \<open>\<open>while jset.len() < concurrency { match iter.next() ... }\<close>.\<close>

fun fill_jset :: "nat \<Rightarrow> 'a list \<Rightarrow> 'a list \<Rightarrow> 'a list \<times> 'a list" where
  "fill_jset concurrency jset [] = (jset, [])"
| "fill_jset concurrency jset (x # it) =
     (if length jset < concurrency then fill_jset concurrency (jset @ [x]) it else (jset, x # it))"

text \<open>\<open>join_next\<close>: one of the tasks in flight, and the others.\<close>

definition join_next :: "'s tasks \<Rightarrow> 's \<Rightarrow> 'a list \<Rightarrow> 'a \<times> 'a list" where
  "join_next tk s jset = (let i = tk_next tk s mod length jset in (jset ! i, remove_at i jset))"

lemma fill_jset_eq: "fill_jset n jset it = (jset @ take (n - length jset) it, drop (n - length jset) it)"
proof (induction n jset it rule: fill_jset.induct)
  case (2 n jset x it)
  show ?case
  proof (cases "length jset < n")
    case True
    then have "n - length jset = Suc (n - Suc (length jset))" by simp
    with 2 True show ?thesis by simp
  qed simp
qed simp

lemma mset_join_next:
  assumes "jset \<noteq> []" and "join_next tk s jset = (x, rest)"
  shows "mset jset = add_mset x (mset rest)"
proof -
  let ?i = "tk_next tk s mod length jset"
  have i: "?i < length jset" using assms(1) by simp
  have "jset = take ?i jset @ jset ! ?i # drop (Suc ?i) jset" by (rule id_take_nth_drop [OF i])
  then have "mset jset = add_mset (jset ! ?i) (mset (take ?i jset) + mset (drop (Suc ?i) jset))"
    by (metis mset.simps(2) mset_append union_mset_add_mset_right)
  then show ?thesis using assms(2) by (auto simp: join_next_def Let_def remove_at_def)
qed

text \<open>
  The loop of both phases: fill the set of tasks, stop when it is empty, otherwise take the result
  \<open>task\<close> of the next one and tally it.
\<close>

function join_loop ::
  "('a \<Rightarrow> 's \<Rightarrow> 'r \<times> 's) \<Rightarrow> ('r \<Rightarrow> 'c \<Rightarrow> 'c) \<Rightarrow> 's tasks \<Rightarrow> nat \<Rightarrow> 'a list \<Rightarrow> 'a list \<Rightarrow> 'c \<Rightarrow> 's \<Rightarrow> 'c \<times> 's" where
  "join_loop task tally tk concurrency jset it c s =
     (let (jset1, it1) = fill_jset concurrency jset it
      in if jset1 = [] then (c, s)
         else
           let (x, jset2) = join_next tk s jset1;
               (res, s1) = task x s
           in join_loop task tally tk concurrency jset2 it1 (tally res c) s1)"
  by pat_completeness auto

termination join_loop
proof (relation "measure (\<lambda>(_, _, _, _, jset, it, _, _). length jset + length it)", goal_cases)
  case (2 task tally tk n jset it c s xy jset1 it1 z x jset2 w res s1)
  then have "size (mset jset1) = Suc (size (mset jset2))" using mset_join_next [of jset1 tk s x jset2] by simp
  moreover have "length jset1 + length it1 = length jset + length it" using 2 by (auto simp: fill_jset_eq)
  ultimately show ?case by simp
qed simp

declare join_loop.simps [simp del]

text \<open>The same tasks one after the other.\<close>

fun run_tasks :: "('a \<Rightarrow> 's \<Rightarrow> 'r \<times> 's) \<Rightarrow> ('r \<Rightarrow> 'c \<Rightarrow> 'c) \<Rightarrow> 'a list \<Rightarrow> 'c \<Rightarrow> 's \<Rightarrow> 'c \<times> 's" where
  "run_tasks task tally [] c s = (c, s)"
| "run_tasks task tally (x # xs) c s = (let (res, s1) = task x s in run_tasks task tally xs (tally res c) s1)"

lemma join_loop_order:
  "0 < n \<Longrightarrow> \<exists>order. mset order = mset jset + mset it \<and>
     join_loop task tally tk n jset it c s = run_tasks task tally order c s"
proof (induction task tally tk n jset it c s rule: join_loop.induct)
  case (1 task tally tk n jset it c s)
  obtain jset1 it1 where f: "fill_jset n jset it = (jset1, it1)" by fastforce
  then have all: "mset jset1 + mset it1 = mset jset + mset it"
    by (auto simp: fill_jset_eq) (metis append_take_drop_id mset_append)
  show ?case
  proof (cases "jset1 = []")
    case True
    then have "jset = []" "it = []" using f 1(2) by (auto simp: fill_jset_eq)
    then show ?thesis by (simp add: join_loop.simps)
  next
    case False
    obtain x jset2 where j: "join_next tk s jset1 = (x, jset2)" by fastforce
    obtain res s1 where t: "task x s = (res, s1)" by fastforce
    obtain order where o: "mset order = mset jset2 + mset it1"
      "join_loop task tally tk n jset2 it1 (tally res c) s1 = run_tasks task tally order (tally res c) s1"
      using 1(1) [OF f [symmetric] refl False j [symmetric] refl t [symmetric] refl 1(2)] by blast
    have "mset (x # order) = mset jset + mset it"
      using o(1) mset_join_next [OF False j] all by simp
    moreover have "join_loop task tally tk n jset it c s = run_tasks task tally (x # order) c s"
      using f False j t o(2) by (subst join_loop.simps) simp
    ultimately show ?thesis by blast
  qed
qed

lemma join_loop_idle: "join_loop task tally tk 0 [] it c s = (c, s)"
  by (subst join_loop.simps) (simp add: fill_jset_eq)

section \<open>The store phase of the attacker\<close>

definition latency_push :: "nat \<Rightarrow> nat list \<Rightarrow> nat list" where
  "latency_push d samples = samples @ [d]"

record store_counts =
  sc_accepted :: nat
  sc_rejected :: nat
  sc_timed_out :: nat
  sc_accepted_keys :: "rust_str list"
  sc_latency :: "nat list"

text \<open>The task of one record: whether it timed out, whether the record was accepted, the key and the latency.\<close>

definition store_task ::
  "net_lib \<Rightarrow> env \<Rightarrow> protocol tasks \<Rightarrow> node \<Rightarrow> rust_str \<times> bytes \<Rightarrow> protocol \<Rightarrow>
   (bool \<times> bool \<times> rust_str \<times> nat) option \<times> protocol" where
  "store_task lib ev tk victim kr p =
     (let (k, r) = kr;
          dkey = digest (nl_sha1 lib) k
      in if tk_panics tk p then (None, ev_wait ev p)
         else if tk_late tk p then (Some (True, False, k, tk_elapsed tk p), ev_wait ev p)
         else
           let (ok, p1) = call_store_rpc lib ev victim dkey r p
           in (Some (False, ok, k, tk_elapsed tk p), p1))"

definition count_store :: "(bool \<times> bool \<times> rust_str \<times> nat) option \<Rightarrow> store_counts \<Rightarrow> store_counts" where
  "count_store res c =
     (case res of
        Some (is_timeout, ok, key, dt) \<Rightarrow>
          let c1 = c\<lparr>sc_latency := latency_push dt (sc_latency c)\<rparr>
          in if is_timeout then c1\<lparr>sc_timed_out := sc_timed_out c1 + 1\<rparr>
             else if ok then c1\<lparr>sc_accepted := sc_accepted c1 + 1, sc_accepted_keys := sc_accepted_keys c1 @ [key]\<rparr>
             else c1\<lparr>sc_rejected := sc_rejected c1 + 1\<rparr>
      | None \<Rightarrow> c\<lparr>sc_timed_out := sc_timed_out c + 1\<rparr>)"

definition store_phase ::
  "net_lib \<Rightarrow> env \<Rightarrow> protocol tasks \<Rightarrow> node \<Rightarrow> (rust_str \<times> bytes) list \<Rightarrow> nat \<Rightarrow> protocol \<Rightarrow> store_counts \<times> protocol" where
  "store_phase lib ev tk victim pool concurrency p =
     join_loop (store_task lib ev tk victim) count_store tk concurrency [] pool
       \<lparr>sc_accepted = 0, sc_rejected = 0, sc_timed_out = 0, sc_accepted_keys = [], sc_latency = []\<rparr> p"

section \<open>The get phase of the attacker\<close>

record get_counts =
  gc_hits :: nat
  gc_misses :: nat
  gc_timed_out :: nat
  gc_latency :: "nat list"

definition get_task ::
  "net_lib \<Rightarrow> env \<Rightarrow> orders \<Rightarrow> server tasks \<Rightarrow> rust_str \<Rightarrow> server \<Rightarrow> (bool \<times> nat) option \<times> server" where
  "get_task lib ev od tk key s =
     (let waited = (case sv_protocol s of None \<Rightarrow> s | Some p \<Rightarrow> s\<lparr>sv_protocol := Some (ev_wait ev p)\<rparr>)
      in if tk_panics tk s then (None, waited)
         else if tk_late tk s then (Some (False, tk_elapsed tk s), waited)
         else
           (case sv_get lib ev od key s of
              None \<Rightarrow> (Some (False, tk_elapsed tk s), waited)
            | Some (r, s1) \<Rightarrow> (Some (r \<noteq> None, tk_elapsed tk s), s1)))"

definition count_get :: "(bool \<times> nat) option \<Rightarrow> get_counts \<Rightarrow> get_counts" where
  "count_get res c =
     (case res of
        Some (found, dt) \<Rightarrow>
          let c1 = c\<lparr>gc_latency := latency_push dt (gc_latency c)\<rparr>
          in if found then c1\<lparr>gc_hits := gc_hits c1 + 1\<rparr> else c1\<lparr>gc_misses := gc_misses c1 + 1\<rparr>
      | None \<Rightarrow> c\<lparr>gc_timed_out := gc_timed_out c + 1\<rparr>)"

definition get_phase ::
  "net_lib \<Rightarrow> env \<Rightarrow> orders \<Rightarrow> server tasks \<Rightarrow> rust_str list \<Rightarrow> nat \<Rightarrow> server \<Rightarrow> get_counts \<times> server" where
  "get_phase lib ev od tk keys concurrency s =
     join_loop (get_task lib ev od tk) count_get tk concurrency [] keys
       \<lparr>gc_hits = 0, gc_misses = 0, gc_timed_out = 0, gc_latency = []\<rparr> s"

section \<open>The attack\<close>

text \<open>\<open>rec[500] ^= 0xFF\<close>, which panics on a shorter record.\<close>

definition tamper :: "bytes \<Rightarrow> bytes option" where
  "tamper r = (if 500 < length r then Some (r[500 := r ! 500 XOR 0xFF]) else None)"

text \<open>\<open>gen i\<close> are the random key pairs and the UUID of the \<open>i\<close>th record.\<close>

type_synonym generator = "nat \<Rightarrow> (bytes \<times> bytes) \<times> bytes \<times> rust_str"

definition make_pools ::
  "doc_lib \<Rightarrow> generator \<Rightarrow> nat \<Rightarrow> nat \<Rightarrow> ((rust_str \<times> bytes) list \<times> (rust_str \<times> bytes) list) option" where
  "make_pools lib gen pool_size inv_size =
     (let make = (\<lambda>i. case gen i of (dilithium_keys, kpk, uuid) \<Rightarrow> ra_make_record lib dilithium_keys kpk uuid)
      in case those (map make [0..<pool_size]) of
           None \<Rightarrow> None
         | Some valid \<Rightarrow>
             (case those (map (\<lambda>i. Option.bind (make i) (\<lambda>(key, r). map_option (Pair key) (tamper r)))
                     [pool_size..<pool_size + inv_size]) of
                None \<Rightarrow> None
              | Some invalid \<Rightarrow> Some (valid, invalid)))"

text \<open>The summary that is printed at the end, without the latencies.\<close>

record metrics =
  me_pool_size :: nat
  me_inv_size :: nat
  me_concurrency :: nat
  me_p1 :: store_counts
  me_p2 :: store_counts
  me_p3 :: get_counts

datatype verdict = SecurityFailure nat | Survived metrics

definition verdict_of :: "nat \<Rightarrow> store_counts \<Rightarrow> store_counts \<Rightarrow> get_counts \<Rightarrow> verdict" where
  "verdict_of concurrency c1 c2 c3 =
     (if sc_accepted c2 = 0
      then Survived
        \<lparr>me_pool_size = sc_accepted c1 + sc_rejected c1 + sc_timed_out c1,
         me_inv_size = sc_accepted c2 + sc_rejected c2 + sc_timed_out c2,
         me_concurrency = concurrency, me_p1 = c1, me_p2 = c2, me_p3 = c3\<rparr>
      else SecurityFailure (sc_accepted c2))"

text \<open>The three phases against the first neighbour of the attacker.\<close>

definition attack ::
  "host \<Rightarrow> protocol tasks \<Rightarrow> server tasks \<Rightarrow> nat \<Rightarrow> (rust_str \<times> bytes) list \<Rightarrow> (rust_str \<times> bytes) list \<Rightarrow>
   rust_str \<times> u16 \<Rightarrow> node \<Rightarrow> server \<Rightarrow> protocol \<Rightarrow> (verdict \<times> server) script_result" where
  "attack ho tkp tks concurrency valid_pool invalid_pool victim_addr victim server proto =
     (let (c1, p1) = store_phase (ho_net ho) (ho_env ho) tkp victim valid_pool concurrency proto;
          (c2, p2) = store_phase (ho_net ho) (ho_env ho) tkp victim invalid_pool concurrency p1
      in case bootstrap (ho_net ho) (ho_env ho) (ho_orders ho) [victim_addr] (server\<lparr>sv_protocol := Some p2\<rparr>) of
           None \<Rightarrow> None
         | Some (_, s1) \<Rightarrow>
             let (c3, s2) = get_phase (ho_net ho) (ho_env ho) (ho_orders ho) tks (sc_accepted_keys c1) concurrency (pause ho s1)
             in Some (Inr (verdict_of concurrency c1 c2 c3, s2)))"

definition ra_run :: "host \<Rightarrow> protocol tasks \<Rightarrow> server tasks \<Rightarrow> generator \<Rightarrow> (verdict \<times> server) script_result" where
  "ra_run ho tkp tks gen =
     (let target_addr = var_or ho ''TARGET_ADDR'' ''172.21.0.10:5678'';
          attacker_port = word_of_nat (var_number ho (2 ^ 16) ''ATTACKER_PORT'' 5679) :: u16;
          pool_size = var_number ho (2 ^ 64) ''POOL_SIZE'' 300;
          concurrency = var_number ho (2 ^ 64) ''CONCURRENCY'' 50;
          inv_size = max (pool_size div 50) 10;
          (bound, s0) = listen (ho_bind ho attacker_port (str_lit ''0.0.0.0'')) (ho_secs ho) (fresh_server ho 20 3 True)
      in if \<not> bound then Some (Inl Panicked)
         else
           let target_ip = split_first (of_char (CHR '':'')) target_addr;
               target_port = (case Option.bind (splitn2_rest (of_char (CHR '':'')) target_addr) parse_u16 of
                                Some port \<Rightarrow> port | None \<Rightarrow> 5678)
           in (case bootstrap (ho_net ho) (ho_env ho) (ho_orders ho) [(target_ip, target_port)] (pause ho s0) of
                 None \<Rightarrow> None
               | Some (_, s1) \<Rightarrow>
                   let server = pause ho s1
                   in (case sv_protocol server of
                         None \<Rightarrow> Some (Inl Panicked)
                       | Some p \<Rightarrow>
                           let (ns, proto) = neighbors_of (pr_source_node p) p
                           in (case ns of
                                 [] \<Rightarrow> Some (Inl Panicked)
                               | victim # _ \<Rightarrow>
                                   (case make_pools (ho_doc ho) gen pool_size inv_size of
                                      None \<Rightarrow> Some (Inl Panicked)
                                    | Some (valid_pool, invalid_pool) \<Rightarrow>
                                        attack ho tkp tks concurrency valid_pool invalid_pool (target_ip, target_port)
                                          victim server proto)))))"

section \<open>The victim\<close>

partial_function (option) await_attacker :: "host \<Rightarrow> server \<Rightarrow> server option" where
  "await_attacker ho s =
     (let (ns, s1) = bootstrappable_neighbors s
      in if ns \<noteq> [] then Some s1 else await_attacker ho (pause ho s1))"

definition seed_record :: "host \<Rightarrow> rust_str \<times> bytes \<Rightarrow> server \<Rightarrow> server" where
  "seed_record ho kr s =
     (case sv_protocol s of
        None \<Rightarrow> s\<lparr>sv_storage := st_set (sv_now s) (digest (nl_sha1 (ho_net ho)) (fst kr)) (snd kr) (sv_storage s)\<rparr>
      | Some p \<Rightarrow>
          s\<lparr>sv_protocol := Some (p\<lparr>pr_storage :=
            st_set (pr_now p) (digest (nl_sha1 (ho_net ho)) (fst kr)) (snd kr) (pr_storage p)\<rparr>)\<rparr>)"

text \<open>The result is the number of records in the store at the end.\<close>

definition rv_run :: "host \<Rightarrow> generator \<Rightarrow> (nat \<times> server) script_result" where
  "rv_run ho gen =
     (let port = word_of_nat (var_number ho (2 ^ 16) ''NODE_PORT'' 5678) :: u16;
          seed_count = var_number ho (2 ^ 64) ''SEED_COUNT'' 5;
          (bound, s0) = listen (ho_bind ho port (str_lit ''0.0.0.0'')) (ho_secs ho) (fresh_server ho 20 3 False)
      in if \<not> bound then Some (Inl Panicked)
         else
           (case await_attacker ho s0 of
              None \<Rightarrow> None
            | Some s1 \<Rightarrow>
                (case those (map (\<lambda>i. case gen i of (dilithium_keys, kpk, uuid) \<Rightarrow>
                        rv_make_record (ho_doc ho) dilithium_keys kpk uuid) [0..<seed_count]) of
                   None \<Rightarrow> Some (Inl Panicked)
                 | Some records \<Rightarrow>
                     let s2 = pause ho (fold (seed_record ho) records s1);
                         final_count = length (st_iter_all (sv_clock s2) (ev_keys (ho_env ho) (sv_store s2)) (sv_store s2))
                     in Some (Inr (final_count, stop (ho_net ho) (ho_env ho) s2)))))"

section \<open>What the phases count\<close>

lemma count_store_total:
  "sc_accepted (count_store res c) + sc_rejected (count_store res c) + sc_timed_out (count_store res c) =
     Suc (sc_accepted c + sc_rejected c + sc_timed_out c)"
  by (simp add: count_store_def Let_def split: option.split prod.split)

text \<open>The victim acknowledged a store of the record.\<close>

definition acked :: "net_lib \<Rightarrow> env \<Rightarrow> node \<Rightarrow> rust_str \<Rightarrow> bytes \<Rightarrow> bool" where
  "acked lib ev victim k r \<longleftrightarrow> (\<exists>q. fst (call_store_rpc lib ev victim (digest (nl_sha1 lib) k) r q))"

lemma store_task_frame:
  assumes "calm lib h self cd ev" and "pr_inv lib h self cd p" and "store_task lib ev tk victim kr p = (res, p')"
  shows "pr_inv lib h self cd p' \<and>
    (\<forall>to ok k dt. res = Some (to, ok, k, dt) \<longrightarrow> k = fst kr \<and>
       (\<not> to \<and> ok \<longrightarrow> acked lib ev victim (fst kr) (snd kr)))"
proof -
  have "pr_inv lib h self cd (ev_wait ev p)" using assms(1,2) by (simp add: calm_def)
  moreover have "pr_inv lib h self cd (snd (call_store_rpc lib ev victim (digest (nl_sha1 lib) (fst kr)) (snd kr) p))"
    by (rule pr_inv_calls(2) [OF assms(1,2)])
  ultimately show ?thesis
    using assms(3) unfolding acked_def
    by (auto simp: store_task_def Let_def split_def split: if_splits prod.splits intro!: exI [of _ p])
qed

text \<open>What the counters of a store phase say after the tasks \<open>xs\<close>.\<close>

definition store_tally :: "net_lib \<Rightarrow> env \<Rightarrow> node \<Rightarrow> (rust_str \<times> bytes) list \<Rightarrow> store_counts \<Rightarrow> bool" where
  "store_tally lib ev victim xs c \<longleftrightarrow>
     sc_accepted c + sc_rejected c + sc_timed_out c = length xs \<and> length (sc_accepted_keys c) = sc_accepted c \<and>
     mset (sc_accepted_keys c) \<subseteq># mset (map fst xs) \<and> length (sc_latency c) \<le> length xs \<and>
     (\<forall>k \<in> set (sc_accepted_keys c). \<exists>r. (k, r) \<in> set xs \<and> acked lib ev victim k r)"

lemma store_tally_step:
  assumes "calm lib h self cd ev" and "pr_inv lib h self cd p" and "store_task lib ev tk victim kr p = (res, p')"
    and "store_tally lib ev victim xs c"
  shows "store_tally lib ev victim (xs @ [kr]) (count_store res c)"
proof -
  note fr = conjunct2 [OF store_task_frame [OF assms(1-3)]]
  show ?thesis
  proof (cases "\<exists>k dt. res = Some (False, True, k, dt)")
    case True
    then obtain dt where res: "res = Some (False, True, fst kr, dt)" using fr by blast
    have "mset (sc_accepted_keys c) + {#fst kr#} \<subseteq># mset (map fst xs) + {#fst kr#}"
      using assms(4) by (simp add: store_tally_def)
    moreover have "acked lib ev victim (fst kr) (snd kr)" using fr res by blast
    then have "\<forall>k \<in> set (sc_accepted_keys c @ [fst kr]). \<exists>r. (k, r) \<in> set (xs @ [kr]) \<and> acked lib ev victim k r"
      using assms(4) by (cases kr) (auto simp: store_tally_def)
    ultimately show ?thesis
      using assms(4) unfolding store_tally_def by (simp add: count_store_def res latency_push_def Let_def)
  next
    case False
    then have "sc_accepted_keys (count_store res c) = sc_accepted_keys c" "sc_accepted (count_store res c) = sc_accepted c"
      by (auto simp: count_store_def Let_def split: option.split prod.split)
    moreover have "length (sc_latency (count_store res c)) \<le> Suc (length (sc_latency c))"
      by (auto simp: count_store_def latency_push_def Let_def split: option.split prod.split)
    moreover have "mset (sc_accepted_keys c) \<subseteq># mset (map fst xs) + {#fst kr#}"
      using assms(4) by (auto simp: store_tally_def intro: subset_mset.order_trans)
    ultimately show ?thesis
      using assms(4) count_store_total [of res c] unfolding store_tally_def by auto
  qed
qed

lemma run_store_tasks:
  assumes "calm lib h self cd ev" and "pr_inv lib h self cd p" and "store_tally lib ev victim xs c"
    and "run_tasks (store_task lib ev tk victim) count_store ys c p = (c', p')"
  shows "pr_inv lib h self cd p' \<and> store_tally lib ev victim (xs @ ys) c'"
  using assms(2-)
proof (induction ys arbitrary: xs c p)
  case (Cons kr ys)
  obtain res p1 where t: "store_task lib ev tk victim kr p = (res, p1)" by fastforce
  have "pr_inv lib h self cd p1" using store_task_frame [OF assms(1) Cons.prems(1) t] by blast
  from Cons.IH [OF this store_tally_step [OF assms(1) Cons.prems(1) t Cons.prems(2)]] Cons.prems(3) t show ?case by simp
qed simp

lemma store_tally_perm: "mset ys = mset xs \<Longrightarrow> store_tally lib ev victim ys c = store_tally lib ev victim xs c"
  using mset_eq_length [of ys xs] mset_eq_setD [of ys xs] by (simp add: store_tally_def)

text \<open>
  With a positive concurrency the store phase sends every record exactly once, in some order, and
  classifies each as accepted, rejected or timed out; every key it reports as accepted belongs to a
  record of the pool that the victim acknowledged. The protocol of the attacker stays in order.
  With concurrency zero nothing is sent and nothing is counted.
\<close>

lemma store_phase_accounts:
  assumes "calm lib h self cd ev" and "pr_inv lib h self cd p"
    and "store_phase lib ev tk victim pool concurrency p = (c, p')"
  shows "if concurrency = 0 then sc_accepted c = 0 \<and> sc_rejected c = 0 \<and> sc_timed_out c = 0 \<and> p' = p
    else store_tally lib ev victim pool c \<and> pr_inv lib h self cd p'"
proof (cases "concurrency = 0")
  case True
  then show ?thesis using assms(3) by (simp add: store_phase_def join_loop_idle split: prod.splits) auto
next
  case False
  let ?c0 = "\<lparr>sc_accepted = 0, sc_rejected = 0, sc_timed_out = 0, sc_accepted_keys = [], sc_latency = []\<rparr>"
  obtain order where o: "mset order = mset pool" "run_tasks (store_task lib ev tk victim) count_store order ?c0 p = (c, p')"
    using join_loop_order [of concurrency "[]" pool "store_task lib ev tk victim" count_store tk ?c0 p] assms(3) False
    by (auto simp: store_phase_def)
  have "store_tally lib ev victim [] ?c0" by (simp add: store_tally_def)
  from run_store_tasks [OF assms(1,2) this o(2)] show ?thesis
    using False store_tally_perm [OF o(1), of lib ev victim c] by simp
qed

lemma those_map:
  "those (map f xs) = Some ys \<longleftrightarrow> list_all2 (\<lambda>x y. f x = Some y) xs ys"
proof (induction xs arbitrary: ys)
  case (Cons x xs)
  then show ?case by (cases "f x"; cases ys) auto
qed auto

lemma make_pools_parts:
  assumes "make_pools lib gen m n = Some (valid, invalid)"
  shows "length valid = m" "length invalid = n"
    "(k, r') \<in> set invalid \<Longrightarrow> \<exists>i dk kpk uuid r. gen i = (dk, kpk, uuid) \<and>
       ra_make_record lib dk kpk uuid = Some (k, r) \<and> tamper r = Some r'"
proof -
  define make where "make = (\<lambda>i. case gen i of (dk, kpk, uuid) \<Rightarrow> ra_make_record lib dk kpk uuid)"
  define spoil where "spoil = (\<lambda>i. Option.bind (make i) (\<lambda>(key, r). map_option (Pair key) (tamper r)))"
  have v: "list_all2 (\<lambda>i y. make i = Some y) [0..<m] valid" and iv: "list_all2 (\<lambda>i y. spoil i = Some y) [m..<m + n] invalid"
    using assms unfolding make_pools_def Let_def make_def [symmetric] spoil_def [symmetric] those_map [symmetric]
    by (auto split: option.splits)
  show "length valid = m" using list_all2_lengthD [OF v] by simp
  show "length invalid = n" using list_all2_lengthD [OF iv] by simp
  show "\<exists>i dk kpk uuid r. gen i = (dk, kpk, uuid) \<and> ra_make_record lib dk kpk uuid = Some (k, r) \<and> tamper r = Some r'"
    if mem: "(k, r') \<in> set invalid"
  proof -
    obtain i where i: "spoil i = Some (k, r')"
      using mem iv by (auto simp: list_all2_conv_all_nth in_set_conv_nth)
    obtain dk kpk uuid where g: "gen i = (dk, kpk, uuid)" by (rule prod_cases3)
    with i obtain r where "ra_make_record lib dk kpk uuid = Some (k, r)" "tamper r = Some r'"
      by (auto simp: spoil_def make_def bind_eq_Some_conv)
    with g show ?thesis by blast
  qed
qed

lemma count_get_total:
  "gc_hits (count_get res c) + gc_misses (count_get res c) + gc_timed_out (count_get res c) =
     Suc (gc_hits c + gc_misses c + gc_timed_out c)"
  by (simp add: count_get_def Let_def split: option.split prod.split)

lemma get_task_inv:
  assumes "script_inv ho self cd s" and "get_task (ho_net ho) (ho_env ho) (ho_orders ho) tk key s = (res, s')"
  shows "script_inv ho self cd s'"
proof -
  obtain r s1 where "sv_get (ho_net ho) (ho_env ho) (ho_orders ho) key s = Some (r, s1)" "script_inv ho self cd s1"
    using script_ops(2) [OF assms(1)] by blast
  then show ?thesis
    using assms(2) script_inv_pause [OF assms(1)]
    by (auto simp: get_task_def Let_def pause_def split: if_splits)
qed

lemma run_get_tasks:
  assumes "script_inv ho self cd s"
    and "run_tasks (get_task (ho_net ho) (ho_env ho) (ho_orders ho) tk) count_get ks c s = (c', s')"
  shows "script_inv ho self cd s' \<and>
    gc_hits c' + gc_misses c' + gc_timed_out c' = gc_hits c + gc_misses c + gc_timed_out c + length ks"
  using assms
proof (induction ks arbitrary: c s)
  case (Cons k ks)
  obtain res s1 where t: "get_task (ho_net ho) (ho_env ho) (ho_orders ho) tk k s = (res, s1)" by fastforce
  from Cons.IH [OF get_task_inv [OF Cons.prems(1) t], of "count_get res c"] Cons.prems(2) t count_get_total [of res c]
  show ?case by simp
qed simp

lemma get_phase_accounts:
  assumes "script_inv ho self cd s"
    and "get_phase (ho_net ho) (ho_env ho) (ho_orders ho) tk keys concurrency s = (c, s')"
  shows "script_inv ho self cd s' \<and>
    gc_hits c + gc_misses c + gc_timed_out c = (if concurrency = 0 then 0 else length keys)"
proof (cases "concurrency = 0")
  case True
  then show ?thesis using assms by (auto simp: get_phase_def join_loop_idle)
next
  case False
  let ?c0 = "\<lparr>gc_hits = 0, gc_misses = 0, gc_timed_out = 0, gc_latency = []\<rparr>"
  obtain order where o: "mset order = mset keys"
    "run_tasks (get_task (ho_net ho) (ho_env ho) (ho_orders ho) tk) count_get order ?c0 s = (c, s')"
    using join_loop_order [of concurrency "[]" keys "get_task (ho_net ho) (ho_env ho) (ho_orders ho) tk" count_get tk ?c0 s]
      assms(2) False by (auto simp: get_phase_def)
  show ?thesis using run_get_tasks [OF assms(1) o(2)] False mset_eq_length [OF o(1)] by simp
qed

text \<open>The outcome of the three phases.\<close>

definition attack_ok ::
  "host \<Rightarrow> nat \<Rightarrow> node \<Rightarrow> (rust_str \<times> bytes) list \<Rightarrow> (rust_str \<times> bytes) list \<Rightarrow> verdict \<Rightarrow> bool" where
  "attack_ok ho concurrency victim valid invalid v \<longleftrightarrow>
     (case v of
        SecurityFailure n \<Rightarrow> 0 < n \<and> n \<le> length invalid \<and> (\<exists>(k, r) \<in> set invalid. acked (ho_net ho) (ho_env ho) victim k r)
      | Survived m \<Rightarrow>
          me_concurrency m = concurrency \<and> sc_accepted (me_p2 m) = 0 \<and>
          (if concurrency = 0 then me_pool_size m = 0 \<and> me_inv_size m = 0
           else me_pool_size m = length valid \<and> me_inv_size m = length invalid \<and>
             gc_hits (me_p3 m) + gc_misses (me_p3 m) + gc_timed_out (me_p3 m) = sc_accepted (me_p1 m)))"

lemma attack_outcome:
  assumes "script_inv ho self True server" and "pr_inv (ho_net ho) (host_handler ho) self True proto"
  shows "\<exists>v s. attack ho tkp tks concurrency valid invalid addr victim server proto = Some (Inr (v, s)) \<and>
    script_inv ho self True s \<and> attack_ok ho concurrency victim valid invalid v"
proof -
  note calm = script_invD(3) [OF assms(1), unfolded script_invD(5) [OF assms(1)]]
  obtain c1 p1 where 1: "store_phase (ho_net ho) (ho_env ho) tkp victim valid concurrency proto = (c1, p1)" by fastforce
  obtain c2 p2 where 2: "store_phase (ho_net ho) (ho_env ho) tkp victim invalid concurrency p1 = (c2, p2)" by fastforce
  note ph1 = store_phase_accounts [OF calm assms(2) 1]
  have p1: "pr_inv (ho_net ho) (host_handler ho) self True p1" using ph1 assms(2) by (auto split: if_splits)
  note ph2 = store_phase_accounts [OF calm p1 2]
  have "pr_inv (ho_net ho) (host_handler ho) self True p2" using ph2 p1 by (auto split: if_splits)
  then have "script_inv ho self True (server\<lparr>sv_protocol := Some p2\<rparr>)"
    using sv_inv_protocol assms(1) by (simp add: script_inv_def)
  then obtain ns s1 where b: "bootstrap (ho_net ho) (ho_env ho) (ho_orders ho) [addr] (server\<lparr>sv_protocol := Some p2\<rparr>) = Some (ns, s1)"
    "script_inv ho self True s1" using script_ops(1) by blast
  obtain c3 s2 where 3: "get_phase (ho_net ho) (ho_env ho) (ho_orders ho) tks (sc_accepted_keys c1) concurrency (pause ho s1) = (c3, s2)"
    by fastforce
  note ph3 = get_phase_accounts [OF script_inv_pause [OF b(2)] 3]
  have "attack_ok ho concurrency victim valid invalid (verdict_of concurrency c1 c2 c3)"
  proof (cases "concurrency = 0")
    case True
    then show ?thesis using ph1 ph2 by (simp add: attack_ok_def verdict_of_def)
  next
    case False
    then have t: "store_tally (ho_net ho) (ho_env ho) victim valid c1" "store_tally (ho_net ho) (ho_env ho) victim invalid c2"
      using ph1 ph2 by simp_all
    have "\<exists>(k, r) \<in> set invalid. acked (ho_net ho) (ho_env ho) victim k r" if "0 < sc_accepted c2"
    proof -
      have "sc_accepted_keys c2 \<noteq> []" using that t(2) by (auto simp: store_tally_def)
      then obtain k where "k \<in> set (sc_accepted_keys c2)" by (cases "sc_accepted_keys c2") auto
      then show ?thesis using t(2) by (auto simp: store_tally_def)
    qed
    with False t ph3 show ?thesis by (auto simp: attack_ok_def verdict_of_def store_tally_def)
  qed
  with 1 2 b(1) 3 ph3 show ?thesis by (simp add: attack_def Let_def)
qed

section \<open>Tampered records\<close>

text \<open>A signature in which the byte that the attacker flips was flipped is not one of the message.\<close>

definition flip_rejected :: "dilithium_mod \<Rightarrow> bytes \<Rightarrow> bytes \<Rightarrow> bool" where
  "flip_rejected m pk sk \<longleftrightarrow>
     (\<forall>msg. let sig = detached_sign m msg sk; sig' = sig[488 := sig ! 488 XOR 0xFF]
       in \<not> verify_detached_signature m sig' msg pk)"

lemma tamper_record:
  assumes "length sig = 2420"
  shows "tamper (alg_field (str_lit ''Dilithium-2'') @ sig @ bs) =
    Some (alg_field (str_lit ''Dilithium-2'') @ sig[488 := sig ! 488 XOR 0xFF] @ bs)"
proof -
  have "length (alg_field (str_lit ''Dilithium-2'')) = 12" by (simp add: alg_field_dilithium2)
  then show ?thesis using assms by (simp add: tamper_def nth_append list_update_append)
qed

lemma tampered_rejected:
  assumes "json_access_ok alib" and "b64_roundtrip alib dpk"
    and "json_roundtrip alib (build_did_document alib (str_lit ''did:iiot:'' @ uuid) dpk kpk)"
    and pair: "signing_pair (dilithium2 alib) dpk dsk" and flip: "flip_rejected (dilithium2 alib) dpk dsk"
    and "of_char (CHR '':'') \<notin> set uuid" and make: "ra_make_record alib (dpk, dsk) kpk uuid = Some (k, r)"
    and tam: "tamper r = Some r'"
  shows "handle_signature_verification alib r = Inr True" "handle_signature_verification alib r' \<noteq> Inr True" "k = uuid"
proof -
  let ?doc = "build_did_document alib (str_lit ''did:iiot:'' @ uuid) dpk kpk"
  obtain r0 bs where r0: "build_signed_record alib ?doc dsk (str_lit ''Dilithium-2'') = Some r0"
    "r0 = assemble_record alib bs dsk (str_lit ''Dilithium-2'')"
    "record_parts r0 DilithiumSignatureVerifier (detached_sign (dilithium2 alib) bs dsk) bs"
    "public_key_from_did_doc alib bs = Inr dpk"
    by (rule built_record [OF assms(1-3) pair])
  have kr: "k = uuid" "r = r0" using make make_record_copies(1) [OF assms(6), of alib dpk dsk kpk] r0(1) by simp_all
  show "k = uuid" by (rule kr(1))
  show "handle_signature_verification alib r = Inr True"
    unfolding handle_signature_verification_def verify_self_signed_iff kr(2)
    using r0(3,4) signing_pair_verify [OF pair] by blast
  let ?sig = "detached_sign (dilithium2 alib) bs dsk"
  let ?sig' = "?sig[488 := ?sig ! 488 XOR 0xFF]"
  have len: "length ?sig = 2420" using pair by (simp add: signing_pair_def)
  have r': "r' = alg_field (str_lit ''Dilithium-2'') @ ?sig' @ bs"
    using tam tamper_record [OF len, of bs] kr(2) r0(2) by (simp add: assemble_record_def)
  have "record_parts r' DilithiumSignatureVerifier ?sig' bs"
    unfolding r' by (rule record_partsI [OF get_alg_string_dilithium2 dilithium2_registered(1) _ dilithium2_registered(2)])
      (simp add: extract_sig_and_data_def alg_field_dilithium2 len)
  moreover have "verify alib DilithiumSignatureVerifier dpk ?sig' bs \<noteq> Inr True"
    using flip pair by (auto simp: dilithium_verify_def dilithium_level_from_pubkey_len_def verify_d_def signing_pair_def
        flip_rejected_def Let_def)
  ultimately show "handle_signature_verification alib r' \<noteq> Inr True"
    unfolding handle_signature_verification_def verify_self_signed_iff using record_parts_unique r0(4) by fastforce
qed

lemma verify_for_key_uncached:
  assumes "pr_inv lib h self False p" and "k \<noteq> digest (nl_sha1 lib) STATUS_LIST_KEY"
  shows "fst (verify_for_key lib k v p) \<longleftrightarrow> sh_signature h v = Inr True"
  using pr_invD(1,10) [OF assms(1)] assms(2) by (simp add: verify_for_key_def Let_def)

section \<open>Properties of the resilience test\<close>

text \<open>
  C21. The attack of the resilience test fails: a node without signature cache, in every state it
  can reach, refuses every record that the attacker tampered with and keeps its store, while it
  takes the untampered record whenever the key is free. The crate is assumed to reject a
  signature with a flipped byte.
\<close>

theorem tampered_store_rejected:
  assumes "json_access_ok alib" and "b64_roundtrip alib dpk"
    and "json_roundtrip alib (build_did_document alib (str_lit ''did:iiot:'' @ uuid) dpk kpk)"
    and "signing_pair (dilithium2 alib) dpk dsk" and "flip_rejected (dilithium2 alib) dpk dsk"
    and "of_char (CHR '':'') \<notin> set uuid" and "ra_make_record alib (dpk, dsk) kpk uuid = Some (k, r)"
    and "tamper r = Some r'"
    and "lib_ok lib" and "(pr_step lib)\<^sup>*\<^sup>* (did_node alib f self ks ttl False now secs) p"
    and "digest (nl_sha1 lib) k \<noteq> digest (nl_sha1 lib) STATUS_LIST_KEY"
  shows "\<not> fst (rpc_store lib i a (digest (nl_sha1 lib) k) r' p) \<and>
    pr_storage (snd (rpc_store lib i a (digest (nl_sha1 lib) k) r' p)) = pr_storage p \<and>
    (fst (rpc_store lib i a (digest (nl_sha1 lib) k) r p) \<longleftrightarrow> st_get (pr_now p) (digest (nl_sha1 lib) k) (pr_storage p) = None)"
  using tampered_rejected [OF assms(1-8)]
    verify_for_key_uncached [OF did_node_inv [OF assms(9,10)] assms(11)]
  by (simp add: rpc_store_storage)

theorem tampered_store_rejected_witness:
  "\<exists>k r r'. ra_make_record (stamp_lib stamp_doc) (replicate 1312 1, []) [] (str_lit ''1'') = Some (k, r) \<and> tamper r = Some r' \<and>
     \<not> fst (rpc_store demo_lib demo_peer (str_lit ''::1'', 1) (digest (\<lambda>x. x) k) r'
       (did_node (stamp_lib stamp_doc) None demo_self 1 (- 1) False 0 0))"
proof -
  let ?lib = "stamp_lib stamp_doc" and ?pk = "replicate 1312 1 :: bytes" and ?u = "str_lit ''1''"
  have did: "str_lit ''did:iiot:'' @ ?u = str_lit ''did:iiot:1''" by (simp add: str_lit_def)
  have doc: "json_roundtrip ?lib (build_did_document ?lib (str_lit ''did:iiot:'' @ ?u) ?pk [])"
    unfolding did stamp_doc_built by (simp add: json_roundtrip_def)
  have b64: "b64_roundtrip ?lib ?pk" by (simp add: b64_roundtrip_def of_char_def)
  have pair: "signing_pair (dilithium2 ?lib) ?pk []" by (simp add: stamp_pair)
  have flip: "flip_rejected (dilithium2 ?lib) ?pk []"
    by (auto simp: flip_rejected_def stamp_mod_def Let_def dest!: arg_cong [of _ _ "\<lambda>xs. xs ! 488"])
  have u: "of_char (CHR '':'') \<notin> set ?u" by (simp add: str_lit_def of_char_def)
  obtain r where mk: "ra_make_record ?lib (?pk, []) [] ?u = Some (?u, r)"
    using make_record_copies(1) [OF u, of ?lib ?pk "[]" "[]"] by (simp add: build_signed_record_bytes)
  moreover obtain r' where "tamper r = Some r'"
    using mk make_record_copies(1) [OF u, of ?lib ?pk "[]" "[]"]
    by (auto simp: build_signed_record_bytes stamp_mod_def alg_field_dilithium2 tamper_def)
  moreover have "digest (nl_sha1 demo_lib) ?u \<noteq> digest (nl_sha1 demo_lib) STATUS_LIST_KEY"
    by (auto simp: digest_def digest_bytes_def STATUS_LIST_KEY_def str_lit_def as_bytes_def utf8_encode_char_def of_char_def)
  ultimately show ?thesis
    using tampered_store_rejected [where f = None and self = demo_self and ks = 1 and ttl = "- 1" and now = 0 and secs = 0
        and i = demo_peer and a = "(str_lit ''::1'', 1)",
        OF stamp_lib_access b64 doc pair flip u mk _ demo_lib_ok rtranclp.rtrancl_refl] by auto
qed

lemma ra_run_cases:
  assumes "host_ok ho (sv_node (fresh_server ho 20 3 True)) True"
    and n: "n = var_number ho (2 ^ 64) ''POOL_SIZE'' 300" and conc: "conc = var_number ho (2 ^ 64) ''CONCURRENCY'' 50"
  obtains (fails) "ra_run ho tkp tks gen = Some (Inl Panicked)"
    | (attacks) server proto victim valid invalid addr where
        "script_inv ho (sv_node (fresh_server ho 20 3 True)) True server"
        "pr_inv (ho_net ho) (host_handler ho) (sv_node (fresh_server ho 20 3 True)) True proto"
        "make_pools (ho_doc ho) gen n (max (n div 50) 10) = Some (valid, invalid)"
        "ra_run ho tkp tks gen = attack ho tkp tks conc valid invalid addr victim server proto"
proof -
  let ?self = "sv_node (fresh_server ho 20 3 True)" and ?pools = "make_pools (ho_doc ho) gen n (max (n div 50) 10)"
  define port :: u16 where "port = word_of_nat (var_number ho (2 ^ 16) ''ATTACKER_PORT'' 5679)"
  define target where "target = var_or ho ''TARGET_ADDR'' ''172.21.0.10:5678''"
  define addr where "addr = (split_first (of_char (CHR '':'')) target,
    case Option.bind (splitn2_rest (of_char (CHR '':'')) target) parse_u16 of Some port \<Rightarrow> port | None \<Rightarrow> 5678)"
  obtain bound s0 where l: "listen (ho_bind ho port (str_lit ''0.0.0.0'')) (ho_secs ho) (fresh_server ho 20 3 True) = (bound, s0)"
    by fastforce
  have "script_inv ho ?self True s0"
    using fresh_server_inv [OF assms(1), of "ho_bind ho port (str_lit ''0.0.0.0'')" "ho_secs ho"] l by simp
  then obtain ns s1 where b: "bootstrap (ho_net ho) (ho_env ho) (ho_orders ho) [addr] (pause ho s0) = Some (ns, s1)"
    "script_inv ho ?self True s1" using script_ops(1) script_inv_pause by blast
  have server: "script_inv ho ?self True (pause ho s1)" by (rule script_inv_pause [OF b(2)])
  note unf = ra_run_def [of ho tkp tks gen, folded port_def n conc target_def, unfolded Let_def, folded addr_def]
  show thesis
  proof (cases "bound \<and> ?pools \<noteq> None \<and> sv_protocol (pause ho s1) \<noteq> None")
    case False
    then have "ra_run ho tkp tks gen = Some (Inl Panicked)"
      using l b(1) unfolding unf by (auto split: prod.splits list.splits option.splits)
    then show ?thesis by (rule fails)
  next
    case True
    then obtain p valid invalid where p: "sv_protocol (pause ho s1) = Some p" "?pools = Some (valid, invalid)" by auto
    obtain ms proto where nb: "neighbors_of (pr_source_node p) p = (ms, proto)" by fastforce
    have "pr_inv (ho_net ho) (host_handler ho) ?self True p"
      using sv_invD(5) [OF script_invD(4) [OF server] p(1)] script_invD(5) [OF server] by simp
    then have proto: "pr_inv (ho_net ho) (host_handler ho) ?self True proto" using neighbors_of_inv [OF _ nb] by blast
    have run: "ra_run ho tkp tks gen = (case ms of [] \<Rightarrow> Some (Inl Panicked)
        | victim # _ \<Rightarrow> attack ho tkp tks conc valid invalid addr victim (pause ho s1) proto)"
      using True l b(1) p nb unfolding unf by (cases ms) simp_all
    show ?thesis
      by (cases ms) (use run in \<open>auto intro: fails attacks [OF server proto p(2)]\<close>)
  qed
qed

text \<open>
  The attacker always reaches a verdict or panics. It reports a security failure only if the
  victim acknowledged a tampered record, and then counts at most the tampered ones. Otherwise, with
  a positive concurrency, its summary accounts for every record it generated, \<open>POOL_SIZE\<close> valid and
  \<open>POOL_SIZE / 50\<close> but at least ten tampered ones, and for every key it read back. With concurrency
  zero it reports survival without having sent a record.
\<close>

theorem attack_verdict:
  assumes "host_ok ho (sv_node (fresh_server ho 20 3 True)) True"
  shows "\<exists>res. ra_run ho tkp tks gen = Some res \<and>
    (case res of
       Inl e \<Rightarrow> e = Panicked
     | Inr (v, s) \<Rightarrow>
         let pool_size = var_number ho (2 ^ 64) ''POOL_SIZE'' 300; concurrency = var_number ho (2 ^ 64) ''CONCURRENCY'' 50;
             inv_size = max (pool_size div 50) 10
         in \<exists>victim valid invalid. length valid = pool_size \<and> length invalid = inv_size \<and>
              (\<forall>(k, r') \<in> set invalid. \<exists>keys kpk uuid r. ra_make_record (ho_doc ho) keys kpk uuid = Some (k, r) \<and> tamper r = Some r') \<and>
              attack_ok ho concurrency victim valid invalid v)"
proof (rule ra_run_cases [OF assms refl refl, of tkp tks gen], goal_cases fails attacks)
  case (attacks server proto victim valid invalid addr)
  from attack_outcome [OF attacks(1,2)] attacks(4) obtain v s where
    v: "ra_run ho tkp tks gen = Some (Inr (v, s))" "attack_ok ho (var_number ho (2 ^ 64) ''CONCURRENCY'' 50) victim valid invalid v"
    by metis
  have "\<forall>(k, r') \<in> set invalid. \<exists>keys kpk uuid r. ra_make_record (ho_doc ho) keys kpk uuid = Some (k, r) \<and> tamper r = Some r'"
    using make_pools_parts(3) [OF attacks(3)] by blast
  with v(2) make_pools_parts(1,2) [OF attacks(3)] show ?thesis
    unfolding v(1) Let_def option.inject
    by (intro exI [of _ "Inr (v, s)"] conjI refl)
      (unfold sum.case prod.case, intro exI [of _ victim] exI [of _ valid] exI [of _ invalid] conjI)
qed simp

theorem attack_verdict_witness:
  "\<exists>res. ra_run demo_host \<lparr>tk_next = (\<lambda>_. 0), tk_panics = (\<lambda>_. False), tk_late = (\<lambda>_. False), tk_elapsed = (\<lambda>_. 0)\<rparr>
     \<lparr>tk_next = (\<lambda>_. 0), tk_panics = (\<lambda>_. False), tk_late = (\<lambda>_. False), tk_elapsed = (\<lambda>_. 0)\<rparr>
     (\<lambda>_. ((replicate 1312 1, []), [], str_lit ''1'')) = Some res"
  using attack_verdict [OF demo_host_ok] by blast

section \<open>The victim waits, then seeds\<close>

abbreviation wait_once :: "host \<Rightarrow> server \<Rightarrow> server" where
  "wait_once ho s \<equiv> pause ho (snd (bootstrappable_neighbors s))"

lemma await_attacker_returns:
  "fst (bootstrappable_neighbors ((wait_once ho ^^ n) s)) \<noteq> [] \<Longrightarrow> \<exists>s'. await_attacker ho s = Some s'"
proof (induction n arbitrary: s)
  case 0
  then show ?case by (subst await_attacker.simps) (simp add: split_def)
next
  case (Suc n)
  then have "\<exists>s'. await_attacker ho (wait_once ho s) = Some s'" by (simp add: funpow_Suc_right del: funpow.simps(2))
  then show ?case by (subst await_attacker.simps) (simp add: split_def Let_def)
qed

lemma await_attacker_Some:
  assumes "await_attacker ho s = Some s'"
  shows "\<exists>n. fst (bootstrappable_neighbors ((wait_once ho ^^ n) s)) \<noteq> [] \<and>
    s' = snd (bootstrappable_neighbors ((wait_once ho ^^ n) s))"
proof (rule await_attacker.raw_induct [where P = "\<lambda>ho s s'. \<exists>n. fst (bootstrappable_neighbors ((wait_once ho ^^ n) s)) \<noteq> [] \<and>
    s' = snd (bootstrappable_neighbors ((wait_once ho ^^ n) s))", OF _ assms], goal_cases)
  case (1 rec_call ho s s')
  show ?case
  proof (cases "fst (bootstrappable_neighbors s) = []")
    case False
    with 1(2) show ?thesis by (intro exI [of _ 0]) (simp add: split_def Let_def)
  next
    case True
    then have "rec_call ho (wait_once ho s) = Some s'" using 1(2) by (simp add: split_def Let_def)
    from 1(1) [OF this] obtain n where "fst (bootstrappable_neighbors ((wait_once ho ^^ n) (wait_once ho s))) \<noteq> []"
      "s' = snd (bootstrappable_neighbors ((wait_once ho ^^ n) (wait_once ho s)))" by blast
    then show ?thesis by (intro exI [of _ "Suc n"]) (simp add: funpow_Suc_right del: funpow.simps(2))
  qed
qed

lemma script_inv_neighbors: "script_inv ho self cd s \<Longrightarrow> script_inv ho self cd (snd (bootstrappable_neighbors s))"
  using bootstrappable_next [of "ho_net ho" "host_handler ho" cd s] script_inv_next [of ho self cd s]
  by (auto simp: script_inv_def split: prod.splits)

lemma script_inv_waits: "script_inv ho self cd s \<Longrightarrow> script_inv ho self cd ((wait_once ho ^^ n) s)"
  by (induction n) (simp_all add: script_inv_pause script_inv_neighbors)

lemma seed_record_inv:
  assumes "script_inv ho self cd s" and "accepted (ho_net ho) (host_handler ho) cd (snd kr)"
  shows "script_inv ho self cd (seed_record ho kr s)"
proof (cases "sv_protocol s")
  case None
  then show ?thesis
    using assms by (simp add: script_inv_def seed_record_def sv_inv_def sv_store_def sv_cache_def fs.keeps_put)
next
  case (Some p)
  note p = sv_invD(5) [OF script_invD(4) [OF assms(1)] Some]
  have "pr_inv (ho_net ho) (host_handler ho) (sv_node s) cd
      (p\<lparr>pr_storage := st_set (pr_now p) (digest (nl_sha1 (ho_net ho)) (fst kr)) (snd kr) (pr_storage p)\<rparr>)"
    by (rule pr_inv_storage [OF p fs.keeps_put [OF pr_invD(8) [OF p] assms(2)]])
  from sv_inv_protocol [OF script_invD(4) [OF assms(1)] this] assms(1) show ?thesis
    by (simp add: script_inv_def seed_record_def Some)
qed

lemma seed_records_inv:
  "script_inv ho self cd s \<Longrightarrow> \<forall>kr \<in> set krs. accepted (ho_net ho) (host_handler ho) cd (snd kr) \<Longrightarrow>
     script_inv ho self cd (fold (seed_record ho) krs s)"
  by (induction krs arbitrary: s) (auto intro: seed_record_inv)

text \<open>What the crates provide for the records of the generator.\<close>

definition generator_ok :: "doc_lib \<Rightarrow> generator \<Rightarrow> bool" where
  "generator_ok lib gen \<longleftrightarrow> json_access_ok lib \<and>
     (\<forall>i. case gen i of ((dpk, dsk), kpk, uuid) \<Rightarrow>
        of_char (CHR '':'') \<notin> set uuid \<and> b64_roundtrip lib dpk \<and> signing_pair (dilithium2 lib) dpk dsk \<and>
        json_roundtrip lib (build_did_document lib (str_lit ''did:iiot:'' @ uuid) dpk kpk))"

lemma generated_record:
  assumes "generator_ok lib gen"
  shows "\<exists>k r. (case gen i of (keys, kpk, uuid) \<Rightarrow> rv_make_record lib keys kpk uuid) = Some (k, r) \<and>
    handle_signature_verification lib r = Inr True"
proof -
  obtain dpk dsk kpk uuid where g: "gen i = ((dpk, dsk), kpk, uuid)" by (metis surj_pair)
  then have ok: "of_char (CHR '':'') \<notin> set uuid" "json_access_ok lib" "b64_roundtrip lib dpk"
    "json_roundtrip lib (build_did_document lib (str_lit ''did:iiot:'' @ uuid) dpk kpk)" "signing_pair (dilithium2 lib) dpk dsk"
    using assms by (auto simp: generator_ok_def split: prod.splits)
  obtain r bs where r: "node_record lib dpk dsk kpk uuid = Some r"
    "record_parts r DilithiumSignatureVerifier (detached_sign (dilithium2 lib) bs dsk) bs" "public_key_from_did_doc lib bs = Inr dpk"
    by (rule built_record [OF ok(2-5)])
  have "handle_signature_verification lib r = Inr True"
    unfolding handle_signature_verification_def verify_self_signed_iff using r(2,3) signing_pair_verify [OF ok(5)] by blast
  then show ?thesis using g r(1) make_record_copies(2) [OF ok(1), of lib dpk dsk kpk] by simp
qed

lemma those_total: "\<forall>x \<in> set xs. f x \<noteq> None \<Longrightarrow> those (map f xs) = Some (map (the \<circ> f) xs)"
  by (induction xs) auto

text \<open>A generator that the demonstration library serves.\<close>

definition demo_generator :: generator where
  "demo_generator = (\<lambda>_. ((replicate 1312 1, []), [], str_lit ''1''))"

lemma demo_generator_ok: "generator_ok (ho_doc demo_host) demo_generator"
proof -
  have did: "str_lit ''did:iiot:'' @ str_lit ''1'' = str_lit ''did:iiot:1''" by (simp add: str_lit_def)
  have colon: "58 \<notin> set (str_lit ''1'')" by (simp add: str_lit_def)
  show ?thesis
    unfolding generator_ok_def demo_host_def demo_generator_def
    by (simp add: stamp_lib_access stamp_pair did stamp_doc_built json_roundtrip_def b64_roundtrip_def colon)
qed



end
