(* ===== verification/Topology.thy ===== *)
theory Topology
  imports Resilience
begin

text \<open>
  \<^verbatim>\<open>examples/topology_analysis.rs\<close>: a cluster of nodes in one process that publishes records, reads
  them back from other nodes and checks where they are stored; and the percentiles it shares with
  \<^verbatim>\<open>examples/cache_bench.rs\<close>. A node is a server with its port. Before every operation anything may
  happen to every node. Averages are not modelled; the printed tables are in \<open>Topology_Report\<close>. Keys are
  UUIDs of 36 ASCII characters, so the slices of keys made for messages of progress do not panic.
\<close>

section \<open>Percentiles\<close>

text \<open>
  \<open>(len as f64 * p / 100.0).ceil()\<close> for a whole number \<open>p\<close>: below \<open>2 ^ 46\<close> the rounding of the
  division cannot move the quotient across a whole number, so it is the exact quotient rounded up.
\<close>

definition ta_percentile :: "u64 list \<Rightarrow> nat \<Rightarrow> u64" where
  "ta_percentile xs p =
     (if xs = [] then 0
      else let idx = div_ceil (length xs * p) 100 - 1 in xs ! min idx (length xs - 1))"

definition cb_percentile :: "u64 list \<Rightarrow> nat \<Rightarrow> u64" where
  "cb_percentile xs p =
     (if xs = [] then 0
      else let idx = div_ceil (length xs * p) 100 - 1 in xs ! min idx (length xs - 1))"

text \<open>The average, a floating-point number, is left out.\<close>

definition latency_stats :: "u64 list \<Rightarrow> u64 \<times> u64 \<times> u64" where
  "latency_stats v =
     (let v = sort v
      in (ta_percentile v 50, ta_percentile v 95, if v = [] then 0 else last v))"

section \<open>The cluster\<close>

type_synonym cluster = "(server \<times> u16) list"

definition BASE_PORT :: u16 where
  "BASE_PORT = 15810"

definition NUM_NODES :: nat where
  "NUM_NODES = 30"

definition NUM_RECORDS :: nat where
  "NUM_RECORDS = 100"

definition ta_start_node :: "host \<Rightarrow> u16 \<Rightarrow> nat \<Rightarrow> nat \<Rightarrow> server option" where
  "ta_start_node ho port ksize alpha =
     (let server = fresh_server ho ksize alpha True;
          (ok, server1) = listen (ho_bind ho port (str_lit ''127.0.0.1'')) (ho_secs ho) server
      in if ok then Some server1 else None)"

text \<open>\<open>rnd i\<close> are the random bytes that the identifier of node \<open>i\<close> is made from.\<close>

definition start_nodes :: "host \<Rightarrow> (nat \<Rightarrow> bytes) \<Rightarrow> nat \<Rightarrow> nat \<Rightarrow> cluster option" where
  "start_nodes ho rnd ksize alpha =
     those (map (\<lambda>i. let port = BASE_PORT + word_of_nat i
                      in map_option (\<lambda>s. (s, port)) (ta_start_node (ho\<lparr>ho_random := rnd i\<rparr>) port ksize alpha))
       [0..<NUM_NODES])"

definition settle :: "host \<Rightarrow> cluster \<Rightarrow> cluster" where
  "settle ho nodes = map (apfst (pause ho)) nodes"

text \<open>One pass: every node but the first contacts the first.\<close>

fun bootstrap_pass :: "host \<Rightarrow> nat list \<Rightarrow> cluster \<Rightarrow> cluster option" where
  "bootstrap_pass ho [] nodes = Some nodes"
| "bootstrap_pass ho (i # is) nodes =
     (let nodes1 = settle ho nodes
      in case bootstrap (ho_net ho) (ho_env ho) (ho_orders ho) [(str_lit ''127.0.0.1'', BASE_PORT)] (fst (nodes1 ! i)) of
           None \<Rightarrow> None
         | Some (_, s1) \<Rightarrow> bootstrap_pass ho is (nodes1[i := (s1, snd (nodes1 ! i))]))"

section \<open>Publishing and retrieving\<close>

record publish_counts =
  pc_published :: "(rust_str \<times> rust_str \<times> bytes) list"
  pc_set_ok :: nat
  pc_set_fail :: nat
  pc_set_latencies :: "u64 list"

text \<open>
  Whether an operation takes longer than its timeout and how long it takes is decided by \<open>tk\<close>; the
  nanoseconds are truncated to 64 bits.
\<close>

definition publish_one ::
  "host \<Rightarrow> cluster tasks \<Rightarrow> nat \<Rightarrow> rust_str \<times> rust_str \<times> bytes \<Rightarrow> publish_counts \<Rightarrow> cluster \<Rightarrow> publish_counts \<times> cluster" where
  "publish_one ho tk i rec c nodes =
     (let (did, key, r) = rec;
          nodes1 = settle ho nodes;
          w = i mod NUM_NODES;
          ns = word_of_nat (tk_elapsed tk nodes1);
          failed = c\<lparr>pc_set_fail := pc_set_fail c + 1\<rparr>
      in if tk_late tk nodes1 then (failed, settle ho nodes1)
         else
           (case sv_set (ho_net ho) (ho_env ho) (ho_orders ho) key r (fst (nodes1 ! w)) of
              None \<Rightarrow> (failed, settle ho nodes1)
            | Some (res, s1) \<Rightarrow>
                (if res = Some True
                 then c\<lparr>pc_set_ok := pc_set_ok c + 1, pc_set_latencies := pc_set_latencies c @ [ns], pc_published := pc_published c @ [rec]\<rparr>
                 else failed,
                 nodes1[w := (s1, snd (nodes1 ! w))])))"

record retrieve_counts =
  rc_get_ok :: nat
  rc_get_fail :: nat
  rc_get_corrupt :: nat
  rc_get_latencies :: "u64 list"

definition retrieve_one ::
  "host \<Rightarrow> cluster tasks \<Rightarrow> nat \<Rightarrow> rust_str \<times> rust_str \<times> bytes \<Rightarrow> retrieve_counts \<Rightarrow> cluster \<Rightarrow> retrieve_counts \<times> cluster" where
  "retrieve_one ho tk i rec c nodes =
     (let (did, key, original) = rec;
          nodes1 = settle ho nodes;
          reader_idx = (i + NUM_NODES div 2) mod NUM_NODES;
          ns = word_of_nat (tk_elapsed tk nodes1);
          failed = c\<lparr>rc_get_fail := rc_get_fail c + 1\<rparr>
      in if tk_late tk nodes1 then (failed, settle ho nodes1)
         else
           (case sv_get (ho_net ho) (ho_env ho) (ho_orders ho) key (fst (nodes1 ! reader_idx)) of
              None \<Rightarrow> (failed, settle ho nodes1)
            | Some (None, s1) \<Rightarrow> (failed, nodes1[reader_idx := (s1, snd (nodes1 ! reader_idx))])
            | Some (Some retrieved, s1) \<Rightarrow>
                (let c1 = c\<lparr>rc_get_latencies := rc_get_latencies c @ [ns]\<rparr>
                 in if retrieved = original then c1\<lparr>rc_get_ok := rc_get_ok c1 + 1\<rparr>
                    else c1\<lparr>rc_get_corrupt := rc_get_corrupt c1 + 1\<rparr>,
                 nodes1[reader_idx := (s1, snd (nodes1 ! reader_idx))])))"

text \<open>A numbered pass over a list, and the whole run with the verdict.\<close>

fun for_enumerated :: "(nat \<Rightarrow> 'a \<Rightarrow> 'c \<Rightarrow> 's \<Rightarrow> 'c \<times> 's) \<Rightarrow> nat \<Rightarrow> 'a list \<Rightarrow> 'c \<Rightarrow> 's \<Rightarrow> 'c \<times> 's" where
  "for_enumerated body i [] c s = (c, s)"
| "for_enumerated body i (x # xs) c s = (let (c1, s1) = body i x c s in for_enumerated body (i + 1) xs c1 s1)"

definition ta_arg :: "rust_str list \<Rightarrow> nat \<Rightarrow> nat \<Rightarrow> nat" where
  "ta_arg args i dflt =
     (case (if i < length args then parse_unsigned (2 ^ 64) (args ! i) else None) of Some n \<Rightarrow> n | None \<Rightarrow> dflt)"

definition ta_run ::
  "host \<Rightarrow> rust_str list \<Rightarrow> (nat \<Rightarrow> bytes) \<Rightarrow> generator \<Rightarrow> cluster tasks \<Rightarrow>
   (bool \<times> publish_counts \<times> retrieve_counts \<times> cluster) script_result" where
  "ta_run ho args rnd gen tk =
     (let ksize = ta_arg args 1 20; alpha = ta_arg args 2 3
      in case start_nodes ho rnd ksize alpha of
           None \<Rightarrow> Some (Inl Panicked)
         | Some nodes \<Rightarrow>
             (case Option.bind (bootstrap_pass ho [1..<NUM_NODES] nodes) (\<lambda>nodes. bootstrap_pass ho [1..<NUM_NODES] (settle ho nodes)) of
                None \<Rightarrow> None
              | Some nodes \<Rightarrow>
                  (case those (map (\<lambda>i. case gen i of (keys, kpk, uuid) \<Rightarrow> ta_new_record (ho_doc ho) keys kpk uuid) [0..<NUM_RECORDS]) of
                     None \<Rightarrow> Some (Inl Panicked)
                   | Some recs \<Rightarrow>
                       let (pc, nodes) = for_enumerated (publish_one ho tk) 0 recs
                             \<lparr>pc_published = [], pc_set_ok = 0, pc_set_fail = 0, pc_set_latencies = []\<rparr> (settle ho nodes);
                           (rc, nodes) = for_enumerated (retrieve_one ho tk) 0 (pc_published pc)
                             \<lparr>rc_get_ok = 0, rc_get_fail = 0, rc_get_corrupt = 0, rc_get_latencies = []\<rparr> nodes
                       in Some (Inr (rc_get_fail rc = 0 \<and> rc_get_corrupt rc = 0 \<and> pc_set_fail pc = 0, pc, rc, nodes)))))"

section \<open>Where the records are\<close>

text \<open>\<open>storage.get\<close> and \<open>storage.iter_all\<close> of a node; \<open>hex\<close> is \<open>hex::encode\<close>.\<close>

definition node_reads :: "server \<Rightarrow> bytes \<Rightarrow> bytes option" where
  "node_reads s dkey = st_get (sv_clock s) dkey (sv_store s)"

definition node_keys :: "host \<Rightarrow> server \<Rightarrow> bytes list" where
  "node_keys ho s = map fst (st_iter_all (sv_clock s) (ev_keys (ho_env ho) (sv_store s)) (sv_store s))"

definition push_holder :: "rust_str \<Rightarrow> u16 \<Rightarrow> (rust_str \<rightharpoonup> u16 list) \<Rightarrow> (rust_str \<rightharpoonup> u16 list)" where
  "push_holder k port kh = kh(k \<mapsto> (case kh k of Some ports \<Rightarrow> ports | None \<Rightarrow> []) @ [port])"

definition key_holders :: "host \<Rightarrow> (bytes \<Rightarrow> rust_str) \<Rightarrow> cluster \<Rightarrow> (rust_str \<rightharpoonup> u16 list)" where
  "key_holders ho hex nodes =
     fold (\<lambda>(server, port) kh. fold (\<lambda>k. push_holder k port) (map hex (node_keys ho server)) kh) nodes Map.empty"

text \<open>
  The number of keys for every number of copies; \<open>ks\<close> is the order in which the keys of the hash map
  are visited.
\<close>

definition copy_distribution :: "rust_str list \<Rightarrow> (rust_str \<rightharpoonup> u16 list) \<Rightarrow> (nat \<rightharpoonup> nat)" where
  "copy_distribution ks kh =
     fold (\<lambda>k dist. case kh k of
         None \<Rightarrow> dist
       | Some holders \<Rightarrow> dist(length holders \<mapsto> (case dist (length holders) of Some n \<Rightarrow> n | None \<Rightarrow> 0) + 1)) ks Map.empty"

record xor_check =
  xc_k_closest :: "u16 list"
  xc_holding :: "u16 list"
  xc_missing :: "u16 list"
  xc_extras :: "u16 list"

datatype xor_status = FullOk | PartialOk | NoneOk

definition key_distance :: "bytes \<Rightarrow> server \<Rightarrow> u128" where
  "key_distance dkey s = distance_to (from_id (node_id (sv_node s))) (from_id dkey)"

text \<open>The first node with a port; the ports that are looked up are those of the nodes.\<close>

definition holds_at :: "cluster \<Rightarrow> bytes \<Rightarrow> u16 \<Rightarrow> bool" where
  "holds_at nodes dkey port =
     (case List.find (\<lambda>(_, p). p = port) nodes of Some (s, _) \<Rightarrow> node_reads s dkey \<noteq> None | None \<Rightarrow> False)"

definition check_record :: "cluster \<Rightarrow> nat \<Rightarrow> bytes \<Rightarrow> xor_check" where
  "check_record nodes ksize dkey =
     (let by_dist = sort_key fst (map (\<lambda>(s, port). (key_distance dkey s, port)) nodes);
          k_closest = map snd (take ksize by_dist)
      in \<lparr>xc_k_closest = k_closest,
          xc_holding = filter (holds_at nodes dkey) k_closest,
          xc_missing = filter (\<lambda>port. \<not> holds_at nodes dkey port) k_closest,
          xc_extras = map snd (filter (\<lambda>(s, port). port \<notin> set k_closest \<and> node_reads s dkey \<noteq> None) nodes)\<rparr>)"

definition status_of :: "xor_check \<Rightarrow> xor_status" where
  "status_of c = (if xc_missing c = [] then FullOk else if xc_holding c \<noteq> [] then PartialOk else NoneOk)"

text \<open>The counts of the three results on the first twenty records.\<close>

definition verify_xor_correctness ::
  "(bytes \<Rightarrow> bytes) \<Rightarrow> cluster \<Rightarrow> (rust_str \<times> rust_str \<times> bytes) list \<Rightarrow> nat \<Rightarrow> nat \<times> nat \<times> nat" where
  "verify_xor_correctness sha1 nodes published ksize =
     (let check_n = min (length published) 20
      in fold (\<lambda>(_, key_str, _) (full_ok, partial_ok, none_ok).
             case status_of (check_record nodes ksize (digest sha1 key_str)) of
               FullOk \<Rightarrow> (full_ok + 1, partial_ok, none_ok)
             | PartialOk \<Rightarrow> (full_ok, partial_ok + 1, none_ok)
             | NoneOk \<Rightarrow> (full_ok, partial_ok, none_ok + 1))
           (take check_n published) (0, 0, 0))"

text \<open>The totals of \<open>print_bucket_structure\<close> and the peer lists of \<open>print_routing_tables\<close>.\<close>

definition bucket_totals :: "cluster \<Rightarrow> nat \<times> nat" where
  "bucket_totals nodes =
     fold (\<lambda>(server, _) (total_buckets, total_peers).
         case sv_protocol server of
           None \<Rightarrow> (total_buckets, total_peers)
         | Some proto \<Rightarrow>
             let buckets = rt_buckets (pr_router proto);
                 peer_count = sum_list (map kb_len buckets)
             in (total_buckets + length buckets, total_peers + peer_count))
       nodes (0, 0)"

definition known_peers :: "server \<Rightarrow> node list" where
  "known_peers server =
     (case sv_protocol server of
        None \<Rightarrow> []
      | Some proto \<Rightarrow>
          sort_key (\<lambda>n. case node_port n of Some port \<Rightarrow> port | None \<Rightarrow> 0)
            (concat (map kb_nodes (rt_buckets (pr_router proto)))))"

section \<open>The percentiles are the nearest ranks\<close>

lemma div_ceil_bounds:
  assumes "0 < a" and "0 < b"
  shows "0 < div_ceil a b" "a \<le> b * div_ceil a b" "b * (div_ceil a b - 1) < a"
proof -
  define q r where "q = a div b" and "r = a mod b"
  have e: "a = b * q + r" "r < b" unfolding q_def r_def using assms by (simp_all add: mult_div_mod_eq)
  have c: "div_ceil a b = (if r > 0 then q + 1 else q)" by (simp add: div_ceil_def q_def r_def)
  have z: "r = 0 \<Longrightarrow> 0 < q" using e assms by (cases q) auto
  show "0 < div_ceil a b" "a \<le> b * div_ceil a b" unfolding c using z e by auto
  show "b * (div_ceil a b - 1) < a" unfolding c using z e assms(2) by (cases q) auto
qed

lemma sorted_rank:
  fixes ys :: "'a::linorder list"
  assumes "sorted ys" and "i < length ys"
  shows "Suc i \<le> length (filter (\<lambda>x. x \<le> ys ! i) ys)" "length (filter (\<lambda>x. x < ys ! i) ys) \<le> i"
proof -
  have below: "filter (\<lambda>x. x \<le> ys ! i) (take (Suc i) ys) = take (Suc i) ys"
    using assms by (auto simp: filter_id_conv in_set_conv_nth intro!: sorted_nth_mono)
  have above: "filter (\<lambda>x. x < ys ! i) (drop i ys) = []"
    using assms by (auto simp: filter_empty_conv in_set_conv_nth not_less intro!: sorted_nth_mono)
  have "length (filter (\<lambda>x. x \<le> ys ! i) ys) =
      length (filter (\<lambda>x. x \<le> ys ! i) (take (Suc i) ys)) + length (filter (\<lambda>x. x \<le> ys ! i) (drop (Suc i) ys))"
    by (metis append_take_drop_id filter_append length_append)
  then show "Suc i \<le> length (filter (\<lambda>x. x \<le> ys ! i) ys)" using below assms(2) by simp
  have "length (filter (\<lambda>x. x < ys ! i) ys) =
      length (filter (\<lambda>x. x < ys ! i) (take i ys)) + length (filter (\<lambda>x. x < ys ! i) (drop i ys))"
    by (metis append_take_drop_id filter_append length_append)
  then show "length (filter (\<lambda>x. x < ys ! i) ys) \<le> i"
    using above length_filter_le [of "\<lambda>x. x < ys ! i" "take i ys"] by simp
qed

lemma length_filter_sort: "length (filter P (sort xs)) = length (filter P xs)"
  by (metis mset_filter mset_sort size_mset)

text \<open>
  C36. The percentile of both programs is the nearest rank: a sample such that at least \<open>p\<close> percent of
  the samples are at most as large and less than \<open>p\<close> percent are smaller.
\<close>

theorem percentile_nearest_rank:
  assumes "xs \<noteq> []" and "0 < p" and "p \<le> 100"
  shows "let v = ta_percentile (sort xs) p
    in v \<in> set xs \<and> length xs * p \<le> 100 * length (filter (\<lambda>x. x \<le> v) xs) \<and>
       100 * length (filter (\<lambda>x. x < v) xs) < length xs * p \<and> cb_percentile (sort xs) p = v"
proof -
  let ?ys = "sort xs" and ?m = "div_ceil (length xs * p) 100"
  have m: "0 < ?m" "length xs * p \<le> 100 * ?m" "100 * (?m - 1) < length xs * p"
    using div_ceil_bounds [of "length xs * p" 100] assms by auto
  have "100 * (?m - 1) < length xs * 100" using m(3) mult_le_mono2 [OF assms(3), of "length xs"] by (rule less_le_trans)
  then have i: "?m - 1 < length ?ys" by (simp add: mult.commute)
  have "?ys \<noteq> []" using i by force
  then have v: "ta_percentile ?ys p = ?ys ! (?m - 1)" using i by (simp add: ta_percentile_def Let_def min_def)
  have "cb_percentile ?ys p = ta_percentile ?ys p" by (simp add: cb_percentile_def ta_percentile_def)
  moreover have "?ys ! (?m - 1) \<in> set xs" using nth_mem [OF i] by simp
  ultimately show ?thesis
    using sorted_rank [OF sorted_sort i] m unfolding v Let_def length_filter_sort by auto
qed

theorem percentile_nearest_rank_witness: "ta_percentile (sort [3, 1, 2]) 50 \<in> set [3, 1, 2]"
  using percentile_nearest_rank [of "[3, 1, 2]" 50] by (simp only: Let_def) simp

section \<open>The placement check\<close>

lemma holds_at_node:
  assumes "distinct (map snd nodes)" and "(s, port) \<in> set nodes"
  shows "holds_at nodes dkey port \<longleftrightarrow> node_reads s dkey \<noteq> None"
proof -
  have "List.find (\<lambda>(_, p). p = port) nodes = Some (s, port)"
    using assms by (induction nodes) (auto simp: image_iff split: prod.splits)
  then show ?thesis by (simp add: holds_at_def)
qed

text \<open>Taking the first \<open>k\<close> of a list sorted by its keys separates the smaller keys from the larger ones.\<close>

lemma take_sort_key:
  fixes qs :: "('a::linorder \<times> 'b) list"
  assumes "distinct (map snd qs)" and "(d, x) \<in> set qs" and "(d', y) \<in> set qs"
    and "x \<in> set (map snd (take k (sort_key fst qs)))" and "y \<notin> set (map snd (take k (sort_key fst qs)))"
  shows "d \<le> d'"
proof -
  let ?ys = "sort_key fst qs"
  obtain e where e: "(e, x) \<in> set (take k ?ys)" using assms(4) by auto
  then have "(e, x) \<in> set qs" using set_take_subset by force
  then have "e = d" using assms(1,2) inj_onD [of snd "set qs" "(e, x)" "(d, x)"] by (simp add: distinct_map)
  moreover have "(d', y) \<in> set (take k ?ys @ drop k ?ys)" using assms(3) by simp
  then have "(d', y) \<in> set (drop k ?ys)" using assms(5) by (force simp del: append_take_drop_id)
  moreover have "sorted (map fst (take k ?ys) @ map fst (drop k ?ys))"
    by (metis append_take_drop_id map_append sorted_sort_key)
  ultimately show ?thesis using e by (force simp: sorted_append)
qed

lemma k_closest_ports:
  assumes "distinct (map snd nodes)" and "kc = xc_k_closest (check_record nodes k dkey)"
  shows "length kc = min k (length nodes)" "distinct kc" "set kc \<subseteq> snd ` set nodes"
proof -
  let ?qs = "map (\<lambda>(s, port). (key_distance dkey s, port)) nodes"
  have kc: "kc = take k (map snd (sort_key fst ?qs))" by (simp add: assms(2) check_record_def Let_def take_map)
  have ports: "map snd ?qs = map snd nodes" by (simp add: comp_def case_prod_beta)
  have "mset (map snd (sort_key fst ?qs)) = mset (map snd ?qs)" by (simp only: mset_map mset_sort)
  then have same: "mset (map snd (sort_key fst ?qs)) = mset (map snd nodes)" unfolding ports .
  have d: "distinct (map snd (sort_key fst ?qs))" "set (map snd (sort_key fst ?qs)) = snd ` set nodes"
    using mset_eq_imp_distinct_iff [OF same] mset_eq_setD [OF same] assms(1) by simp_all
  show "length kc = min k (length nodes)" unfolding kc by (simp add: min.commute)
  show "distinct kc" unfolding kc using d(1) by (rule distinct_take)
  show "set kc \<subseteq> snd ` set nodes" unfolding kc using d(2) set_take_subset [of k "map snd (sort_key fst ?qs)"] by simp
qed

text \<open>
  C28. The placement check is right about every record: the nodes it calls closest are as many as asked
  for, no node outside is closer to the key than one inside, the check is full exactly when all of
  them can read the record, it fails exactly when none of them can, and the extra holders are the
  other nodes that can.
\<close>

theorem check_record_correct:
  assumes "distinct (map snd nodes)" and "c = check_record nodes k dkey"
  shows "length (xc_k_closest c) = min k (length nodes) \<and>
    (\<forall>(s, p) \<in> set nodes. \<forall>(s', p') \<in> set nodes.
       p \<in> set (xc_k_closest c) \<longrightarrow> p' \<notin> set (xc_k_closest c) \<longrightarrow> key_distance dkey s \<le> key_distance dkey s') \<and>
    (status_of c = FullOk \<longleftrightarrow> (\<forall>(s, p) \<in> set nodes. p \<in> set (xc_k_closest c) \<longrightarrow> node_reads s dkey \<noteq> None)) \<and>
    (status_of c = NoneOk \<longleftrightarrow>
       xc_k_closest c \<noteq> [] \<and> (\<forall>(s, p) \<in> set nodes. p \<in> set (xc_k_closest c) \<longrightarrow> node_reads s dkey = None)) \<and>
    set (xc_extras c) = {p. \<exists>s. (s, p) \<in> set nodes \<and> p \<notin> set (xc_k_closest c) \<and> node_reads s dkey \<noteq> None}"
proof (intro conjI)
  let ?kc = "xc_k_closest c" and ?qs = "map (\<lambda>(s, port). (key_distance dkey s, port)) nodes"
  note kc = k_closest_ports [OF assms(1), of ?kc k dkey]
  have sub: "set ?kc \<subseteq> snd ` set nodes" using kc(3) assms(2) by simp
  have parts: "xc_missing c = filter (\<lambda>port. \<not> holds_at nodes dkey port) ?kc" "xc_holding c = filter (holds_at nodes dkey) ?kc"
    "?kc = map snd (take k (sort_key fst ?qs))"
    by (simp_all add: assms(2) check_record_def Let_def)
  have each: "(\<forall>port \<in> set ?kc. P (holds_at nodes dkey port)) \<longleftrightarrow>
      (\<forall>(s, p) \<in> set nodes. p \<in> set ?kc \<longrightarrow> P (node_reads s dkey \<noteq> None))" for P
    using sub holds_at_node [OF assms(1)] by (auto simp: subset_iff image_iff) force
  show "length ?kc = min k (length nodes)" using kc(1) assms(2) by simp
  have ports: "distinct (map snd ?qs)" using assms(1) by (simp add: comp_def case_prod_beta)
  show "\<forall>(s, p) \<in> set nodes. \<forall>(s', p') \<in> set nodes. p \<in> set ?kc \<longrightarrow> p' \<notin> set ?kc \<longrightarrow> key_distance dkey s \<le> key_distance dkey s'"
  proof (clarify)
    fix s p s' p'
    assume "(s, p) \<in> set nodes" "(s', p') \<in> set nodes" "p \<in> set ?kc" "p' \<notin> set ?kc"
    then show "key_distance dkey s \<le> key_distance dkey s'"
      using take_sort_key [OF ports, of "key_distance dkey s" p "key_distance dkey s'" p' k] parts(3) by force
  qed
  show "status_of c = FullOk \<longleftrightarrow> (\<forall>(s, p) \<in> set nodes. p \<in> set ?kc \<longrightarrow> node_reads s dkey \<noteq> None)"
    using each [of "\<lambda>b. b"] by (simp add: status_of_def parts(1) filter_empty_conv)
  have "status_of c = NoneOk \<longleftrightarrow> ?kc \<noteq> [] \<and> (\<forall>port \<in> set ?kc. \<not> holds_at nodes dkey port)"
    unfolding status_of_def parts(1,2) filter_empty_conv by (cases "?kc = []") (auto dest: list.set_sel(1))
  then show "status_of c = NoneOk \<longleftrightarrow> ?kc \<noteq> [] \<and> (\<forall>(s, p) \<in> set nodes. p \<in> set ?kc \<longrightarrow> node_reads s dkey = None)"
    using each [of Not] by simp
  show "set (xc_extras c) = {p. \<exists>s. (s, p) \<in> set nodes \<and> p \<notin> set ?kc \<and> node_reads s dkey \<noteq> None}"
  proof -
    have "xc_extras c = map snd (filter (\<lambda>(s, port). port \<notin> set ?kc \<and> node_reads s dkey \<noteq> None) nodes)"
      by (simp add: assms(2) check_record_def Let_def)
    then show ?thesis by force
  qed
qed

theorem check_record_correct_witness:
  "length (xc_k_closest (check_record [(fresh_server demo_host 20 3 True, 1), (fresh_server demo_host 20 3 True, 2)] 1 demo_key)) = 1"
  using check_record_correct [of "[(fresh_server demo_host 20 3 True, 1), (fresh_server demo_host 20 3 True, 2)]" _ 1 demo_key, OF _ refl]
  by simp

lemma verify_xor_total:
  "(case verify_xor_correctness sha1 nodes published k of (full_ok, partial_ok, none_ok) \<Rightarrow> full_ok + partial_ok + none_ok) =
     min (length published) 20"
proof -
  let ?f = "\<lambda>(_, key_str, _) (full_ok, partial_ok, none_ok).
             case status_of (check_record nodes k (digest sha1 key_str)) of
               FullOk \<Rightarrow> (full_ok + 1, partial_ok, none_ok)
             | PartialOk \<Rightarrow> (full_ok, partial_ok + 1, none_ok)
             | NoneOk \<Rightarrow> (full_ok, partial_ok, none_ok + (1::nat))"
  have "(case fold ?f rs (a, b, c) of (x, y, z) \<Rightarrow> x + y + z) = length rs + (a + b + c)" for rs :: "(rust_str \<times> rust_str \<times> bytes) list" and a b c
    by (induction rs arbitrary: a b c) (auto split: xor_status.splits)
  from this [of "take (min (length published) 20) published" 0 0 0] show ?thesis
    by (simp add: verify_xor_correctness_def Let_def)
qed

section \<open>The table of holders\<close>

lemma push_holders:
  "distinct ks \<Longrightarrow> fold (\<lambda>k. push_holder k port) ks kh k =
     (if k \<in> set ks then Some ((case kh k of Some ports \<Rightarrow> ports | None \<Rightarrow> []) @ [port]) else kh k)"
  by (induction ks arbitrary: kh) (auto simp: push_holder_def)

lemma node_keys_readable:
  assumes "set (ev_keys (ho_env ho) (sv_store s)) = dom (st_data (sv_store s))" and "distinct (ev_keys (ho_env ho) (sv_store s))"
  shows "distinct (node_keys ho s)" "k \<in> set (node_keys ho s) \<longleftrightarrow> node_reads s k \<noteq> None"
proof -
  have "map fst (st_iter_all now ks st) = filter (\<lambda>k. st_get now k st \<noteq> None) ks" for now ks st
    by (induction ks) (auto simp: st_iter_all_def st_entries_def st_get_def st_get_default_def split: option.splits)
  then have e: "node_keys ho s = filter (\<lambda>k. node_reads s k \<noteq> None) (ev_keys (ho_env ho) (sv_store s))"
    by (simp add: node_keys_def node_reads_def)
  show "distinct (node_keys ho s)" unfolding e using assms(2) by simp
  have "node_reads s k \<noteq> None \<Longrightarrow> k \<in> dom (st_data (sv_store s))"
    by (auto simp: node_reads_def st_get_def st_get_default_def split: option.splits)
  then show "k \<in> set (node_keys ho s) \<longleftrightarrow> node_reads s k \<noteq> None" unfolding e using assms(1) by auto
qed

text \<open>
  When the stores are enumerated completely and the printed keys are different for different keys,
  the table lists for every key the ports of exactly the nodes that can read it, in order.
\<close>

theorem key_holders_correct:
  assumes "\<forall>(s, p) \<in> set nodes. set (ev_keys (ho_env ho) (sv_store s)) = dom (st_data (sv_store s)) \<and>
      distinct (ev_keys (ho_env ho) (sv_store s))" and "inj hex"
  shows "key_holders ho hex nodes (hex k) =
    (case map snd (filter (\<lambda>(s, p). node_reads s k \<noteq> None) nodes) of [] \<Rightarrow> None | ps \<Rightarrow> Some ps)"
proof -
  let ?step = "\<lambda>(s, p) kh. fold (\<lambda>k. push_holder k p) (map hex (node_keys ho s)) kh"
  let ?ps = "\<lambda>ns. map snd (filter (\<lambda>(s, p). node_reads s k \<noteq> None) ns)"
  have "fold ?step ns kh (hex k) =
      (if ?ps ns = [] then kh (hex k) else Some ((case kh (hex k) of Some ports \<Rightarrow> ports | None \<Rightarrow> []) @ ?ps ns))"
    if "set ns \<subseteq> set nodes" for ns kh
    using that
  proof (induction ns arbitrary: kh)
    case (Cons n ns)
    obtain s p where n: "n = (s, p)" by fastforce
    have keys: "set (ev_keys (ho_env ho) (sv_store s)) = dom (st_data (sv_store s))" "distinct (ev_keys (ho_env ho) (sv_store s))"
      using bspec [OF assms(1), of "(s, p)"] Cons.prems n by simp_all
    have "distinct (map hex (node_keys ho s))"
      using node_keys_readable(1) [OF keys] assms(2) by (auto simp: distinct_map intro: inj_on_subset)
    moreover have "hex k \<in> set (map hex (node_keys ho s)) \<longleftrightarrow> node_reads s k \<noteq> None"
      using node_keys_readable(2) [OF keys] assms(2) by (simp add: inj_image_mem_iff)
    moreover define kh1 where "kh1 = ?step n kh"
    ultimately have one: "kh1 (hex k) = (if node_reads s k \<noteq> None
        then Some ((case kh (hex k) of Some ports \<Rightarrow> ports | None \<Rightarrow> []) @ [p]) else kh (hex k))"
      using push_holders [of "map hex (node_keys ho s)" p kh "hex k"] unfolding n by simp
    have "fold ?step (n # ns) kh = fold ?step ns kh1" by (simp add: kh1_def)
    then show ?case using Cons.IH [of kh1] Cons.prems one by (simp add: n)
  qed simp
  from this [of nodes Map.empty] show ?thesis by (auto simp: key_holders_def split: list.split)
qed

section \<open>The run\<close>

lemma for_enumerated_rule:
  assumes "for_enumerated body i xs c s = (c', s')" and "P 0 c s"
    and step: "\<And>j c s c1 s1. j < length xs \<Longrightarrow> P j c s \<Longrightarrow> body (i + j) (xs ! j) c s = (c1, s1) \<Longrightarrow> P (Suc j) c1 s1"
  shows "P (length xs) c' s'"
  using assms
proof (induction xs arbitrary: i c s P)
  case (Cons x xs)
  obtain c1 s1 where b: "body i x c s = (c1, s1)" by fastforce
  have "P (Suc (length xs)) c' s'"
  proof (rule Cons.IH [of "i + 1" c1 s1 "\<lambda>j. P (Suc j)"], goal_cases start first step)
    case start
    then show ?case using Cons.prems(1) b by simp
  next
    case first
    then show ?case using Cons.prems(3) [of 0 c s c1 s1] Cons.prems(2) b by simp
  next
    case (step j c2 s2 c3 s3)
    then show ?case using Cons.prems(3) [of "Suc j" c2 s2 c3 s3] by simp
  qed
  then show ?case by simp
qed simp

definition nodes_inv :: "host \<Rightarrow> cluster \<Rightarrow> bool" where
  "nodes_inv ho nodes \<longleftrightarrow> length nodes = NUM_NODES \<and> (\<forall>n \<in> set nodes. script_inv ho (sv_node (fst n)) True (fst n))"

lemma nodes_inv_nth: "nodes_inv ho nodes \<Longrightarrow> i < NUM_NODES \<Longrightarrow> script_inv ho (sv_node (fst (nodes ! i))) True (fst (nodes ! i))"
  by (simp add: nodes_inv_def)

lemma nodes_inv_settle: "nodes_inv ho nodes \<Longrightarrow> nodes_inv ho (settle ho nodes)"
proof -
  have "sv_node (pause ho s) = sv_node s" for s by (simp add: pause_def split: option.split)
  then show "nodes_inv ho nodes \<Longrightarrow> nodes_inv ho (settle ho nodes)"
    by (simp add: nodes_inv_def settle_def script_inv_pause)
qed

lemma nodes_inv_update:
  "nodes_inv ho nodes \<Longrightarrow> script_inv ho self True s \<Longrightarrow> nodes_inv ho (nodes[i := (s, p)])"
proof -
  assume n: "nodes_inv ho nodes" and s: "script_inv ho self True s"
  have "script_inv ho (sv_node (fst n)) True (fst n)" if mem: "n \<in> insert (s, p) (set nodes)" for n
    using mem n s script_invD(5) [OF s] by (cases "n = (s, p)") (simp_all add: nodes_inv_def)
  then have "\<forall>n \<in> set (nodes[i := (s, p)]). script_inv ho (sv_node (fst n)) True (fst n)"
    using set_update_subset_insert [of nodes i "(s, p)"] by blast
  with n show ?thesis by (simp add: nodes_inv_def)
qed

lemma bootstrap_pass_returns:
  "nodes_inv ho nodes \<Longrightarrow> \<forall>i \<in> set is. i < NUM_NODES \<Longrightarrow> \<exists>nodes'. bootstrap_pass ho is nodes = Some nodes' \<and> nodes_inv ho nodes'"
proof (induction "is" arbitrary: nodes)
  case (Cons i js)
  let ?n = "settle ho nodes"
  have n: "nodes_inv ho ?n" by (rule nodes_inv_settle [OF Cons.prems(1)])
  obtain ns s where b: "bootstrap (ho_net ho) (ho_env ho) (ho_orders ho) [(str_lit ''127.0.0.1'', BASE_PORT)] (fst (?n ! i)) = Some (ns, s)"
    "script_inv ho (sv_node (fst (?n ! i))) True s"
    using script_ops(1) [OF nodes_inv_nth [OF n, of i], of "[(str_lit ''127.0.0.1'', BASE_PORT)]"] Cons.prems(2) by auto
  then show ?case using Cons.IH [OF nodes_inv_update [OF n b(2)]] Cons.prems(2) by (simp add: Let_def)
qed simp

lemma start_nodes_inv:
  assumes "\<And>self. host_ok ho self True" and "start_nodes ho rnd k a = Some nodes"
  shows "nodes_inv ho nodes"
proof -
  have started: "script_inv ho (sv_node s) True s" if st: "ta_start_node (ho\<lparr>ho_random := rb\<rparr>) port k a = Some s" for rb port s
  proof -
    let ?h = "ho\<lparr>ho_random := rb\<rparr>"
    have same: "script_inv ?h self True q = script_inv ho self True q" for self q
      by (simp add: script_inv_def host_ok_def host_handler_def)
    have "host_ok ?h self True" for self using assms(1) by (simp add: host_ok_def host_handler_def)
    moreover have "s = snd (listen True (ho_secs ?h) (fresh_server ?h k a True))"
      using st by (auto simp: ta_start_node_def Let_def listen_def split: if_splits)
    ultimately have "script_inv ?h (sv_node (fresh_server ?h k a True)) True s" using fresh_server_inv by blast
    then show ?thesis using script_invD(5) same by metis
  qed
  let ?mk = "\<lambda>i. let port = BASE_PORT + word_of_nat i
                      in map_option (\<lambda>s. (s, port)) (ta_start_node (ho\<lparr>ho_random := rnd i\<rparr>) port k a)"
  have l: "list_all2 (\<lambda>i n. ?mk i = Some n) [0..<NUM_NODES] nodes"
    using assms(2) unfolding start_nodes_def those_map [symmetric] .
  have "script_inv ho (sv_node (fst (nodes ! i))) True (fst (nodes ! i))" if i: "i < length nodes" for i
  proof -
    obtain s port where "nodes ! i = (s, port)" "ta_start_node (ho\<lparr>ho_random := rnd ([0..<NUM_NODES] ! i)\<rparr>) port k a = Some s"
      using list_all2_nthD2 [OF l i] by (cases "nodes ! i") (auto simp: Let_def)
    then show ?thesis using started by simp
  qed
  then show ?thesis using list_all2_lengthD [OF l] by (simp add: nodes_inv_def all_set_conv_all_nth)
qed

definition publish_ok :: "host \<Rightarrow> nat \<Rightarrow> publish_counts \<Rightarrow> cluster \<Rightarrow> bool" where
  "publish_ok ho j c nodes \<longleftrightarrow> nodes_inv ho nodes \<and> pc_set_ok c + pc_set_fail c = j \<and>
     length (pc_published c) = pc_set_ok c \<and> length (pc_set_latencies c) = pc_set_ok c \<and>
     (\<forall>(did, key, r) \<in> set (pc_published c). verified (ho_net ho) (host_handler ho) True key r)"

lemma publish_one_ok:
  assumes "publish_ok ho j c nodes" and "publish_one ho tk i rec c nodes = (c1, nodes1)"
  shows "publish_ok ho (Suc j) c1 nodes1"
proof -
  let ?n = "settle ho nodes" and ?w = "i mod NUM_NODES"
  obtain did key r where r: "rec = (did, key, r)" by (metis surj_pair)
  have n: "nodes_inv ho ?n" using assms(1) nodes_inv_settle by (auto simp: publish_ok_def)
  have w: "?w < NUM_NODES" by (simp add: NUM_NODES_def)
  obtain res s where set: "sv_set (ho_net ho) (ho_env ho) (ho_orders ho) key r (fst (?n ! ?w)) = Some (res, s)"
    "script_inv ho (sv_node (fst (?n ! ?w))) True s" "res \<noteq> None \<longrightarrow> verified (ho_net ho) (host_handler ho) True key r"
    using script_ops(3) [OF nodes_inv_nth [OF n w], of key r] by blast
  show ?thesis
    using assms(1) assms(2) [symmetric] set(3) nodes_inv_settle [OF n] nodes_inv_update [OF n set(2), of ?w "snd (?n ! ?w)"]
    by (auto simp: publish_ok_def publish_one_def Let_def r set(1) split: if_splits)
qed

definition retrieve_ok :: "host \<Rightarrow> nat \<Rightarrow> retrieve_counts \<Rightarrow> cluster \<Rightarrow> bool" where
  "retrieve_ok ho j c nodes \<longleftrightarrow> nodes_inv ho nodes \<and> rc_get_ok c + rc_get_fail c + rc_get_corrupt c = j \<and>
     length (rc_get_latencies c) = rc_get_ok c + rc_get_corrupt c"

lemma retrieve_one_ok:
  assumes "retrieve_ok ho j c nodes" and "retrieve_one ho tk i rec c nodes = (c1, nodes1)"
  shows "retrieve_ok ho (Suc j) c1 nodes1"
proof -
  let ?n = "settle ho nodes" and ?w = "(i + NUM_NODES div 2) mod NUM_NODES"
  obtain did key r where r: "rec = (did, key, r)" by (metis surj_pair)
  have n: "nodes_inv ho ?n" using assms(1) nodes_inv_settle by (auto simp: retrieve_ok_def)
  have w: "?w < NUM_NODES" by (simp add: NUM_NODES_def)
  obtain res s where get: "sv_get (ho_net ho) (ho_env ho) (ho_orders ho) key (fst (?n ! ?w)) = Some (res, s)"
    "script_inv ho (sv_node (fst (?n ! ?w))) True s"
    using script_ops(2) [OF nodes_inv_nth [OF n w], of key] by blast
  show ?thesis
    using assms(1) assms(2) [symmetric] nodes_inv_settle [OF n] nodes_inv_update [OF n get(2), of ?w "snd (?n ! ?w)"]
    by (auto simp: retrieve_ok_def retrieve_one_def Let_def r get(1) split: if_splits option.splits)
qed

lemma publish_phase_ok:
  assumes "nodes_inv ho nodes"
    and "for_enumerated (publish_one ho tk) 0 recs \<lparr>pc_published = [], pc_set_ok = 0, pc_set_fail = 0, pc_set_latencies = []\<rparr> nodes = (pc, nodes')"
  shows "publish_ok ho (length recs) pc nodes'"
proof (rule for_enumerated_rule [OF assms(2)], goal_cases)
  case 1
  show ?case using assms(1) by (simp add: publish_ok_def)
next
  case (2 j c s c1 s1)
  show ?case by (rule publish_one_ok [OF 2(2,3)])
qed

lemma retrieve_phase_ok:
  assumes "nodes_inv ho nodes"
    and "for_enumerated (retrieve_one ho tk) 0 recs \<lparr>rc_get_ok = 0, rc_get_fail = 0, rc_get_corrupt = 0, rc_get_latencies = []\<rparr> nodes = (rc, nodes')"
  shows "retrieve_ok ho (length recs) rc nodes'"
proof (rule for_enumerated_rule [OF assms(2)], goal_cases)
  case 1
  show ?case using assms(1) by (simp add: retrieve_ok_def)
next
  case (2 j c s c1 s1)
  show ?case by (rule retrieve_one_ok [OF 2(2,3)])
qed

lemma nodes_inv_stores:
  "nodes_inv ho nodes \<Longrightarrow> (s, port) \<in> set nodes \<Longrightarrow> fs.keeps (\<lambda>_. accepted (ho_net ho) (host_handler ho) True) (sv_store s)"
  using sv_invD(2) [OF script_invD(4), of ho "sv_node s" True s] by (force simp: nodes_inv_def)



end
