(* ===== verification/Cache_Bench.thy ===== *)
theory Cache_Bench
  imports Topology
begin

text \<open>
  \<^verbatim>\<open>examples/cache_bench.rs\<close>: publications on two clusters, with and without the signature cache, and
  two passes of reads on a single node whose store was filled directly. The samples and the counts
  are modelled; averages, deviations and the printed comparison are floating-point output. The
  permits of the semaphore are handed out in the order in which the tasks were spawned, so at most
  \<open>concurrency\<close> of the earliest unfinished tasks are in flight, as in the task sets of the resilience test.
\<close>

definition CACHED_SEED :: u16 where
  "CACHED_SEED = 15810"

definition CACHED_PEER1 :: u16 where
  "CACHED_PEER1 = 15811"

definition CACHED_PEER2 :: u16 where
  "CACHED_PEER2 = 15812"

definition UNCACHED_SEED :: u16 where
  "UNCACHED_SEED = 15813"

definition UNCACHED_PEER1 :: u16 where
  "UNCACHED_PEER1 = 15814"

definition UNCACHED_PEER2 :: u16 where
  "UNCACHED_PEER2 = 15815"

definition MICRO_CACHED_PORT :: u16 where
  "MICRO_CACHED_PORT = 15816"

definition MICRO_UNCACHED_PORT :: u16 where
  "MICRO_UNCACHED_PORT = 15817"

definition DEFAULT_OPS :: nat where
  "DEFAULT_OPS = 10000"

definition DEFAULT_CONCURRENCY :: nat where
  "DEFAULT_CONCURRENCY = 30"

definition MICRO_OPS :: nat where
  "MICRO_OPS = 500"

section \<open>The cluster\<close>

definition make_node :: "host \<Rightarrow> bytes \<Rightarrow> bool \<Rightarrow> u16 \<Rightarrow> server script_result" where
  "make_node ho rb use_cache port =
     (let (ok, srv) = listen (ho_bind ho port (str_lit ''127.0.0.1'')) (ho_secs ho) (fresh_server (ho\<lparr>ho_random := rb\<rparr>) 20 3 use_cache)
      in Some (if ok then Inr srv else Inl Panicked))"

definition join_seed :: "host \<Rightarrow> u16 \<Rightarrow> server \<Rightarrow> server script_result" where
  "join_seed ho seed s =
     map_option (\<lambda>(_, s1). Inr s1) (bootstrap (ho_net ho) (ho_env ho) (ho_orders ho) [(str_lit ''127.0.0.1'', seed)] (pause ho s))"

text \<open>\<open>rnd i\<close> are the random bytes that the identifier of node \<open>i\<close> is made from.\<close>

definition start_cluster :: "host \<Rightarrow> (nat \<Rightarrow> bytes) \<Rightarrow> u16 \<Rightarrow> u16 \<Rightarrow> u16 \<Rightarrow> bool \<Rightarrow> server list script_result" where
  "start_cluster ho rnd seed peer1 peer2 use_cache =
     script_bind (make_node ho (rnd 0) use_cache seed) (\<lambda>s.
     script_bind (make_node ho (rnd 1) use_cache peer1) (\<lambda>p1.
     script_bind (make_node ho (rnd 2) use_cache peer2) (\<lambda>p2.
     script_bind (join_seed ho seed p1) (\<lambda>p1.
     script_bind (join_seed ho seed p2) (\<lambda>p2.
     Some (Inr (map (pause ho) [s, p1, p2])))))))"

section \<open>The publications\<close>

record set_results =
  sr_set_ns :: "u64 list"
  sr_ok :: nat
  sr_failures :: nat

text \<open>
  The task of one publication: \<open>None\<close> when it panics while it builds its record, otherwise whether
  the publication was acknowledged in time, and its latency.
\<close>

definition set_task :: "host \<Rightarrow> generator \<Rightarrow> server list tasks \<Rightarrow> nat \<Rightarrow> server list \<Rightarrow> (bool \<times> u64) option \<times> server list" where
  "set_task ho gen tk i nodes =
     (let nodes1 = map (pause ho) nodes;
          w = i mod length nodes1;
          ns = word_of_nat (tk_elapsed tk nodes1)
      in case (case gen i of (keys, kpk, uuid) \<Rightarrow> cb_new_record (ho_doc ho) keys kpk uuid) of
           None \<Rightarrow> (None, nodes1)
         | Some (key, record) \<Rightarrow>
             if tk_late tk nodes1 then (Some (False, ns), map (pause ho) nodes1)
             else
               (case sv_set (ho_net ho) (ho_env ho) (ho_orders ho) key record (nodes1 ! w) of
                  None \<Rightarrow> (Some (False, ns), map (pause ho) nodes1)
                | Some (r, s1) \<Rightarrow> (Some (r = Some True, ns), nodes1[w := s1])))"

definition count_set :: "(bool \<times> u64) option \<Rightarrow> set_results \<Rightarrow> set_results" where
  "count_set res c =
     (case res of
        None \<Rightarrow> c
      | Some (ok, ns) \<Rightarrow>
          if ok then c\<lparr>sr_ok := sr_ok c + 1, sr_set_ns := sr_set_ns c @ [ns]\<rparr>
          else c\<lparr>sr_failures := sr_failures c + 1\<rparr>)"

text \<open>Without a permit no task ever starts, and the loop over the handles waits forever.\<close>

definition run_set_workload ::
  "host \<Rightarrow> generator \<Rightarrow> server list tasks \<Rightarrow> nat \<Rightarrow> nat \<Rightarrow> server list \<Rightarrow> (set_results \<times> server list) script_result" where
  "run_set_workload ho gen tk num_ops concurrency nodes =
     (if concurrency = 0 \<and> num_ops \<noteq> 0 then None
      else
        let (c, nodes1) = join_loop (set_task ho gen tk) count_set tk concurrency [] [0..<num_ops]
              \<lparr>sr_set_ns = [], sr_ok = 0, sr_failures = 0\<rparr> nodes
        in Some (Inr (c\<lparr>sr_set_ns := sort (sr_set_ns c)\<rparr>, nodes1)))"

section \<open>The reads\<close>

record verify_results =
  vr_cold_ns :: "u64 list"
  vr_warm_ns :: "u64 list"

fun get_pass :: "host \<Rightarrow> server tasks \<Rightarrow> rust_str list \<Rightarrow> server \<Rightarrow> (u64 list \<times> server) option" where
  "get_pass ho tk [] s = Some ([], s)"
| "get_pass ho tk (key # keys) s =
     (let s0 = pause ho s
      in case sv_get (ho_net ho) (ho_env ho) (ho_orders ho) key s0 of
           None \<Rightarrow> None
         | Some (_, s1) \<Rightarrow>
             (case get_pass ho tk keys s1 of
                None \<Rightarrow> None
              | Some (samples, s2) \<Rightarrow> Some (word_of_nat (tk_elapsed tk s0) # samples, s2)))"

definition run_verify_micro ::
  "host \<Rightarrow> bytes \<Rightarrow> generator \<Rightarrow> server tasks \<Rightarrow> u16 \<Rightarrow> bool \<Rightarrow> nat \<Rightarrow> (verify_results \<times> server) script_result" where
  "run_verify_micro ho rb gen tk port use_cache n =
     script_bind (make_node ho rb use_cache port) (\<lambda>node.
     case those (map (\<lambda>i. case gen i of (keys, kpk, uuid) \<Rightarrow> cb_new_record (ho_doc ho) keys kpk uuid) [0..<n]) of
       None \<Rightarrow> Some (Inl Panicked)
     | Some records \<Rightarrow>
         let node1 = fold (seed_record ho) records (pause ho node)
         in (case get_pass ho tk (map fst records) node1 of
               None \<Rightarrow> None
             | Some (cold_ns, node2) \<Rightarrow>
                 (case get_pass ho tk (map fst records) node2 of
                    None \<Rightarrow> None
                  | Some (warm_ns, node3) \<Rightarrow>
                      Some (Inr (\<lparr>vr_cold_ns = sort cold_ns, vr_warm_ns = sort warm_ns\<rparr>, node3)))))"

section \<open>The benchmark\<close>

record bench_random =
  br_cached :: "nat \<Rightarrow> bytes"
  br_uncached :: "nat \<Rightarrow> bytes"
  br_micro :: "bool \<Rightarrow> bytes"
  br_records :: "nat \<Rightarrow> generator"

definition cb_run ::
  "host \<Rightarrow> bench_random \<Rightarrow> server list tasks \<Rightarrow> server tasks \<Rightarrow>
   ((set_results \<times> set_results) \<times> verify_results \<times> verify_results) script_result" where
  "cb_run ho rnd tks tk =
     script_bind (start_cluster ho (br_cached rnd) CACHED_SEED CACHED_PEER1 CACHED_PEER2 True) (\<lambda>cached_nodes.
     script_bind (run_set_workload ho (br_records rnd 0) tks DEFAULT_OPS DEFAULT_CONCURRENCY cached_nodes) (\<lambda>(cached_set, _).
     script_bind (start_cluster ho (br_uncached rnd) UNCACHED_SEED UNCACHED_PEER1 UNCACHED_PEER2 False) (\<lambda>uncached_nodes.
     script_bind (run_set_workload ho (br_records rnd 1) tks DEFAULT_OPS DEFAULT_CONCURRENCY uncached_nodes) (\<lambda>(uncached_set, _).
     script_bind (run_verify_micro ho (br_micro rnd True) (br_records rnd 2) tk MICRO_CACHED_PORT True MICRO_OPS) (\<lambda>(cached_v, _).
     script_bind (run_verify_micro ho (br_micro rnd False) (br_records rnd 3) tk MICRO_UNCACHED_PORT False MICRO_OPS) (\<lambda>(uncached_v, _).
     Some (Inr ((cached_set, uncached_set), cached_v, uncached_v))))))))"

section \<open>The benchmark completes\<close>

definition group_inv :: "host \<Rightarrow> bool \<Rightarrow> server list \<Rightarrow> bool" where
  "group_inv ho cd nodes \<longleftrightarrow> nodes \<noteq> [] \<and> (\<forall>s \<in> set nodes. script_inv ho (sv_node s) cd s)"

lemma script_inv_self: "script_inv ho self cd s \<Longrightarrow> script_inv ho (sv_node s) cd s"
  using script_invD(5) by metis

lemma group_inv_pause: "group_inv ho cd nodes \<Longrightarrow> group_inv ho cd (map (pause ho) nodes)"
  by (auto simp: group_inv_def dest: script_inv_pause [THEN script_inv_self])

lemma group_inv_update: "group_inv ho cd nodes \<Longrightarrow> script_inv ho self cd s \<Longrightarrow> group_inv ho cd (nodes[i := s])"
proof -
  assume g: "group_inv ho cd nodes" and s: "script_inv ho self cd s"
  have "\<forall>q \<in> insert s (set nodes). script_inv ho (sv_node q) cd q"
    using g script_inv_self [OF s] by (simp add: group_inv_def)
  then have "\<forall>q \<in> set (nodes[i := s]). script_inv ho (sv_node q) cd q"
    using set_update_subset_insert [of nodes i s] by blast
  with g show ?thesis by (simp add: group_inv_def)
qed

lemma make_node_inv:
  assumes "\<And>self. host_ok ho self cd" and "ho_bind ho port (str_lit ''127.0.0.1'')"
  shows "\<exists>s. make_node ho rb cd port = Some (Inr s) \<and> script_inv ho (sv_node s) cd s"
proof -
  let ?h = "ho\<lparr>ho_random := rb\<rparr>"
  have same: "script_inv ?h self cd q = script_inv ho self cd q" for self q
    by (simp add: script_inv_def host_ok_def host_handler_def)
  have "host_ok ?h self cd" for self using assms(1) by (simp add: host_ok_def host_handler_def)
  then have "script_inv ?h (sv_node (fresh_server ?h 20 3 cd)) cd (snd (listen True (ho_secs ho) (fresh_server ?h 20 3 cd)))"
    by (rule fresh_server_inv)
  then have "script_inv ho (sv_node (snd (listen True (ho_secs ho) (fresh_server ?h 20 3 cd)))) cd
      (snd (listen True (ho_secs ho) (fresh_server ?h 20 3 cd)))" unfolding same by (rule script_inv_self)
  then show ?thesis using assms(2) by (simp add: make_node_def listen_def)
qed

lemma join_seed_inv:
  "script_inv ho self cd s \<Longrightarrow> \<exists>s1. join_seed ho seed s = Some (Inr s1) \<and> script_inv ho (sv_node s1) cd s1"
  using script_ops(1) [OF script_inv_pause, of ho self cd s "[(str_lit ''127.0.0.1'', seed)]"] script_inv_self [of ho self cd]
  by (auto simp: join_seed_def)

lemma start_cluster_inv:
  assumes "\<And>self. host_ok ho self cd" and "\<And>port. ho_bind ho port (str_lit ''127.0.0.1'')"
  shows "\<exists>nodes. start_cluster ho rnd seed peer1 peer2 cd = Some (Inr nodes) \<and> group_inv ho cd nodes"
proof -
  obtain s where s: "make_node ho (rnd 0) cd seed = Some (Inr s)" "script_inv ho (sv_node s) cd s"
    using make_node_inv [OF assms] by blast
  obtain p where p: "make_node ho (rnd 1) cd peer1 = Some (Inr p)" "script_inv ho (sv_node p) cd p"
    using make_node_inv [OF assms] by blast
  obtain q where q: "make_node ho (rnd 2) cd peer2 = Some (Inr q)" "script_inv ho (sv_node q) cd q"
    using make_node_inv [OF assms] by blast
  obtain p1 where p1: "join_seed ho seed p = Some (Inr p1)" "script_inv ho (sv_node p1) cd p1" using join_seed_inv [OF p(2)] by blast
  obtain q1 where q1: "join_seed ho seed q = Some (Inr q1)" "script_inv ho (sv_node q1) cd q1" using join_seed_inv [OF q(2)] by blast
  have "group_inv ho cd [s, p1, q1]" using s(2) p1(2) q1(2) by (simp add: group_inv_def)
  from group_inv_pause [OF this] show ?thesis
    by (simp add: start_cluster_def script_bind_def s(1) p(1) [simplified] q(1) p1(1) q1(1))
qed

lemma set_task_inv:
  assumes "group_inv ho cd nodes" and "set_task ho gen tk i nodes = (res, nodes')"
  shows "group_inv ho cd nodes'"
    and "(case gen i of (keys, kpk, uuid) \<Rightarrow> cb_new_record (ho_doc ho) keys kpk uuid) \<noteq> None \<Longrightarrow> res \<noteq> None"
proof -
  let ?n = "map (pause ho) nodes" and ?w = "i mod length nodes"
  have n: "group_inv ho cd ?n" by (rule group_inv_pause [OF assms(1)])
  then have w: "script_inv ho (sv_node (?n ! ?w)) cd (?n ! ?w)" by (simp add: group_inv_def)
  have "group_inv ho cd (?n[?w := s])" if "sv_set (ho_net ho) (ho_env ho) (ho_orders ho) key v (?n ! ?w) = Some (r, s)" for key v r s
    using that script_ops(3) [OF w, of key v] group_inv_update [OF n] by auto
  then show "group_inv ho cd nodes'"
    using assms(2) n group_inv_pause [OF n]
    by (auto simp: set_task_def Let_def split: option.splits if_splits prod.splits)
  show "res \<noteq> None" if "(case gen i of (keys, kpk, uuid) \<Rightarrow> cb_new_record (ho_doc ho) keys kpk uuid) \<noteq> None"
    using assms(2) that by (auto simp: set_task_def Let_def split: option.splits if_splits prod.splits)
qed

lemma cb_generated:
  assumes "generator_ok lib gen"
  shows "\<exists>k r. (case gen i of (keys, kpk, uuid) \<Rightarrow> cb_new_record lib keys kpk uuid) = Some (k, r) \<and>
    handle_signature_verification lib r = Inr True"
proof -
  obtain dpk dsk kpk uuid where g: "gen i = ((dpk, dsk), kpk, uuid)" by (metis surj_pair)
  then have "of_char (CHR '':'') \<notin> set uuid" using assms by (auto simp: generator_ok_def split: prod.splits)
  from make_record_copies(2,3) [OF this, of lib dpk dsk kpk] generated_record [OF assms, of i] g show ?thesis by simp
qed

lemma run_set_tasks:
  assumes "group_inv ho cd nodes" and "\<And>i. (case gen i of (keys, kpk, uuid) \<Rightarrow> cb_new_record (ho_doc ho) keys kpk uuid) \<noteq> None"
    and "run_tasks (set_task ho gen tk) count_set order c nodes = (c', nodes')"
  shows "sr_ok c' + sr_failures c' = sr_ok c + sr_failures c + length order \<and>
    length (sr_set_ns c') + sr_ok c = length (sr_set_ns c) + sr_ok c'"
  using assms(1,3)
proof (induction order arbitrary: c nodes)
  case (Cons i order)
  obtain res n1 where t: "set_task ho gen tk i nodes = (res, n1)" by fastforce
  have rest: "run_tasks (set_task ho gen tk) count_set order (count_set res c) n1 = (c', nodes')"
    "group_inv ho cd n1" "res \<noteq> None"
    using Cons.prems(2) t set_task_inv [OF Cons.prems(1) t] assms(2) [of i] by simp_all
  from Cons.IH [OF rest(2,1)] rest(3) show ?case by (auto simp: count_set_def split: prod.splits if_splits)
qed simp

lemma run_set_workload_counts:
  assumes "group_inv ho cd nodes" and "generator_ok (ho_doc ho) gen" and "0 < concurrency"
  shows "\<exists>c nodes'. run_set_workload ho gen tk num_ops concurrency nodes = Some (Inr (c, nodes')) \<and>
    sr_ok c + sr_failures c = num_ops \<and> length (sr_set_ns c) = sr_ok c \<and> sorted (sr_set_ns c)"
proof -
  let ?c0 = "\<lparr>sr_set_ns = [], sr_ok = 0, sr_failures = 0\<rparr>"
  obtain order where o: "mset order = mset [] + mset [0..<num_ops]"
    "join_loop (set_task ho gen tk) count_set tk concurrency [] [0..<num_ops] ?c0 nodes = run_tasks (set_task ho gen tk) count_set order ?c0 nodes"
    using join_loop_order [OF assms(3), of "[]" "[0..<num_ops]" "set_task ho gen tk" count_set tk ?c0 nodes] by blast
  have n: "length order = num_ops" using arg_cong [OF o(1), of size] by simp
  obtain c nodes' where r: "run_tasks (set_task ho gen tk) count_set order ?c0 nodes = (c, nodes')" by fastforce
  have made: "(case gen i of (keys, kpk, uuid) \<Rightarrow> cb_new_record (ho_doc ho) keys kpk uuid) \<noteq> None" for i
    using cb_generated [OF assms(2), of i] by force
  from run_set_tasks [OF assms(1) made r] n show ?thesis
    using assms(3) o(2) r by (simp add: run_set_workload_def Let_def)
qed

lemma get_pass_returns:
  "script_inv ho self cd s \<Longrightarrow> \<exists>samples s'. get_pass ho tk keys s = Some (samples, s') \<and> length samples = length keys \<and> script_inv ho self cd s'"
proof (induction keys arbitrary: s)
  case (Cons key keys)
  obtain r s1 where g: "sv_get (ho_net ho) (ho_env ho) (ho_orders ho) key (pause ho s) = Some (r, s1)" "script_inv ho self cd s1"
    using script_ops(2) [OF script_inv_pause [OF Cons.prems], of key] by blast
  from Cons.IH [OF g(2)] g(1) show ?case by (auto simp: Let_def)
qed simp

lemma run_verify_micro_samples:
  assumes "\<And>self. host_ok ho self cd" and "ho_bind ho port (str_lit ''127.0.0.1'')" and "generator_ok (ho_doc ho) gen"
  shows "\<exists>v s. run_verify_micro ho rb gen tk port cd n = Some (Inr (v, s)) \<and>
    length (vr_cold_ns v) = n \<and> length (vr_warm_ns v) = n \<and> sorted (vr_cold_ns v) \<and> sorted (vr_warm_ns v)"
proof -
  let ?mk = "\<lambda>i. case gen i of (keys, kpk, uuid) \<Rightarrow> cb_new_record (ho_doc ho) keys kpk uuid"
  obtain s where s: "make_node ho rb cd port = Some (Inr s)" "script_inv ho (sv_node s) cd s" using make_node_inv [OF assms(1,2)] by blast
  define krs where "krs = map (the \<circ> ?mk) [0..<n]"
  have made: "those (map ?mk [0..<n]) = Some krs"
    unfolding krs_def by (rule those_total) (use cb_generated [OF assms(3)] in force)
  have acc: "accepted (ho_net ho) (host_handler ho) cd (snd kr)" if mem: "kr \<in> set krs" for kr
  proof -
    obtain i where "kr = the (?mk i)" using mem by (auto simp: krs_def)
    then have "handle_signature_verification (ho_doc ho) (snd kr) = Inr True" using cb_generated [OF assms(3), of i] by auto
    then show ?thesis by (auto simp: accepted_def host_handler_def)
  qed
  have "script_inv ho (sv_node s) cd (fold (seed_record ho) krs (pause ho s))"
    using acc by (intro seed_records_inv script_inv_pause s(2)) blast
  then obtain cold s2 where cold: "get_pass ho tk (map fst krs) (fold (seed_record ho) krs (pause ho s)) = Some (cold, s2)"
    "length cold = n" "script_inv ho (sv_node s) cd s2"
    using get_pass_returns [of ho "sv_node s" cd _ tk "map fst krs"] by (fastforce simp: krs_def)
  obtain warm s3 where warm: "get_pass ho tk (map fst krs) s2 = Some (warm, s3)" "length warm = n"
    using get_pass_returns [OF cold(3), of tk "map fst krs"] by (auto simp: krs_def)
  show ?thesis using s(1) made cold(1,2) warm by (simp add: run_verify_micro_def script_bind_def Let_def)
qed

text \<open>
  When all sockets can be bound and the crates behave, the benchmark runs to its end: on both
  clusters every publication is counted once, as acknowledged or as failed, and its latency is kept
  in the first case only; both passes over both single nodes have a sample for every record.
\<close>

theorem cache_bench_completes:
  assumes "\<And>self cd. host_ok ho self cd" and "\<And>port. ho_bind ho port (str_lit ''127.0.0.1'')"
    and "\<And>g. generator_ok (ho_doc ho) (br_records rnd g)"
  shows "\<exists>a b v w. cb_run ho rnd tks tk = Some (Inr ((a, b), v, w)) \<and>
    (\<forall>c \<in> {a, b}. sr_ok c + sr_failures c = DEFAULT_OPS \<and> length (sr_set_ns c) = sr_ok c \<and> sorted (sr_set_ns c)) \<and>
    (\<forall>r \<in> {v, w}. length (vr_cold_ns r) = MICRO_OPS \<and> length (vr_warm_ns r) = MICRO_OPS)"
proof -
  have pos: "0 < DEFAULT_CONCURRENCY" by (simp add: DEFAULT_CONCURRENCY_def)
  have set: "\<exists>nodes c nodes'. start_cluster ho rs seed p q cd = Some (Inr nodes) \<and>
      run_set_workload ho (br_records rnd g) tks DEFAULT_OPS DEFAULT_CONCURRENCY nodes = Some (Inr (c, nodes')) \<and>
      sr_ok c + sr_failures c = DEFAULT_OPS \<and> length (sr_set_ns c) = sr_ok c \<and> sorted (sr_set_ns c)" for rs seed p q cd g
    using start_cluster_inv [of ho cd rs seed p q, OF assms(1,2)] run_set_workload_counts [OF _ assms(3) pos] by metis
  obtain n1 a m1 where a: "start_cluster ho (br_cached rnd) CACHED_SEED CACHED_PEER1 CACHED_PEER2 True = Some (Inr n1)"
    "run_set_workload ho (br_records rnd 0) tks DEFAULT_OPS DEFAULT_CONCURRENCY n1 = Some (Inr (a, m1))"
    "sr_ok a + sr_failures a = DEFAULT_OPS" "length (sr_set_ns a) = sr_ok a" "sorted (sr_set_ns a)" using set by blast
  obtain n2 b m2 where b: "start_cluster ho (br_uncached rnd) UNCACHED_SEED UNCACHED_PEER1 UNCACHED_PEER2 False = Some (Inr n2)"
    "run_set_workload ho (br_records rnd 1) tks DEFAULT_OPS DEFAULT_CONCURRENCY n2 = Some (Inr (b, m2))"
    "sr_ok b + sr_failures b = DEFAULT_OPS" "length (sr_set_ns b) = sr_ok b" "sorted (sr_set_ns b)" using set by blast
  obtain v s where v: "run_verify_micro ho (br_micro rnd True) (br_records rnd 2) tk MICRO_CACHED_PORT True MICRO_OPS = Some (Inr (v, s))"
    "length (vr_cold_ns v) = MICRO_OPS" "length (vr_warm_ns v) = MICRO_OPS"
    using run_verify_micro_samples [of ho True MICRO_CACHED_PORT "br_records rnd 2" "br_micro rnd True" tk MICRO_OPS, OF assms] by blast
  obtain w t where w: "run_verify_micro ho (br_micro rnd False) (br_records rnd 3) tk MICRO_UNCACHED_PORT False MICRO_OPS = Some (Inr (w, t))"
    "length (vr_cold_ns w) = MICRO_OPS" "length (vr_warm_ns w) = MICRO_OPS"
    using run_verify_micro_samples [of ho False MICRO_UNCACHED_PORT "br_records rnd 3" "br_micro rnd False" tk MICRO_OPS, OF assms] by blast
  have "cb_run ho rnd tks tk = Some (Inr ((a, b), v, w))"
    unfolding cb_run_def a(1) b(1) script_bind_def by (simp only: option.case sum.case prod.case a(2) b(2) v(1) w(1))
  then show ?thesis using a(3-5) b(3-5) v(2,3) w(2,3) by blast
qed

theorem cache_bench_completes_witness:
  "\<exists>a b v w. cb_run demo_host \<lparr>br_cached = (\<lambda>_. demo_key), br_uncached = (\<lambda>_. demo_key), br_micro = (\<lambda>_. demo_key),
      br_records = (\<lambda>_. demo_generator)\<rparr>
     \<lparr>tk_next = (\<lambda>_. 0), tk_panics = (\<lambda>_. False), tk_late = (\<lambda>_. False), tk_elapsed = (\<lambda>_. 0)\<rparr>
     \<lparr>tk_next = (\<lambda>_. 0), tk_panics = (\<lambda>_. False), tk_late = (\<lambda>_. False), tk_elapsed = (\<lambda>_. 0)\<rparr> = Some (Inr ((a, b), v, w)) \<and>
     sr_ok a + sr_failures a = DEFAULT_OPS"
proof -
  let ?r = "\<lparr>br_cached = (\<lambda>_. demo_key), br_uncached = (\<lambda>_. demo_key), br_micro = (\<lambda>_. demo_key),
      br_records = (\<lambda>_. demo_generator)\<rparr>"
  have bound: "ho_bind demo_host port (str_lit ''127.0.0.1'')" for port by (simp add: demo_host_def)
  have gen: "generator_ok (ho_doc demo_host) (br_records ?r g)" for g using demo_generator_ok by simp
  note outcome = cache_bench_completes [of demo_host ?r, OF demo_host_ok bound gen]
  show ?thesis by (rule ex_forward [OF outcome], elim exE, intro exI) (elim conjE, intro conjI, assumption, simp)
qed

end
