(* ===== verification/Key_Manager.thy ===== *)
theory Key_Manager
  imports Crypto Socket_Addr
begin

text \<open>
  \<^verbatim>\<open>src/crypto/key_manager.rs\<close>: key pairs of three schemes, kept in files. Key generation belongs to
  the cryptographic crates and is a part of the record \<open>key_lib\<close>; the randomness it draws is the
  argument \<open>rng\<close>. A file system is the contents of its files, named by their paths, and the paths
  that can be written. The trait is the locale \<open>key_files\<close>, interpreted for each manager.
\<close>

datatype key_manager_error =
    NotFound rust_str
  | AlreadyExists rust_str
  | InvalidSecurityLevel u32
  | CryptoError verifier_error
  | IoError

type_synonym 'a km_result = "key_manager_error + 'a"

record key_lib = crypto_lib +
  dilithium2_keypair :: "bytes \<Rightarrow> bytes \<times> bytes"
  dilithium3_keypair :: "bytes \<Rightarrow> bytes \<times> bytes"
  dilithium5_keypair :: "bytes \<Rightarrow> bytes \<times> bytes"
  kyber512_keypair :: "bytes \<Rightarrow> bytes \<times> bytes"
  kyber768_keypair :: "bytes \<Rightarrow> bytes \<times> bytes"
  kyber1024_keypair :: "bytes \<Rightarrow> bytes \<times> bytes"
  ed_verifying_key :: "bytes \<Rightarrow> bytes"
  ed_signing_key_to_bytes :: "bytes \<Rightarrow> bytes"
  url_safe_encode :: "bytes \<Rightarrow> rust_str"
  url_safe_decode :: "rust_str \<Rightarrow> bytes option"

definition b64encode_key :: "'x key_lib_scheme \<Rightarrow> bytes \<Rightarrow> rust_str" where
  "b64encode_key lib key = url_safe_encode lib key"

definition b64decode_key :: "'x key_lib_scheme \<Rightarrow> rust_str \<Rightarrow> bytes option" where
  "b64decode_key lib s = url_safe_decode lib s"

section \<open>Files\<close>

record file_system =
  fs_files :: "rust_str \<rightharpoonup> bytes"
  fs_writable :: "rust_str \<Rightarrow> bool"

text \<open>\<open>PathBuf::join\<close>: an absolute path replaces the base, a relative one is appended after a separator.\<close>

definition is_absolute :: "rust_str \<Rightarrow> bool" where
  "is_absolute p \<longleftrightarrow> p \<noteq> [] \<and> hd p = of_char (CHR ''/'')"

definition path_join :: "rust_str \<Rightarrow> rust_str \<Rightarrow> rust_str" where
  "path_join base p =
     (if is_absolute p then p
      else if base \<noteq> [] \<and> last base \<noteq> of_char (CHR ''/'') then base @ of_char (CHR ''/'') # p
      else base @ p)"

definition write_key :: "rust_str \<Rightarrow> bytes \<Rightarrow> file_system \<Rightarrow> file_system km_result" where
  "write_key path data fs =
     (if fs_writable fs path then Inr (fs\<lparr>fs_files := (fs_files fs)(path \<mapsto> data)\<rparr>) else Inl IoError)"

definition read_key :: "rust_str \<Rightarrow> rust_str \<Rightarrow> file_system \<Rightarrow> bytes km_result" where
  "read_key path key_name fs =
     (case fs_files fs path of Some data \<Rightarrow> Inr data | None \<Rightarrow> Inl (NotFound key_name))"

text \<open>\<open>?\<close> on a verifier error converts it with \<open>From\<close>.\<close>

definition from_verifier :: "'a verifier_result \<Rightarrow> 'a km_result" where
  "from_verifier r = (case r of Inl e \<Rightarrow> Inl (CryptoError e) | Inr a \<Rightarrow> Inr a)"

section \<open>DilithiumKeyManager\<close>

record dilithium_key_manager =
  dk_keys_dir :: rust_str
  dk_security_level :: u8

text \<open>\<open>create_dir_all\<close> is what the operating system does for that call; its failure is ignored.\<close>

definition dk_new ::
  "(rust_str \<Rightarrow> file_system \<Rightarrow> file_system) \<Rightarrow> rust_str \<Rightarrow> u8 \<Rightarrow> file_system \<Rightarrow> dilithium_key_manager \<times> file_system" where
  "dk_new create_dir_all keys_dir level fs =
     (\<lparr>dk_keys_dir = keys_dir, dk_security_level = level\<rparr>, create_dir_all keys_dir fs)"

definition dk_sign :: "'x key_lib_scheme \<Rightarrow> dilithium_key_manager \<Rightarrow> bytes \<Rightarrow> bytes \<Rightarrow> bytes km_result" where
  "dk_sign lib km private_key message = from_verifier (dilithium_sign lib private_key message)"

definition dk_verify_signature ::
  "'x key_lib_scheme \<Rightarrow> dilithium_key_manager \<Rightarrow> bytes \<Rightarrow> bytes \<Rightarrow> bytes \<Rightarrow> bool km_result" where
  "dk_verify_signature lib km public_key message signature =
     from_verifier (dilithium_verify lib public_key signature message)"

definition dk_generate_keypair ::
  "'x key_lib_scheme \<Rightarrow> bytes \<Rightarrow> dilithium_key_manager \<Rightarrow> (bytes \<times> bytes) km_result" where
  "dk_generate_keypair lib rng km =
     (if dk_security_level km = 2 then Inr (dilithium2_keypair lib rng)
      else if dk_security_level km = 3 then Inr (dilithium3_keypair lib rng)
      else if dk_security_level km = 5 then Inr (dilithium5_keypair lib rng)
      else Inl (InvalidSecurityLevel (ucast (dk_security_level km))))"

definition dk_store_public_key ::
  "dilithium_key_manager \<Rightarrow> rust_str \<Rightarrow> bytes \<Rightarrow> file_system \<Rightarrow> file_system km_result" where
  "dk_store_public_key km key_name public_key fs =
     write_key (path_join (dk_keys_dir km) (key_name @ str_lit ''.public'')) public_key fs"

definition dk_store_private_key ::
  "dilithium_key_manager \<Rightarrow> rust_str \<Rightarrow> bytes \<Rightarrow> file_system \<Rightarrow> file_system km_result" where
  "dk_store_private_key km key_name private_key fs =
     write_key (path_join (dk_keys_dir km) (key_name @ str_lit ''.private'')) private_key fs"

definition dk_get_public_key :: "dilithium_key_manager \<Rightarrow> rust_str \<Rightarrow> file_system \<Rightarrow> bytes km_result" where
  "dk_get_public_key km key_name fs =
     read_key (path_join (dk_keys_dir km) (key_name @ str_lit ''.public'')) key_name fs"

definition dk_get_private_key :: "dilithium_key_manager \<Rightarrow> rust_str \<Rightarrow> file_system \<Rightarrow> bytes km_result" where
  "dk_get_private_key km key_name fs =
     read_key (path_join (dk_keys_dir km) (key_name @ str_lit ''.private'')) key_name fs"

definition dk_get_jose_format :: "'x key_lib_scheme \<Rightarrow> dilithium_key_manager \<Rightarrow> bytes \<Rightarrow> (rust_str \<rightharpoonup> rust_str)" where
  "dk_get_jose_format lib km public_key =
     [str_lit ''kty'' \<mapsto> str_lit ''MLWE'',
      str_lit ''alg'' \<mapsto> str_lit ''CRYDI'' @ fmt_dec (unat (dk_security_level km)),
      str_lit ''x'' \<mapsto> b64encode_key lib public_key]"

section \<open>KyberKeyManager\<close>

record kyber_key_manager =
  kk_keys_dir :: rust_str
  kk_security_level :: u16

definition kk_new ::
  "(rust_str \<Rightarrow> file_system \<Rightarrow> file_system) \<Rightarrow> rust_str \<Rightarrow> u16 \<Rightarrow> file_system \<Rightarrow> kyber_key_manager \<times> file_system" where
  "kk_new create_dir_all keys_dir level fs =
     (\<lparr>kk_keys_dir = keys_dir, kk_security_level = level\<rparr>, create_dir_all keys_dir fs)"

definition kk_generate_keypair ::
  "'x key_lib_scheme \<Rightarrow> bytes \<Rightarrow> kyber_key_manager \<Rightarrow> (bytes \<times> bytes) km_result" where
  "kk_generate_keypair lib rng km =
     (if kk_security_level km = 512 then Inr (kyber512_keypair lib rng)
      else if kk_security_level km = 768 then Inr (kyber768_keypair lib rng)
      else if kk_security_level km = 1024 then Inr (kyber1024_keypair lib rng)
      else Inl (InvalidSecurityLevel (ucast (kk_security_level km))))"

definition kk_store_public_key ::
  "kyber_key_manager \<Rightarrow> rust_str \<Rightarrow> bytes \<Rightarrow> file_system \<Rightarrow> file_system km_result" where
  "kk_store_public_key km key_name public_key fs =
     write_key (path_join (kk_keys_dir km) (key_name @ str_lit ''.public'')) public_key fs"

definition kk_store_private_key ::
  "kyber_key_manager \<Rightarrow> rust_str \<Rightarrow> bytes \<Rightarrow> file_system \<Rightarrow> file_system km_result" where
  "kk_store_private_key km key_name private_key fs =
     write_key (path_join (kk_keys_dir km) (key_name @ str_lit ''.private'')) private_key fs"

definition kk_get_public_key :: "kyber_key_manager \<Rightarrow> rust_str \<Rightarrow> file_system \<Rightarrow> bytes km_result" where
  "kk_get_public_key km key_name fs =
     read_key (path_join (kk_keys_dir km) (key_name @ str_lit ''.public'')) key_name fs"

definition kk_get_private_key :: "kyber_key_manager \<Rightarrow> rust_str \<Rightarrow> file_system \<Rightarrow> bytes km_result" where
  "kk_get_private_key km key_name fs =
     read_key (path_join (kk_keys_dir km) (key_name @ str_lit ''.private'')) key_name fs"

definition kk_get_jose_format :: "'x key_lib_scheme \<Rightarrow> kyber_key_manager \<Rightarrow> bytes \<Rightarrow> (rust_str \<rightharpoonup> rust_str)" where
  "kk_get_jose_format lib km public_key =
     [str_lit ''kty'' \<mapsto> str_lit ''KEM'',
      str_lit ''alg'' \<mapsto> str_lit ''KYBER'' @ fmt_dec (unat (kk_security_level km)),
      str_lit ''x'' \<mapsto> b64encode_key lib public_key]"

section \<open>Ed25519KeyManager\<close>

record ed25519_key_manager =
  ek_keys_dir :: rust_str

definition ek_new ::
  "(rust_str \<Rightarrow> file_system \<Rightarrow> file_system) \<Rightarrow> rust_str \<Rightarrow> file_system \<Rightarrow> ed25519_key_manager \<times> file_system" where
  "ek_new create_dir_all keys_dir fs = (\<lparr>ek_keys_dir = keys_dir\<rparr>, create_dir_all keys_dir fs)"

definition ek_sign :: "'x key_lib_scheme \<Rightarrow> ed25519_key_manager \<Rightarrow> bytes \<Rightarrow> bytes \<Rightarrow> bytes km_result" where
  "ek_sign lib km private_key message = from_verifier (ed25519_sign lib private_key message)"

definition ek_verify_signature ::
  "'x key_lib_scheme \<Rightarrow> ed25519_key_manager \<Rightarrow> bytes \<Rightarrow> bytes \<Rightarrow> bytes \<Rightarrow> bool km_result" where
  "ek_verify_signature lib km public_key message signature =
     from_verifier (ed25519_verify lib public_key signature message)"

text \<open>\<open>seed\<close> are the 32 bytes drawn from the random number generator.\<close>

definition ek_generate_keypair ::
  "'x key_lib_scheme \<Rightarrow> bytes \<Rightarrow> ed25519_key_manager \<Rightarrow> (bytes \<times> bytes) km_result" where
  "ek_generate_keypair lib seed km = Inr (ed_verifying_key lib seed, ed_signing_key_to_bytes lib seed)"

definition ek_store_public_key ::
  "ed25519_key_manager \<Rightarrow> rust_str \<Rightarrow> bytes \<Rightarrow> file_system \<Rightarrow> file_system km_result" where
  "ek_store_public_key km key_name public_key fs =
     write_key (path_join (ek_keys_dir km) (key_name @ str_lit ''.public'')) public_key fs"

definition ek_store_private_key ::
  "ed25519_key_manager \<Rightarrow> rust_str \<Rightarrow> bytes \<Rightarrow> file_system \<Rightarrow> file_system km_result" where
  "ek_store_private_key km key_name private_key fs =
     write_key (path_join (ek_keys_dir km) (key_name @ str_lit ''.private'')) private_key fs"

definition ek_get_public_key :: "ed25519_key_manager \<Rightarrow> rust_str \<Rightarrow> file_system \<Rightarrow> bytes km_result" where
  "ek_get_public_key km key_name fs =
     read_key (path_join (ek_keys_dir km) (key_name @ str_lit ''.public'')) key_name fs"

definition ek_get_private_key :: "ed25519_key_manager \<Rightarrow> rust_str \<Rightarrow> file_system \<Rightarrow> bytes km_result" where
  "ek_get_private_key km key_name fs =
     read_key (path_join (ek_keys_dir km) (key_name @ str_lit ''.private'')) key_name fs"

definition ek_get_jose_format :: "'x key_lib_scheme \<Rightarrow> ed25519_key_manager \<Rightarrow> bytes \<Rightarrow> (rust_str \<rightharpoonup> rust_str)" where
  "ek_get_jose_format lib km public_key =
     [str_lit ''kty'' \<mapsto> str_lit ''OKP'', str_lit ''crv'' \<mapsto> str_lit ''Ed25519'',
      str_lit ''x'' \<mapsto> b64encode_key lib public_key]"

section \<open>The trait KeyManager\<close>

text \<open>
  What a client of the trait may rely on for key names in the set \<open>names\<close>: a stored key is read
  back, and storing one key changes no other.
\<close>

locale key_files =
  fixes names :: "rust_str set"
    and store_pub :: "rust_str \<Rightarrow> bytes \<Rightarrow> 'fs \<Rightarrow> 'fs km_result" and store_priv :: "rust_str \<Rightarrow> bytes \<Rightarrow> 'fs \<Rightarrow> 'fs km_result"
    and get_pub :: "rust_str \<Rightarrow> 'fs \<Rightarrow> bytes km_result" and get_priv :: "rust_str \<Rightarrow> 'fs \<Rightarrow> bytes km_result"
  assumes pub_pub: "n \<in> names \<Longrightarrow> m \<in> names \<Longrightarrow> store_pub n k s = Inr s' \<Longrightarrow>
      get_pub m s' = (if m = n then Inr k else get_pub m s)"
    and pub_priv: "n \<in> names \<Longrightarrow> m \<in> names \<Longrightarrow> store_pub n k s = Inr s' \<Longrightarrow> get_priv m s' = get_priv m s"
    and priv_priv: "n \<in> names \<Longrightarrow> m \<in> names \<Longrightarrow> store_priv n k s = Inr s' \<Longrightarrow>
      get_priv m s' = (if m = n then Inr k else get_priv m s)"
    and priv_pub: "n \<in> names \<Longrightarrow> m \<in> names \<Longrightarrow> store_priv n k s = Inr s' \<Longrightarrow> get_pub m s' = get_pub m s"
begin

lemma stored_pair:
  assumes "n \<in> names" and "m \<in> names" and "store_pub n pk s = Inr s1" and "store_priv n sk s1 = Inr s2"
  shows "get_pub m s2 = (if m = n then Inr pk else get_pub m s)"
    and "get_priv m s2 = (if m = n then Inr sk else get_priv m s)"
  using pub_pub [OF assms(1,2,3)] pub_priv [OF assms(1,2,3)] priv_priv [OF assms(1,2,4)] priv_pub [OF assms(1,2,4)]
  by simp_all

end

definition relative_names :: "rust_str set" where
  "relative_names = {n. \<not> is_absolute n}"

lemma path_join_relative:
  assumes "\<not> is_absolute a" and "\<not> is_absolute b"
  shows "path_join base a = path_join base b \<longleftrightarrow> a = b"
  using assms by (simp add: path_join_def)

lemma suffix_relative: "n \<in> relative_names \<Longrightarrow> \<not> is_absolute (n @ str_lit ''.public'') \<and> \<not> is_absolute (n @ str_lit ''.private'')"
  by (cases n) (auto simp: relative_names_def is_absolute_def str_lit_def of_char_def)

lemma suffixes_differ: "n @ str_lit ''.public'' \<noteq> m @ str_lit ''.private''"
proof
  assume "n @ str_lit ''.public'' = m @ str_lit ''.private''"
  then have "last (n @ str_lit ''.public'') = last (m @ str_lit ''.private'')" by simp
  then show False by (simp add: str_lit_def of_char_def)
qed

text \<open>Paths of different keys differ, so the files of a manager are independent.\<close>

lemma write_read_key:
  assumes "write_key p k fs = Inr fs'"
  shows "read_key q n fs' = (if q = p then Inr k else read_key q n fs)"
  using assms by (auto simp: write_key_def read_key_def split: if_splits)

lemmas key_paths = path_join_relative suffix_relative suffixes_differ suffixes_differ [symmetric] write_read_key

interpretation dk: key_files relative_names "dk_store_public_key km" "dk_store_private_key km"
    "dk_get_public_key km" "dk_get_private_key km" for km
  by unfold_locales (auto simp: key_paths dk_store_public_key_def dk_store_private_key_def
      dk_get_public_key_def dk_get_private_key_def)

interpretation kk: key_files relative_names "kk_store_public_key km" "kk_store_private_key km"
    "kk_get_public_key km" "kk_get_private_key km" for km
  by unfold_locales (auto simp: key_paths kk_store_public_key_def kk_store_private_key_def
      kk_get_public_key_def kk_get_private_key_def)

interpretation ek: key_files relative_names "ek_store_public_key km" "ek_store_private_key km"
    "ek_get_public_key km" "ek_get_private_key km" for km
  by unfold_locales (auto simp: key_paths ek_store_public_key_def ek_store_private_key_def
      ek_get_public_key_def ek_get_private_key_def)

section \<open>Properties of the key managers\<close>

text \<open>What the crates document of the key pairs they generate: their lengths, and that signatures verify.\<close>

definition keypair_ok :: "dilithium_mod \<Rightarrow> nat \<Rightarrow> nat \<Rightarrow> bytes \<times> bytes \<Rightarrow> bool" where
  "keypair_ok m pk_len sk_len kp \<longleftrightarrow>
     length (fst kp) = pk_len \<and> length (snd kp) = sk_len \<and> pk_from_bytes m (fst kp) \<and> sk_from_bytes m (snd kp) \<and>
     (\<forall>msg. sig_from_bytes m (detached_sign m msg (snd kp)) \<and>
        verify_detached_signature m (detached_sign m msg (snd kp)) msg (fst kp))"

definition dilithium_keypairs_ok :: "'x key_lib_scheme \<Rightarrow> bool" where
  "dilithium_keypairs_ok lib \<longleftrightarrow>
     (\<forall>rng. keypair_ok (dilithium2 lib) 1312 2560 (dilithium2_keypair lib rng) \<and>
        keypair_ok (dilithium3 lib) 1952 4032 (dilithium3_keypair lib rng) \<and>
        keypair_ok (dilithium5 lib) 2592 4896 (dilithium5_keypair lib rng))"

lemma generated_key_verifies:
  assumes "dilithium_keypairs_ok lib" and "dk_generate_keypair lib rng km = Inr (pk, sk)"
  shows "\<exists>sig. dk_sign lib km sk msg = Inr sig \<and> dk_verify_signature lib km pk msg sig = Inr True"
proof -
  have ok: "keypair_ok (dilithium2 lib) 1312 2560 (dilithium2_keypair lib rng)"
    "keypair_ok (dilithium3 lib) 1952 4032 (dilithium3_keypair lib rng)"
    "keypair_ok (dilithium5 lib) 2592 4896 (dilithium5_keypair lib rng)"
    using assms(1) by (simp_all add: dilithium_keypairs_ok_def)
  from assms(2) consider "dilithium2_keypair lib rng = (pk, sk)" | "dilithium3_keypair lib rng = (pk, sk)"
    | "dilithium5_keypair lib rng = (pk, sk)"
    by (auto simp: dk_generate_keypair_def split: if_splits)
  then show ?thesis
    by cases (use ok in \<open>simp_all add: keypair_ok_def dk_sign_def dk_verify_signature_def dilithium_sign_def dilithium_verify_def
        sign_d_def verify_d_def from_verifier_def dilithium_level_from_pubkey_len_def dilithium_level_from_privkey_len_def\<close>)
qed

text \<open>
  A Dilithium key pair survives its files: keys that were generated and stored under a relative
  name are read back, and a signature made with the private key read back is accepted under the
  public key read back. Generation succeeds exactly for the levels 2, 3 and 5.
\<close>

theorem dilithium_key_manager_roundtrip:
  assumes "dilithium_keypairs_ok lib" and "\<not> is_absolute n"
    and "dk_generate_keypair lib rng km = Inr (pk, sk)"
    and "dk_store_public_key km n pk fs = Inr fs1" and "dk_store_private_key km n sk fs1 = Inr fs2"
  shows "dk_security_level km \<in> {2, 3, 5} \<and>
    (\<exists>pk' sk' sig. dk_get_public_key km n fs2 = Inr pk' \<and> dk_get_private_key km n fs2 = Inr sk' \<and>
       dk_sign lib km sk' msg = Inr sig \<and> dk_verify_signature lib km pk' msg sig = Inr True)"
proof
  show "dk_security_level km \<in> {2, 3, 5}" using assms(3) by (auto simp: dk_generate_keypair_def split: if_splits)
  have "n \<in> relative_names" using assms(2) by (simp add: relative_names_def)
  from dk.stored_pair [OF this this assms(4,5)] generated_key_verifies [OF assms(1,3)]
  show "\<exists>pk' sk' sig. dk_get_public_key km n fs2 = Inr pk' \<and> dk_get_private_key km n fs2 = Inr sk' \<and>
       dk_sign lib km sk' msg = Inr sig \<and> dk_verify_signature lib km pk' msg sig = Inr True" by simp
qed

definition echo_key_lib :: key_lib where
  "echo_key_lib = crypto_lib.extend echo_lib
     \<lparr>dilithium2_keypair = (\<lambda>_. (replicate 1312 1, replicate 2560 2)),
      dilithium3_keypair = (\<lambda>_. (replicate 1952 1, replicate 4032 2)),
      dilithium5_keypair = (\<lambda>_. (replicate 2592 1, replicate 4896 2)),
      kyber512_keypair = (\<lambda>_. ([], [])), kyber768_keypair = (\<lambda>_. ([], [])), kyber1024_keypair = (\<lambda>_. ([], [])),
      ed_verifying_key = (\<lambda>s. s), ed_signing_key_to_bytes = (\<lambda>s. s), url_safe_encode = (\<lambda>_. []),
      url_safe_decode = (\<lambda>_. None)\<rparr>"

lemma echo_keypairs_ok: "dilithium_keypairs_ok echo_key_lib"
  by (simp add: dilithium_keypairs_ok_def keypair_ok_def echo_key_lib_def crypto_lib.defs echo_lib_def echo_mod_def)

definition open_files :: file_system where
  "open_files = \<lparr>fs_files = Map.empty, fs_writable = (\<lambda>_. True)\<rparr>"

theorem dilithium_key_manager_roundtrip_witness:
  "let km = \<lparr>dk_keys_dir = str_lit ''keys'', dk_security_level = 2\<rparr> in
    \<exists>pk sk fs1 fs2 sig. dk_generate_keypair echo_key_lib [] km = Inr (pk, sk) \<and>
      dk_store_public_key km [97] pk open_files = Inr fs1 \<and> dk_store_private_key km [97] sk fs1 = Inr fs2 \<and>
      dk_sign echo_key_lib km sk [1] = Inr sig"
proof -
  let ?km = "\<lparr>dk_keys_dir = str_lit ''keys'', dk_security_level = 2\<rparr>"
  obtain pk sk where gen: "dk_generate_keypair echo_key_lib [] ?km = Inr (pk, sk)"
    by (simp add: dk_generate_keypair_def echo_key_lib_def crypto_lib.defs)
  obtain fs1 where s1: "dk_store_public_key ?km [97] pk open_files = Inr fs1" "fs_writable fs1 = (\<lambda>_. True)"
    by (simp add: dk_store_public_key_def write_key_def open_files_def)
  obtain fs2 where s2: "dk_store_private_key ?km [97] sk fs1 = Inr fs2"
    using s1(2) by (simp add: dk_store_private_key_def write_key_def)
  have rel: "\<not> is_absolute [97]" by (simp add: is_absolute_def of_char_def)
  have "dk_get_private_key ?km [97] fs2 = Inr sk"
    using dk.priv_priv [OF _ _ s2, of "[97]"] rel by (simp add: relative_names_def)
  with dilithium_key_manager_roundtrip [OF echo_keypairs_ok rel gen s1(1) s2, of "[1]"] gen s1(1) s2 show ?thesis
    by (auto simp: Let_def)
qed



text \<open>A name that is an absolute path leaves the directory of the manager.\<close>

lemma absolute_key_name_escapes:
  assumes "is_absolute n" and "dk_store_public_key km n k fs = Inr fs'"
  shows "fs_files fs' = (fs_files fs)(n @ str_lit ''.public'' \<mapsto> k)"
  using assms by (auto simp: dk_store_public_key_def write_key_def path_join_def is_absolute_def split: if_splits)

end
