(* ===== verification/Py_Bindings.thy ===== *)
theory Py_Bindings
  imports Ledger Key_Manager
begin

text \<open>
  \<^verbatim>\<open>src/py_bindings.rs\<close>: the classes that Python programs use. A coroutine is its effect on the wrapped
  server; the lock around it serialises the calls. The conversions of byte strings between the two
  languages are the identity; an exception is a value of \<open>py_err\<close>, whose text is not modelled.
\<close>

datatype py_err = KmErr key_manager_error | NodeIdLength nat | ListenFailed

type_synonym 'a py_result = "py_err + 'a"

definition km_err :: "'a km_result \<Rightarrow> 'a py_result" where
  "km_err r = (case r of Inl e \<Rightarrow> Inl (KmErr e) | Inr a \<Rightarrow> Inr a)"

lemma km_err_simps [simp]: "km_err (Inl e) = Inl (KmErr e)" "km_err (Inr a) = Inr a"
  by (simp_all add: km_err_def)

lemma km_err_Inr_iff [simp]: "km_err r = Inr a \<longleftrightarrow> r = Inr a"
  by (cases r) simp_all

section \<open>PyServer\<close>

text \<open>\<open>files\<close> gives the content of the issuer key file; without a path it is the file named by the empty path.\<close>

definition py_new ::
  "'x auth_lib_scheme \<Rightarrow> (rust_str \<Rightarrow> bytes option) \<Rightarrow> (bytes \<Rightarrow> bytes) \<Rightarrow> bytes \<Rightarrow> instant \<Rightarrow>
   nat \<Rightarrow> nat \<Rightarrow> rust_str option \<Rightarrow> bytes option \<Rightarrow> bool \<Rightarrow> server py_result" where
  "py_new alib files sha1 random_bytes now ksize alpha issuer_path given_id sig_cache =
     (let path = (case issuer_path of Some p \<Rightarrow> p | None \<Rightarrow> []);
          handler = did_handler alib (files path)
      in case given_id of
           None \<Rightarrow> Inr (server_new sha1 random_bytes now handler ksize alpha None None sig_cache)
         | Some v \<Rightarrow>
             if length v = 20 then Inr (server_new sha1 random_bytes now handler ksize alpha (Some v) None sig_cache)
             else Inl (NodeIdLength (length v)))"

definition py_listen :: "bool \<Rightarrow> nat \<Rightarrow> server \<Rightarrow> unit py_result \<times> server" where
  "py_listen bind_ok secs inner =
     (let (ok, inner1) = listen bind_ok secs inner in (if ok then Inr () else Inl ListenFailed, inner1))"

definition py_bootstrap ::
  "net_lib \<Rightarrow> env \<Rightarrow> orders \<Rightarrow> (rust_str \<times> u16) list \<Rightarrow> server \<Rightarrow> ((rust_str \<times> u16) list py_result \<times> server) option" where
  "py_bootstrap lib ev od addrs inner =
     (case bootstrap lib ev od addrs inner of
        None \<Rightarrow> None
      | Some (nodes, inner1) \<Rightarrow> Some (Inr (List.map_filter address nodes), inner1))"

definition py_get ::
  "net_lib \<Rightarrow> env \<Rightarrow> orders \<Rightarrow> rust_str \<Rightarrow> server \<Rightarrow> (bytes option py_result \<times> server) option" where
  "py_get lib ev od key inner = map_option (apfst Inr) (sv_get lib ev od key inner)"

definition py_set ::
  "net_lib \<Rightarrow> env \<Rightarrow> orders \<Rightarrow> rust_str \<Rightarrow> bytes \<Rightarrow> server \<Rightarrow> (bool option py_result \<times> server) option" where
  "py_set lib ev od key value inner = map_option (apfst Inr) (sv_set lib ev od key value inner)"

definition py_update ::
  "net_lib \<Rightarrow> env \<Rightarrow> orders \<Rightarrow> rust_str \<Rightarrow> bytes \<Rightarrow> bytes option \<Rightarrow> server \<Rightarrow> (bool option py_result \<times> server) option" where
  "py_update lib ev od key value auth_signature inner =
     map_option (apfst Inr) (sv_update lib ev od key value auth_signature inner)"

definition py_delete ::
  "net_lib \<Rightarrow> env \<Rightarrow> orders \<Rightarrow> rust_str \<Rightarrow> bytes \<Rightarrow> bytes \<Rightarrow> server \<Rightarrow> (bool option py_result \<times> server) option" where
  "py_delete lib ev od key auth_signature delete_msg inner =
     map_option (apfst Inr) (sv_delete lib ev od key auth_signature delete_msg inner)"

definition py_stop :: "net_lib \<Rightarrow> env \<Rightarrow> server \<Rightarrow> unit py_result \<times> server" where
  "py_stop lib ev inner = (Inr (), stop lib ev inner)"

definition py_bootstrappable_neighbors :: "server \<Rightarrow> (rust_str \<times> u16) list py_result \<times> server" where
  "py_bootstrappable_neighbors inner = apfst Inr (bootstrappable_neighbors inner)"

text \<open>The second component is what is written to the file.\<close>

definition py_save_state :: "server \<Rightarrow> unit py_result \<times> saved_state option \<times> server" where
  "py_save_state inner = (Inr (), save_state inner)"

definition py_save_state_regularly :: "server \<Rightarrow> unit py_result \<times> server" where
  "py_save_state_regularly inner = (Inr (), save_state_regularly inner)"

section \<open>The key managers\<close>

text \<open>
  Generating keys builds a second manager with the level that was asked for, which creates the
  directory of the keys once more.
\<close>

definition py_dk_new ::
  "(rust_str \<Rightarrow> file_system \<Rightarrow> file_system) \<Rightarrow> rust_str \<Rightarrow> u8 \<Rightarrow> file_system \<Rightarrow> dilithium_key_manager \<times> file_system" where
  "py_dk_new create_dir_all keys_dir security_level fs = dk_new create_dir_all keys_dir security_level fs"

definition py_dk_generate_keypair ::
  "'x key_lib_scheme \<Rightarrow> (rust_str \<Rightarrow> file_system \<Rightarrow> file_system) \<Rightarrow> bytes \<Rightarrow> u8 option \<Rightarrow> dilithium_key_manager \<Rightarrow>
   file_system \<Rightarrow> (bytes \<times> bytes) py_result \<times> file_system" where
  "py_dk_generate_keypair lib create_dir_all rng security_level inner fs =
     (let level = (case security_level of Some l \<Rightarrow> l | None \<Rightarrow> dk_security_level inner);
          (km, fs1) = dk_new create_dir_all (dk_keys_dir inner) level fs
      in (km_err (dk_generate_keypair lib rng km), fs1))"

definition py_dk_store_public_key ::
  "dilithium_key_manager \<Rightarrow> rust_str \<Rightarrow> bytes \<Rightarrow> file_system \<Rightarrow> file_system py_result" where
  "py_dk_store_public_key inner key_name public_key fs = km_err (dk_store_public_key inner key_name public_key fs)"

definition py_dk_store_private_key ::
  "dilithium_key_manager \<Rightarrow> rust_str \<Rightarrow> bytes \<Rightarrow> file_system \<Rightarrow> file_system py_result" where
  "py_dk_store_private_key inner key_name private_key fs = km_err (dk_store_private_key inner key_name private_key fs)"

definition py_dk_get_public_key :: "dilithium_key_manager \<Rightarrow> rust_str \<Rightarrow> file_system \<Rightarrow> bytes py_result" where
  "py_dk_get_public_key inner key_name fs = km_err (dk_get_public_key inner key_name fs)"

definition py_dk_get_private_key :: "dilithium_key_manager \<Rightarrow> rust_str \<Rightarrow> file_system \<Rightarrow> bytes py_result" where
  "py_dk_get_private_key inner key_name fs = km_err (dk_get_private_key inner key_name fs)"

definition py_dk_get_jose_format ::
  "'x key_lib_scheme \<Rightarrow> dilithium_key_manager \<Rightarrow> bytes \<Rightarrow> (rust_str \<rightharpoonup> rust_str)" where
  "py_dk_get_jose_format lib inner public_key = dk_get_jose_format lib inner public_key"

definition py_dk_sign ::
  "'x key_lib_scheme \<Rightarrow> dilithium_key_manager \<Rightarrow> bytes \<Rightarrow> bytes \<Rightarrow> bytes py_result" where
  "py_dk_sign lib inner private_key message = km_err (dk_sign lib inner private_key message)"

definition py_dk_verify_signature ::
  "'x key_lib_scheme \<Rightarrow> dilithium_key_manager \<Rightarrow> bytes \<Rightarrow> bytes \<Rightarrow> bytes \<Rightarrow> bool py_result" where
  "py_dk_verify_signature lib inner public_key message signature =
     km_err (dk_verify_signature lib inner public_key message signature)"

definition py_kk_new ::
  "(rust_str \<Rightarrow> file_system \<Rightarrow> file_system) \<Rightarrow> rust_str \<Rightarrow> u16 \<Rightarrow> file_system \<Rightarrow> kyber_key_manager \<times> file_system" where
  "py_kk_new create_dir_all keys_dir security_level fs = kk_new create_dir_all keys_dir security_level fs"

definition py_kk_generate_keypair ::
  "'x key_lib_scheme \<Rightarrow> (rust_str \<Rightarrow> file_system \<Rightarrow> file_system) \<Rightarrow> bytes \<Rightarrow> u16 option \<Rightarrow> kyber_key_manager \<Rightarrow>
   file_system \<Rightarrow> (bytes \<times> bytes) py_result \<times> file_system" where
  "py_kk_generate_keypair lib create_dir_all rng security_level inner fs =
     (let level = (case security_level of Some l \<Rightarrow> l | None \<Rightarrow> kk_security_level inner);
          (km, fs1) = kk_new create_dir_all (kk_keys_dir inner) level fs
      in (km_err (kk_generate_keypair lib rng km), fs1))"

definition py_kk_store_public_key ::
  "kyber_key_manager \<Rightarrow> rust_str \<Rightarrow> bytes \<Rightarrow> file_system \<Rightarrow> file_system py_result" where
  "py_kk_store_public_key inner key_name public_key fs = km_err (kk_store_public_key inner key_name public_key fs)"

definition py_kk_store_private_key ::
  "kyber_key_manager \<Rightarrow> rust_str \<Rightarrow> bytes \<Rightarrow> file_system \<Rightarrow> file_system py_result" where
  "py_kk_store_private_key inner key_name private_key fs = km_err (kk_store_private_key inner key_name private_key fs)"

definition py_kk_get_public_key :: "kyber_key_manager \<Rightarrow> rust_str \<Rightarrow> file_system \<Rightarrow> bytes py_result" where
  "py_kk_get_public_key inner key_name fs = km_err (kk_get_public_key inner key_name fs)"

definition py_kk_get_private_key :: "kyber_key_manager \<Rightarrow> rust_str \<Rightarrow> file_system \<Rightarrow> bytes py_result" where
  "py_kk_get_private_key inner key_name fs = km_err (kk_get_private_key inner key_name fs)"

definition py_kk_get_jose_format ::
  "'x key_lib_scheme \<Rightarrow> kyber_key_manager \<Rightarrow> bytes \<Rightarrow> (rust_str \<rightharpoonup> rust_str)" where
  "py_kk_get_jose_format lib inner public_key = kk_get_jose_format lib inner public_key"

definition py_ek_new ::
  "(rust_str \<Rightarrow> file_system \<Rightarrow> file_system) \<Rightarrow> rust_str \<Rightarrow> file_system \<Rightarrow> ed25519_key_manager \<times> file_system" where
  "py_ek_new create_dir_all keys_dir fs = ek_new create_dir_all keys_dir fs"

definition py_ek_generate_keypair ::
  "'x key_lib_scheme \<Rightarrow> bytes \<Rightarrow> ed25519_key_manager \<Rightarrow> (bytes \<times> bytes) py_result" where
  "py_ek_generate_keypair lib seed inner = km_err (ek_generate_keypair lib seed inner)"

definition py_ek_store_public_key ::
  "ed25519_key_manager \<Rightarrow> rust_str \<Rightarrow> bytes \<Rightarrow> file_system \<Rightarrow> file_system py_result" where
  "py_ek_store_public_key inner key_name public_key fs = km_err (ek_store_public_key inner key_name public_key fs)"

definition py_ek_store_private_key ::
  "ed25519_key_manager \<Rightarrow> rust_str \<Rightarrow> bytes \<Rightarrow> file_system \<Rightarrow> file_system py_result" where
  "py_ek_store_private_key inner key_name private_key fs = km_err (ek_store_private_key inner key_name private_key fs)"

definition py_ek_get_public_key :: "ed25519_key_manager \<Rightarrow> rust_str \<Rightarrow> file_system \<Rightarrow> bytes py_result" where
  "py_ek_get_public_key inner key_name fs = km_err (ek_get_public_key inner key_name fs)"

definition py_ek_get_private_key :: "ed25519_key_manager \<Rightarrow> rust_str \<Rightarrow> file_system \<Rightarrow> bytes py_result" where
  "py_ek_get_private_key inner key_name fs = km_err (ek_get_private_key inner key_name fs)"

definition py_ek_get_jose_format ::
  "'x key_lib_scheme \<Rightarrow> ed25519_key_manager \<Rightarrow> bytes \<Rightarrow> (rust_str \<rightharpoonup> rust_str)" where
  "py_ek_get_jose_format lib inner public_key = ek_get_jose_format lib inner public_key"

definition py_ek_sign ::
  "'x key_lib_scheme \<Rightarrow> ed25519_key_manager \<Rightarrow> bytes \<Rightarrow> bytes \<Rightarrow> bytes py_result" where
  "py_ek_sign lib inner private_key message = km_err (ek_sign lib inner private_key message)"

definition py_ek_verify_signature ::
  "'x key_lib_scheme \<Rightarrow> ed25519_key_manager \<Rightarrow> bytes \<Rightarrow> bytes \<Rightarrow> bytes \<Rightarrow> bool py_result" where
  "py_ek_verify_signature lib inner public_key message signature =
     km_err (ek_verify_signature lib inner public_key message signature)"

section \<open>What a Python program can do with a server\<close>

text \<open>The calls of the class, and what the server does on its own in between.\<close>

inductive py_step :: "net_lib \<Rightarrow> sig_handler \<Rightarrow> bool \<Rightarrow> server \<Rightarrow> server \<Rightarrow> bool" for lib h cd where
  listen: "py_step lib h cd s (snd (py_listen bind_ok secs s))"
| bootstrap: "orders_ok od \<Longrightarrow> calm lib h (sv_node s) cd ev \<Longrightarrow> py_bootstrap lib ev od addrs s = Some (r, s') \<Longrightarrow>
    py_step lib h cd s s'"
| get: "orders_ok od \<Longrightarrow> calm lib h (sv_node s) cd ev \<Longrightarrow> py_get lib ev od key s = Some (r, s') \<Longrightarrow> py_step lib h cd s s'"
| set: "orders_ok od \<Longrightarrow> calm lib h (sv_node s) cd ev \<Longrightarrow> py_set lib ev od key v s = Some (r, s') \<Longrightarrow> py_step lib h cd s s'"
| update: "orders_ok od \<Longrightarrow> calm lib h (sv_node s) cd ev \<Longrightarrow> py_update lib ev od key v auth s = Some (r, s') \<Longrightarrow>
    py_step lib h cd s s'"
| delete: "orders_ok od \<Longrightarrow> calm lib h (sv_node s) cd ev \<Longrightarrow> py_delete lib ev od key sig msg s = Some (r, s') \<Longrightarrow>
    py_step lib h cd s s'"
| stop: "calm lib h (sv_node s) cd ev \<Longrightarrow> py_step lib h cd s (snd (py_stop lib ev s))"
| neighbors: "py_step lib h cd s (snd (py_bootstrappable_neighbors s))"
| save_state: "py_step lib h cd s (snd (snd (py_save_state s)))"
| save_loop: "py_step lib h cd s (snd (py_save_state_regularly s))"
| tick: "sv_protocol s = None \<Longrightarrow> sv_now s \<le> now \<Longrightarrow> py_step lib h cd s (s\<lparr>sv_now := now\<rparr>)"
| node: "sv_protocol s = Some p \<Longrightarrow> pr_step lib p p' \<Longrightarrow> py_step lib h cd s (s\<lparr>sv_protocol := Some p'\<rparr>)"
| save_round: "sv_protocol s = Some p \<Longrightarrow> py_step lib h cd s (s\<lparr>sv_protocol := Some (snd (save_state_round s p))\<rparr>)"
| refresh: "orders_ok od \<Longrightarrow> calm lib h (sv_node s) cd ev \<Longrightarrow> sv_protocol s = Some p \<Longrightarrow>
    refresh_round lib ev od s p = Some p' \<Longrightarrow> py_step lib h cd s (s\<lparr>sv_protocol := Some p'\<rparr>)"

lemma save_state_neighbors: "snd (save_state s) = snd (bootstrappable_neighbors s)"
  by (simp add: save_state_def Let_def split_def)

lemma py_step_server: "py_step lib h cd s s' \<Longrightarrow> sv_step lib h cd s s'"
proof (induction rule: py_step.induct)
  case (listen s bind_ok secs)
  have "snd (py_listen bind_ok secs s) = snd (listen bind_ok secs s)" by (simp add: py_listen_def Let_def split_def)
  then show ?case using sv_step.listen by simp
next
  case (neighbors s)
  then show ?case using sv_step.save_state [of lib h cd s] by (simp add: py_bootstrappable_neighbors_def save_state_neighbors)
qed (auto simp: py_bootstrap_def py_get_def py_set_def py_update_def py_delete_def py_stop_def py_save_state_def
    py_save_state_regularly_def split: option.splits intro: sv_step.intros)

interpretation python: refinement_map "py_step lib h cd" "sv_step lib h cd" "\<lambda>s. s" "\<lambda>_. True" for lib h cd
  by unfold_locales (auto dest: py_step_server)

section \<open>Properties of the bindings\<close>





end
