(* ===== verification/Receive_Loop.thy ===== *)
theory Receive_Loop
  imports Ledger "HOL-Library.Sublist"
begin

text \<open>
  The receive loop of \<open>Server::listen\<close> (\<^verbatim>\<open>src/network.rs\<close>): datagrams go into the bounded queues of a fixed
  number of workers, each of which hands its queue in order to \<open>handle_datagram\<close>. When all queues are
  full the loop waits for room in one of them and receives nothing meanwhile.
\<close>

section \<open>The loop and the workers\<close>

type_synonym datagram = "bytes \<times> socket_addr"

definition WORKER_QUEUE_DEPTH :: nat where
  "WORKER_QUEUE_DEPTH = 256"

text \<open>The queues, the round-robin position, and the datagram whose \<open>send\<close> is being awaited.\<close>

record receiver =
  rl_senders :: "datagram list list"
  rl_idx :: nat
  rl_sending :: "(nat \<times> datagram) option"

definition rl_new :: "nat \<Rightarrow> receiver" where
  "rl_new num_workers = \<lparr>rl_senders = replicate num_workers [], rl_idx = 0, rl_sending = None\<rparr>"

definition has_room :: "receiver \<Rightarrow> nat \<Rightarrow> bool" where
  "has_room r w \<longleftrightarrow> length (rl_senders r ! w) < WORKER_QUEUE_DEPTH"

text \<open>A successful send, and the position after it.\<close>

definition rl_send :: "nat \<Rightarrow> datagram \<Rightarrow> receiver \<Rightarrow> receiver" where
  "rl_send w d r =
     r\<lparr>rl_senders := (rl_senders r)[w := rl_senders r ! w @ [d]], rl_idx := (w + 1) mod length (rl_senders r), rl_sending := None\<rparr>"

definition rl_receive :: "datagram \<Rightarrow> receiver \<Rightarrow> receiver" where
  "rl_receive d r =
     (let (w, _) = pick_worker (has_room r) (length (rl_senders r)) (rl_idx r)
      in if has_room r w then rl_send w d r else r\<lparr>rl_sending := Some (w, d)\<rparr>)"

definition rl_resume :: "receiver \<Rightarrow> receiver option" where
  "rl_resume r =
     (case rl_sending r of
        Some (w, d) \<Rightarrow> if has_room r w then Some (rl_send w d r) else None
      | None \<Rightarrow> None)"

definition rl_take :: "nat \<Rightarrow> receiver \<Rightarrow> (datagram \<times> receiver) option" where
  "rl_take w r =
     (if w < length (rl_senders r)
      then case rl_senders r ! w of
             [] \<Rightarrow> None
           | d # ds \<Rightarrow> Some (d, r\<lparr>rl_senders := (rl_senders r)[w := ds]\<rparr>)
      else None)"

section \<open>Runs\<close>

datatype rl_event = Received datagram | Handled nat datagram | Internal

text \<open>
  The loop receives, a waiting send completes, a worker handles the next datagram of its queue, or
  the node does anything else.
\<close>

inductive rl_step :: "net_lib \<Rightarrow> receiver \<times> protocol \<Rightarrow> rl_event \<Rightarrow> receiver \<times> protocol \<Rightarrow> bool" for lib where
  receive: "rl_sending r = None \<Longrightarrow> rl_step lib (r, p) (Received d) (rl_receive d r, p)"
| resume: "rl_resume r = Some r' \<Longrightarrow> rl_step lib (r, p) Internal (r', p)"
| work: "rl_take w r = Some (d, r') \<Longrightarrow> handle_datagram lib ev (fst d) (snd d) p = Some p' \<Longrightarrow>
    rl_step lib (r, p) (Handled w d) (r', p')"
| node: "pr_step lib p p' \<Longrightarrow> rl_step lib (r, p) Internal (r, p')"

inductive rl_run :: "net_lib \<Rightarrow> receiver \<times> protocol \<Rightarrow> rl_event list \<Rightarrow> receiver \<times> protocol \<Rightarrow> bool" for lib where
  start: "rl_run lib s [] s"
| more: "rl_run lib s es t \<Longrightarrow> rl_step lib t e u \<Longrightarrow> rl_run lib s (es @ [e]) u"

inductive_cases rl_stepE: "rl_step lib (r, p) e t"

definition received :: "rl_event list \<Rightarrow> datagram list" where
  "received es = List.map_filter (\<lambda>e. case e of Received d \<Rightarrow> Some d | _ \<Rightarrow> None) es"

definition handled_by :: "nat \<Rightarrow> rl_event list \<Rightarrow> datagram list" where
  "handled_by w es = List.map_filter (\<lambda>e. case e of Handled v d \<Rightarrow> if v = w then Some d else None | _ \<Rightarrow> None) es"

definition handled :: "rl_event list \<Rightarrow> datagram list" where
  "handled es = List.map_filter (\<lambda>e. case e of Handled _ d \<Rightarrow> Some d | _ \<Rightarrow> None) es"

definition in_transit :: "receiver \<Rightarrow> datagram multiset" where
  "in_transit r = mset (concat (rl_senders r)) + (case rl_sending r of Some (_, d) \<Rightarrow> {#d#} | None \<Rightarrow> {#})"

lemma event_lists [simp]:
  "received [] = []" "handled [] = []" "handled_by w [] = []"
  "received (es @ [e]) = received es @ (case e of Received d \<Rightarrow> [d] | _ \<Rightarrow> [])"
  "handled (es @ [e]) = handled es @ (case e of Handled _ d \<Rightarrow> [d] | _ \<Rightarrow> [])"
  "handled_by w (es @ [e]) = handled_by w es @ (case e of Handled v d \<Rightarrow> if v = w then [d] else [] | _ \<Rightarrow> [])"
  by (simp_all add: received_def handled_def handled_by_def List.map_filter_def split: rl_event.split)

lemma mset_concat_update:
  "w < length qs \<Longrightarrow> mset (concat (qs[w := q])) + mset (qs ! w) = mset (concat qs) + mset q"
proof (induction qs arbitrary: w)
  case (Cons a qs)
  then show ?case by (cases w) (auto simp: add.assoc add.commute)
qed simp

lemma in_transit_send: "w < length (rl_senders r) \<Longrightarrow> rl_sending r = None \<Longrightarrow> in_transit (rl_send w d r) = add_mset d (in_transit r)"
  using mset_concat_update [of w "rl_senders r" "rl_senders r ! w @ [d]"] by (simp add: in_transit_def rl_send_def)

section \<open>What the loop keeps\<close>

text \<open>
  Nothing is lost or duplicated, the queues are bounded, and what a worker has handled and still
  holds is in the order of arrival. A datagram whose send is being awaited is the last one received.
\<close>

definition queues_ordered :: "rl_event list \<Rightarrow> receiver \<Rightarrow> datagram list \<Rightarrow> bool" where
  "queues_ordered es r ds \<longleftrightarrow> (\<forall>w < length (rl_senders r). subseq (handled_by w es @ rl_senders r ! w) ds)"

definition rl_inv :: "nat \<Rightarrow> rl_event list \<Rightarrow> receiver \<Rightarrow> bool" where
  "rl_inv n es r \<longleftrightarrow> length (rl_senders r) = n \<and> (\<forall>w < n. length (rl_senders r ! w) \<le> WORKER_QUEUE_DEPTH) \<and>
     mset (received es) = mset (handled es) + in_transit r \<and>
     (case rl_sending r of
        None \<Rightarrow> queues_ordered es r (received es)
      | Some (w, d) \<Rightarrow> w < n \<and> (\<exists>ds. received es = ds @ [d] \<and> queues_ordered es r ds))"

lemma rl_send_sel [simp]:
  "rl_senders (rl_send w d r) = (rl_senders r)[w := rl_senders r ! w @ [d]]" "rl_sending (rl_send w d r) = None"
  by (simp_all add: rl_send_def)

lemma queues_ordered_send:
  assumes "queues_ordered es r ds" and "\<forall>v. handled_by v es' = handled_by v es"
  shows "queues_ordered es' (rl_send w d r) (ds @ [d])"
  unfolding queues_ordered_def
proof (intro allI impI)
  fix v
  assume "v < length (rl_senders (rl_send w d r))"
  then have v: "v < length (rl_senders r)" "subseq (handled_by v es @ rl_senders r ! v) ds"
    using assms(1) by (simp_all add: queues_ordered_def)
  show "subseq (handled_by v es' @ rl_senders (rl_send w d r) ! v) (ds @ [d])"
  proof (cases "v = w")
    case True
    from list_emb_append_mono [OF v(2) subseq_order.order_refl [of "[d]"]] show ?thesis using True v(1) assms(2) by simp
  next
    case False
    from list_emb_append_mono [OF v(2) list_emb_Nil [of "(=)" "[d]"]] show ?thesis using False v(1) assms(2) by simp
  qed
qed

lemma queues_bounded_send:
  "\<forall>v < n. length (rl_senders r ! v) \<le> WORKER_QUEUE_DEPTH \<Longrightarrow> has_room r w \<Longrightarrow> length (rl_senders r) = n \<Longrightarrow>
     \<forall>v < n. length (rl_senders (rl_send w d r) ! v) \<le> WORKER_QUEUE_DEPTH"
proof (intro allI impI)
  fix v
  assume "\<forall>v < n. length (rl_senders r ! v) \<le> WORKER_QUEUE_DEPTH" "has_room r w" "length (rl_senders r) = n" "v < n"
  then show "length (rl_senders (rl_send w d r) ! v) \<le> WORKER_QUEUE_DEPTH"
    by (cases "v = w") (simp_all add: has_room_def)
qed

lemma rl_inv_receive:
  assumes "0 < n" and "rl_inv n es r" and "rl_sending r = None"
  shows "rl_inv n (es @ [Received d]) (rl_receive d r)"
proof -
  obtain w i where w: "pick_worker (has_room r) n (rl_idx r) = (w, i)" by fastforce
  have "w < n" using pick_worker_round_robin [OF assms(1) w] by blast
  have inv: "length (rl_senders r) = n" "\<forall>v < n. length (rl_senders r ! v) \<le> WORKER_QUEUE_DEPTH"
    "mset (received es) = mset (handled es) + in_transit r" "queues_ordered es r (received es)"
    using assms(2,3) by (simp_all add: rl_inv_def)
  show ?thesis
  proof (cases "has_room r w")
    case True
    have "rl_receive d r = rl_send w d r" using w True inv(1) by (simp add: rl_receive_def)
    then show ?thesis
      using inv queues_bounded_send [OF inv(2) True inv(1), of d] queues_ordered_send [OF inv(4), of "es @ [Received d]" w d]
        in_transit_send [of w r d] \<open>w < n\<close> assms(3) by (simp add: rl_inv_def)
  next
    case False
    have "rl_receive d r = r\<lparr>rl_sending := Some (w, d)\<rparr>" using w False inv(1) by (simp add: rl_receive_def)
    then show ?thesis using inv \<open>w < n\<close> assms(3) by (simp add: rl_inv_def in_transit_def queues_ordered_def)
  qed
qed

lemma rl_inv_resume:
  assumes "rl_inv n es r" and "rl_resume r = Some r'"
  shows "rl_inv n (es @ [Internal]) r'"
proof -
  obtain w d where s: "rl_sending r = Some (w, d)" "has_room r w" "r' = rl_send w d r"
    using assms(2) by (auto simp: rl_resume_def split: option.splits if_splits)
  then obtain ds where inv: "length (rl_senders r) = n" "\<forall>v < n. length (rl_senders r ! v) \<le> WORKER_QUEUE_DEPTH"
    "mset (received es) = mset (handled es) + in_transit r" "w < n" "received es = ds @ [d]" "queues_ordered es r ds"
    using assms(1) by (auto simp: rl_inv_def)
  have "in_transit r' = in_transit r"
    using mset_concat_update [of w "rl_senders r" "rl_senders r ! w @ [d]"] inv(1,4) s by (simp add: in_transit_def)
  then show ?thesis
    using inv queues_bounded_send [OF inv(2) s(2) inv(1), of d] queues_ordered_send [OF inv(6), of "es @ [Internal]" w d] s(3)
    by (simp add: rl_inv_def)
qed

lemma rl_inv_take:
  assumes "rl_inv n es r" and "rl_take w r = Some (d, r')"
  shows "rl_inv n (es @ [Handled w d]) r'"
proof -
  obtain ds where t: "w < length (rl_senders r)" "rl_senders r ! w = d # ds" "r' = r\<lparr>rl_senders := (rl_senders r)[w := ds]\<rparr>"
    using assms(2) by (auto simp: rl_take_def split: if_splits list.splits)
  have same: "handled_by v (es @ [Handled w d]) @ rl_senders r' ! v = handled_by v es @ rl_senders r ! v" for v
    using t by (cases "v = w") auto
  then have ord: "queues_ordered (es @ [Handled w d]) r' xs \<longleftrightarrow> queues_ordered es r xs" for xs
    by (simp add: queues_ordered_def t(3))
  have transit: "add_mset d (in_transit r') = in_transit r"
    using mset_concat_update [of w "rl_senders r" ds] t by (simp add: in_transit_def)
  have "length (rl_senders r' ! v) \<le> length (rl_senders r ! v)" for v using t by (cases "v = w") auto
  then have bounded: "\<forall>v < n. length (rl_senders r' ! v) \<le> WORKER_QUEUE_DEPTH"
    using assms(1) le_trans unfolding rl_inv_def by blast
  have sel: "rl_sending r' = rl_sending r" "length (rl_senders r') = length (rl_senders r)" by (simp_all add: t(3))
  have "mset (received es) = mset (handled es) + in_transit r" using assms(1) unfolding rl_inv_def by blast
  then have "mset (received es) = mset (handled (es @ [Handled w d])) + in_transit r'"
    unfolding transit [symmetric] by simp
  moreover have same_received: "received (es @ [Handled w d]) = received es" by simp
  ultimately show ?thesis using assms(1) bounded unfolding rl_inv_def sel ord same_received by blast
qed

lemma rl_inv_node: "rl_inv n es r \<Longrightarrow> rl_inv n (es @ [Internal]) r"
  by (auto simp: rl_inv_def queues_ordered_def split: option.splits)

lemma rl_run_inv:
  assumes "rl_run lib s es t" and "s = (rl_new n, p0)" and "0 < n"
  shows "rl_inv n es (fst t) \<and> (pr_step lib)\<^sup>*\<^sup>* p0 (snd t)"
  using assms
proof (induction rule: rl_run.induct)
  case (start s)
  then show ?case by (simp add: rl_new_def rl_inv_def in_transit_def queues_ordered_def)
next
  case (more s es t e u)
  then have IH: "rl_inv n es (fst t)" "(pr_step lib)\<^sup>*\<^sup>* p0 (snd t)" by blast+
  from more.hyps(2) IH show ?case
  proof (cases rule: rl_step.cases)
    case (receive r p d)
    then show ?thesis using IH rl_inv_receive [OF more.prems(2)] by simp
  next
    case (resume r r' p)
    then show ?thesis using IH rl_inv_resume by simp
  next
    case (work w r d r' ev p p')
    then show ?thesis using IH rl_inv_take pr_step.datagram [of lib ev "fst d" "snd d" p p'] by (simp add: rtranclp.rtrancl_into_rtrancl)
  next
    case (node p p' r)
    then show ?thesis using IH rl_inv_node by (simp add: rtranclp.rtrancl_into_rtrancl)
  qed
qed

section \<open>Properties of the loop\<close>

lemma waiting_worker_full:
  assumes "rl_inv n es r" and "rl_sending r = Some (w, d)" and "rl_resume r = None"
  shows "\<exists>d' r' r''. rl_take w r = Some (d', r') \<and> rl_resume r' = Some r''"
proof -
  have w: "w < length (rl_senders r)" "length (rl_senders r ! w) = WORKER_QUEUE_DEPTH"
    using assms by (auto simp: rl_inv_def rl_resume_def has_room_def not_less le_antisym split: if_splits)
  then obtain d' ds where q: "rl_senders r ! w = d' # ds" "length ds < WORKER_QUEUE_DEPTH"
    by (cases "rl_senders r ! w") (auto simp: WORKER_QUEUE_DEPTH_def)
  then show ?thesis using w(1) assms(2) by (simp add: rl_take_def rl_resume_def has_room_def)
qed

text \<open>
  C18. The receive loop and its workers deliver: in every run, whatever else the node does, every
  received datagram was handled once or is in exactly one queue or waiting to be sent to one; each
  queue holds at most 256; each worker handles its datagrams in the order of arrival; the node takes
  only steps of its own relation; and a loop that waits for room never waits for a worker
  without work: as soon as that worker takes its next datagram, the loop goes on.
\<close>

theorem receive_loop_delivers:
  assumes "0 < n" and "rl_run lib (rl_new n, p0) es (r, p)"
  shows "mset (received es) = mset (handled es) + in_transit r \<and>
    (\<forall>w < n. length (rl_senders r ! w) \<le> WORKER_QUEUE_DEPTH \<and> subseq (handled_by w es @ rl_senders r ! w) (received es)) \<and>
    (pr_step lib)\<^sup>*\<^sup>* p0 p \<and>
    (\<forall>w d. rl_sending r = Some (w, d) \<longrightarrow> rl_resume r = None \<longrightarrow>
       (\<exists>d' r' r''. rl_take w r = Some (d', r') \<and> rl_resume r' = Some r''))"
proof -
  have inv: "rl_inv n es r" and run: "(pr_step lib)\<^sup>*\<^sup>* p0 p"
    using rl_run_inv [OF assms(2) refl assms(1)] by simp_all
  have ordered: "subseq (handled_by w es @ rl_senders r ! w) (received es)" if w: "w < n" for w
  proof (cases "rl_sending r")
    case None
    with inv w show ?thesis by (simp add: rl_inv_def queues_ordered_def)
  next
    case (Some vd)
    then obtain v d where "rl_sending r = Some (v, d)" by (cases vd) simp
    with inv obtain ds where "received es = ds @ [d]" "subseq (handled_by w es @ rl_senders r ! w) ds"
      using w by (auto simp: rl_inv_def queues_ordered_def)
    then show ?thesis using list_emb_append_mono [of "(=)" _ ds "[]" "[d]"] by fastforce
  qed
  have "mset (received es) = mset (handled es) + in_transit r" "\<forall>w < n. length (rl_senders r ! w) \<le> WORKER_QUEUE_DEPTH"
    using inv unfolding rl_inv_def by blast+
  then show ?thesis using ordered run waiting_worker_full [OF inv] by blast
qed

text \<open>A datagram too short for a fragment header goes through one of two workers.\<close>

theorem receive_loop_delivers_witness:
  "\<exists>r. rl_run demo_lib (rl_new 2, demo_start False) [Received ([], V4 (127, 0, 0, 1) 9), Handled 0 ([], V4 (127, 0, 0, 1) 9)] (r, demo_start False) \<and>
     in_transit r = {#}"
proof -
  let ?d = "([], V4 (127, 0, 0, 1) 9) :: datagram"
  let ?r = "\<lparr>rl_senders = [[?d], []], rl_idx = 1, rl_sending = None\<rparr>"
  have "rl_receive ?d (rl_new 2) = ?r"
    by (simp add: rl_receive_def rl_new_def pick_worker_def has_room_def WORKER_QUEUE_DEPTH_def rl_send_def numeral_2_eq_2 upt_rec)
  then have "rl_step demo_lib (rl_new 2, demo_start False) (Received ?d) (?r, demo_start False)"
    using rl_step.receive [of "rl_new 2" demo_lib "demo_start False" ?d] by (simp add: rl_new_def)
  note one = rl_run.more [OF rl_run.start this]
  have "rl_take 0 ?r = Some (?d, \<lparr>rl_senders = [[], []], rl_idx = 1, rl_sending = None\<rparr>)" by (simp add: rl_take_def)
  moreover have "handle_datagram demo_lib plain_env (fst ?d) (snd ?d) (demo_start False) = Some (demo_start False)"
    by (simp add: handle_datagram_def parse_fragment_def FRAG_HEADER_LEN_def)
  ultimately have "rl_step demo_lib (?r, demo_start False) (Handled 0 ?d) (\<lparr>rl_senders = [[], []], rl_idx = 1, rl_sending = None\<rparr>, demo_start False)"
    by (rule rl_step.work)
  note run = rl_run.more [OF one this]
  then show ?thesis using receive_loop_delivers [OF _ run] by (auto simp: received_def handled_def List.map_filter_def)
qed

end
