(* ===== verification/Exchange.thy ===== *)
theory Exchange
  imports Ledger
begin

text \<open>
  Two nodes on a network: a call of one node, the datagrams of its request handled by the other, and the
  datagrams of the response handled by the first while it waits. The network may reorder the
  datagrams of a frame. The calls and the handlers are those of \<^verbatim>\<open>src/protocol.rs\<close>; what crosses
  the network is what \<open>send_frame\<close> recorded.
\<close>

section \<open>Carrying datagrams\<close>

definition sent_after :: "protocol \<Rightarrow> protocol \<Rightarrow> bytes list" where
  "sent_after p p1 = map snd (drop (length (pr_sent p)) (pr_sent p1))"

text \<open>
  \<open>p\<close> is the caller before the call and \<open>q\<close> while it waits; the result is the caller after the response
  arrived and the other node.
\<close>

definition exchange ::
  "net_lib \<Rightarrow> env \<Rightarrow> socket_addr \<Rightarrow> socket_addr \<Rightarrow> (bytes list \<Rightarrow> bytes list) \<Rightarrow> protocol \<Rightarrow> protocol \<Rightarrow> protocol \<Rightarrow>
   (protocol \<times> protocol) option" where
  "exchange lib ev caller callee reorder p q b =
     (case handle_all lib ev caller (reorder (sent_after p q)) b of
        None \<Rightarrow> None
      | Some b1 \<Rightarrow>
          (case handle_all lib ev callee (reorder (sent_after b b1)) q of
             None \<Rightarrow> None
           | Some q1 \<Rightarrow> Some (q1, b1)))"

text \<open>A frame that the serialiser carries and that fits into the fragments a receiver takes.\<close>

definition wire_ok :: "net_lib \<Rightarrow> frame \<Rightarrow> bool" where
  "wire_ok lib f \<longleftrightarrow> (\<exists>bs. nl_serialize lib f = Some bs \<and> nl_deserialize lib bs = Some f \<and> length bs \<le> 187 * FRAG_CHUNK_SIZE)"

definition reordering :: "(bytes list \<Rightarrow> bytes list) \<Rightarrow> bool" where
  "reordering reorder \<longleftrightarrow> (\<forall>xs. mset (reorder xs) = mset xs)"

lemma send_frame_sent:
  assumes "\<forall>q d. ev_send_ok ev q addr d" and "nl_serialize lib f = Some bs" and "length bs \<le> 187 * FRAG_CHUNK_SIZE"
  shows "send_frame lib ev addr f p =
    (True, p\<lparr>pr_next_frag_id := pr_next_frag_id p + 1, pr_sent := pr_sent p @ map (Pair addr) (encode_fragments (pr_next_frag_id p) bs)\<rparr>)"
proof -
  have "length bs \<le> MAX_MESSAGE_SIZE" using assms(3) by (simp add: FRAG_CHUNK_SIZE_def MAX_MESSAGE_SIZE_def)
  then show ?thesis using assms(1,2) by (simp add: send_frame_def next_frag_id_val_def send_datagrams_all)
qed

lemma call_start_sent:
  assumes "\<forall>q d. ev_send_ok ev q addr d" and "nl_serialize lib \<lparr>fr_msg_id = pr_next_msg_id p, fr_is_request = True, fr_message = m\<rparr> = Some bs"
    and "length bs \<le> 187 * FRAG_CHUNK_SIZE"
  shows "\<exists>p1. call_start lib ev addr m p = (Some (pr_next_msg_id p, pr_next_chan p), p1) \<and>
    sent_after p p1 = encode_fragments (pr_next_frag_id p) bs \<and> pr_reassembly p1 = pr_reassembly p \<and>
    pr_pending p1 (pr_next_msg_id p) = Some (pr_next_chan p)"
  using assms by (simp add: call_start_def next_id_def send_frame_sent [OF assms(1)] sent_after_def comp_def Let_def)

text \<open>The state of the callee after it dispatched the request and sent its response.\<close>

lemma serve_request:
  assumes "reordering reorder" and "\<forall>q d. ev_send_ok ev q caller d"
    and "nl_serialize lib f = Some bs" "nl_deserialize lib bs = Some f" "length bs \<le> 187 * FRAG_CHUNK_SIZE" and "fr_is_request f"
    and "pr_reassembly b (caller, fid) = None"
    and "dispatch_request lib ev (fr_message f) caller (reassembled bs b) = Some (Some resp, b0)"
    and "pr_sent b0 = pr_sent b" and "pr_next_frag_id b0 = pr_next_frag_id b"
    and "nl_serialize lib \<lparr>fr_msg_id = fr_msg_id f, fr_is_request = False, fr_message = resp\<rparr> = Some rs" "length rs \<le> 187 * FRAG_CHUNK_SIZE"
  shows "\<exists>b1. handle_all lib ev caller (reorder (encode_fragments fid bs)) b = Some b1 \<and>
    sent_after b b1 = encode_fragments (pr_next_frag_id b) rs \<and> (\<exists>x y. b1 = b0\<lparr>pr_next_frag_id := x, pr_sent := y\<rparr>)"
proof -
  have "mset (reorder (encode_fragments fid bs)) = mset (encode_fragments fid bs)" using assms(1) by (simp add: reordering_def)
  then have "handle_all lib ev caller (reorder (encode_fragments fid bs)) b = handle_payload lib ev bs caller (reassembled bs b)"
    by (rule frame_delivered [OF assms(5) _ assms(7)])
  also have "\<dots> = Some (snd (send_frame lib ev caller \<lparr>fr_msg_id = fr_msg_id f, fr_is_request = False, fr_message = resp\<rparr> b0))"
    using handle_payload_request [OF assms(4,6)] assms(8) by simp
  finally show ?thesis using assms(9,10) by (auto simp: send_frame_sent [OF assms(2,11,12)] sent_after_def comp_def)
qed

lemma take_response:
  assumes "reordering reorder" and "nl_deserialize lib rs = Some f" "length rs \<le> 187 * FRAG_CHUNK_SIZE" and "\<not> fr_is_request f"
    and "pr_reassembly q (callee, fid) = None" and "pr_pending q (fr_msg_id f) = Some chan"
  shows "\<exists>q1. handle_all lib ev callee (reorder (encode_fragments fid rs)) q = Some q1 \<and> pr_inbox q1 chan = Some (fr_message f)"
proof -
  have "mset (reorder (encode_fragments fid rs)) = mset (encode_fragments fid rs)" using assms(1) by (simp add: reordering_def)
  then have "handle_all lib ev callee (reorder (encode_fragments fid rs)) q = handle_payload lib ev rs callee (reassembled rs q)"
    by (rule frame_delivered [OF assms(3) _ assms(5)])
  moreover have "pr_pending (reassembled rs q) = pr_pending q" by (simp add: gc_reassembly_def)
  ultimately show ?thesis using handle_payload_response [OF assms(2,4), of ev callee "reassembled rs q"] assms(6) by auto
qed

section \<open>A call and its answer\<close>

text \<open>
  The caller waits for exactly one exchange with the callee in state \<open>b\<close>; neither node has a partial
  message of the other under the fragment number that is used.
\<close>

definition connected ::
  "net_lib \<Rightarrow> env \<Rightarrow> env \<Rightarrow> socket_addr \<Rightarrow> socket_addr \<Rightarrow> (bytes list \<Rightarrow> bytes list) \<Rightarrow> protocol \<Rightarrow> protocol \<Rightarrow> bool" where
  "connected lib ev ev' caller callee reorder p b \<longleftrightarrow>
     reordering reorder \<and> (\<forall>q d. ev_send_ok ev q callee d) \<and> (\<forall>q d. ev_send_ok ev' q caller d) \<and>
     pr_reassembly b (caller, pr_next_frag_id p) = None \<and> pr_reassembly p (callee, pr_next_frag_id b) = None \<and>
     (\<forall>q. ev_wait ev q = (case exchange lib ev' caller callee reorder p q b of Some (q1, _) \<Rightarrow> q1 | None \<Rightarrow> q))"

lemma call_answered:
  assumes "connected lib ev ev' caller callee reorder p b"
    and "nl_serialize lib \<lparr>fr_msg_id = pr_next_msg_id p, fr_is_request = True, fr_message = m\<rparr> = Some bs"
      "nl_deserialize lib bs = Some \<lparr>fr_msg_id = pr_next_msg_id p, fr_is_request = True, fr_message = m\<rparr>" "length bs \<le> 187 * FRAG_CHUNK_SIZE"
    and "wire_ok lib \<lparr>fr_msg_id = pr_next_msg_id p, fr_is_request = False, fr_message = resp\<rparr>"
    and "dispatch_request lib ev' m caller (reassembled bs b) = Some (Some resp, b0)"
    and "pr_sent b0 = pr_sent b" and "pr_next_frag_id b0 = pr_next_frag_id b"
  shows "\<exists>q1 b1. fst (call lib ev callee m p) = Some resp \<and>
    exchange lib ev' caller callee reorder p (snd (call_start lib ev callee m p)) b = Some (q1, b1) \<and>
    (\<exists>x y. b1 = b0\<lparr>pr_next_frag_id := x, pr_sent := y\<rparr>)"
proof -
  let ?i = "pr_next_msg_id p"
  have c: "reordering reorder" "\<forall>q d. ev_send_ok ev q callee d" "\<forall>q d. ev_send_ok ev' q caller d"
    "pr_reassembly b (caller, pr_next_frag_id p) = None" "pr_reassembly p (callee, pr_next_frag_id b) = None"
    and wait: "ev_wait ev q = (case exchange lib ev' caller callee reorder p q b of Some (q1, _) \<Rightarrow> q1 | None \<Rightarrow> q)" for q
    using assms(1) unfolding connected_def by blast+
  obtain rs where rs: "nl_serialize lib \<lparr>fr_msg_id = ?i, fr_is_request = False, fr_message = resp\<rparr> = Some rs"
    "nl_deserialize lib rs = Some \<lparr>fr_msg_id = ?i, fr_is_request = False, fr_message = resp\<rparr>" "length rs \<le> 187 * FRAG_CHUNK_SIZE"
    using assms(5) unfolding wire_ok_def by blast
  obtain q where q: "call_start lib ev callee m p = (Some (?i, pr_next_chan p), q)" "sent_after p q = encode_fragments (pr_next_frag_id p) bs"
    "pr_reassembly q = pr_reassembly p" "pr_pending q ?i = Some (pr_next_chan p)"
    using call_start_sent [OF c(2) assms(2,4)] by blast
  obtain b1 where b1: "handle_all lib ev' caller (reorder (encode_fragments (pr_next_frag_id p) bs)) b = Some b1"
    "sent_after b b1 = encode_fragments (pr_next_frag_id b) rs" "\<exists>x y. b1 = b0\<lparr>pr_next_frag_id := x, pr_sent := y\<rparr>"
    using serve_request [OF c(1,3) assms(2-4) _ c(4) _ assms(7,8), of resp rs] assms(6) rs(1,3) by auto
  obtain q1 where q1: "handle_all lib ev' callee (reorder (encode_fragments (pr_next_frag_id b) rs)) q = Some q1"
    "pr_inbox q1 (pr_next_chan p) = Some resp"
    using take_response [OF c(1) rs(2,3), of q callee "pr_next_frag_id b" "pr_next_chan p" ev'] q(3,4) c(5) by auto
  have e: "exchange lib ev' caller callee reorder p q b = Some (q1, b1)" using q(2) b1(1,2) q1(1) by (simp add: exchange_def)
  then have "fst (call lib ev callee m p) = Some resp" using q(1) q1(2) by (simp add: call_def call_finish_def wait)
  with e q(1) b1(3) show ?thesis by simp
qed

section \<open>Storing and finding over the network\<close>

lemma gc_reassembly_keeps [simp]:
  "pr_storage (gc_reassembly b) = pr_storage b" "pr_now (gc_reassembly b) = pr_now b"
  "pr_sent (gc_reassembly b) = pr_sent b" "pr_next_frag_id (gc_reassembly b) = pr_next_frag_id b"
  "pr_router (gc_reassembly b) = pr_router b" "pr_secs (gc_reassembly b) = pr_secs b"
  by (simp_all add: gc_reassembly_def)

lemma verify_for_key_frame:
  "fst (verify_for_key lib key v (gc_reassembly b)) = fst (verify_for_key lib key v b)"
  "snd (verify_for_key lib key v b) = b\<lparr>pr_sig_cache := pr_sig_cache (snd (verify_for_key lib key v b))\<rparr>"
proof -
  show "fst (verify_for_key lib key v (gc_reassembly b)) = fst (verify_for_key lib key v b)"
    by (simp add: verify_for_key_def gc_reassembly_def Let_def split: option.split)
  show "snd (verify_for_key lib key v b) = b\<lparr>pr_sig_cache := pr_sig_cache (snd (verify_for_key lib key v b))\<rparr>"
    by (simp add: verify_for_key_def Let_def split: option.split)
qed

lemma rpc_store_frame:
  "pr_now (snd (rpc_store lib i a key v b)) = pr_now b" "pr_sent (snd (rpc_store lib i a key v b)) = pr_sent b"
  "pr_next_frag_id (snd (rpc_store lib i a key v b)) = pr_next_frag_id b"
  "pr_reassembly (snd (rpc_store lib i a key v b)) = pr_reassembly b" "pr_secs (snd (rpc_store lib i a key v b)) = pr_secs b"
  "fst (rpc_store lib i a key v b) \<Longrightarrow> pr_router (snd (rpc_store lib i a key v b)) = pr_router b"
proof -
  obtain ok c where v: "verify_for_key lib key v b = (ok, b\<lparr>pr_sig_cache := c\<rparr>)"
    using verify_for_key_frame(2) by (metis prod.collapse)
  show "pr_now (snd (rpc_store lib i a key v b)) = pr_now b" "pr_sent (snd (rpc_store lib i a key v b)) = pr_sent b"
    "pr_next_frag_id (snd (rpc_store lib i a key v b)) = pr_next_frag_id b"
    "pr_reassembly (snd (rpc_store lib i a key v b)) = pr_reassembly b" "pr_secs (snd (rpc_store lib i a key v b)) = pr_secs b"
    "fst (rpc_store lib i a key v b) \<Longrightarrow> pr_router (snd (rpc_store lib i a key v b)) = pr_router b"
    by (simp_all add: rpc_store_def v Let_def spawn_def split: prod.splits if_splits)
qed

text \<open>A store over the network does at the other node what its handler does, and returns what it decided.\<close>

lemma remote_store:
  assumes "connected lib ev ev' caller callee reorder p b" and "peer_sock_addr peer = Some callee"
    and "wire_ok lib \<lparr>fr_msg_id = pr_next_msg_id p, fr_is_request = True, fr_message = Store (node_id (pr_source_node p)) key v\<rparr>"
    and "\<forall>ok. wire_ok lib \<lparr>fr_msg_id = pr_next_msg_id p, fr_is_request = False, fr_message = StoreResult ok\<rparr>"
  shows "\<exists>q1 b' x y. b' \<in> {b, gc_reassembly b} \<and>
    (let (ok, b0) = rpc_store lib (node_id (pr_source_node p)) (sa_ip_string caller, sa_port caller) key v b'
     in fst (call_store_rpc lib ev peer key v p) = ok \<and>
        exchange lib ev' caller callee reorder p (snd (call_start lib ev callee (Store (node_id (pr_source_node p)) key v) p)) b =
          Some (q1, b0\<lparr>pr_next_frag_id := x, pr_sent := y\<rparr>))"
proof -
  let ?m = "Store (node_id (pr_source_node p)) key v" and ?a = "(sa_ip_string caller, sa_port caller)"
  obtain bs where bs: "nl_serialize lib \<lparr>fr_msg_id = pr_next_msg_id p, fr_is_request = True, fr_message = ?m\<rparr> = Some bs"
    "nl_deserialize lib bs = Some \<lparr>fr_msg_id = pr_next_msg_id p, fr_is_request = True, fr_message = ?m\<rparr>" "length bs \<le> 187 * FRAG_CHUNK_SIZE"
    using assms(3) unfolding wire_ok_def by blast
  let ?b = "reassembled bs b"
  obtain ok b0 where s: "rpc_store lib (node_id (pr_source_node p)) ?a key v ?b = (ok, b0)" by fastforce
  have d: "dispatch_request lib ev' ?m caller ?b = Some (Some (StoreResult ok), b0)" using s by simp
  have same: "pr_sent b0 = pr_sent b" "pr_next_frag_id b0 = pr_next_frag_id b"
    using rpc_store_frame(2,3) [of lib "node_id (pr_source_node p)" ?a key v ?b] s by (simp_all split: if_splits)
  obtain q1 b1 x y where c: "fst (call lib ev callee ?m p) = Some (StoreResult ok)" "b1 = b0\<lparr>pr_next_frag_id := x, pr_sent := y\<rparr>"
    "exchange lib ev' caller callee reorder p (snd (call_start lib ev callee ?m p)) b = Some (q1, b1)"
    using call_answered [OF assms(1) bs spec [OF assms(4), of ok] d same] by blast
  then have "fst (call_store_rpc lib ev peer key v p) = ok"
    using assms(2) by (cases "call lib ev callee ?m p") (simp add: call_store_rpc_def)
  then show ?thesis using s c(2,3) by (intro exI [of _ q1] exI [of _ ?b] exI [of _ x] exI [of _ y]) simp
qed

lemma spawn_all_frame:
  "pr_sent (fold (\<lambda>(key, value). spawn (CallStoreRpc n key value)) kvs p) = pr_sent p \<and>
   pr_next_frag_id (fold (\<lambda>(key, value). spawn (CallStoreRpc n key value)) kvs p) = pr_next_frag_id p"
  by (induction kvs arbitrary: p) (auto simp: spawn_def)

lemma welcome_frame:
  "welcome_if_new ev n p = Some p1 \<Longrightarrow> pr_sent p1 = pr_sent p \<and> pr_next_frag_id p1 = pr_next_frag_id p"
  by (auto simp: welcome_if_new_def Let_def spawn_all_frame spawn_def split: if_splits option.splits prod.splits)

lemma remote_find:
  assumes "connected lib ev ev' caller callee reorder p b" and "peer_sock_addr peer = Some callee"
    and "wire_ok lib \<lparr>fr_msg_id = pr_next_msg_id p, fr_is_request = True, fr_message = FindValue (node_id (pr_source_node p)) (node_id target)\<rparr>"
    and "wire_ok lib \<lparr>fr_msg_id = pr_next_msg_id p, fr_is_request = False, fr_message = FindValueHit v\<rparr>"
    and "\<forall>b' \<in> {b, gc_reassembly b}.
      welcome_if_new ev' (new_node (node_id (pr_source_node p)) (Some (sa_ip_string caller)) (Some (sa_port caller))) b' \<noteq> None"
    and "st_get (pr_now b) (node_id target) (pr_storage b) = Some v"
  shows "fst (call_find_value lib ev peer target p) = (True, Value v)"
proof -
  let ?m = "FindValue (node_id (pr_source_node p)) (node_id target)"
  obtain bs where bs: "nl_serialize lib \<lparr>fr_msg_id = pr_next_msg_id p, fr_is_request = True, fr_message = ?m\<rparr> = Some bs"
    "nl_deserialize lib bs = Some \<lparr>fr_msg_id = pr_next_msg_id p, fr_is_request = True, fr_message = ?m\<rparr>" "length bs \<le> 187 * FRAG_CHUNK_SIZE"
    using assms(3) unfolding wire_ok_def by blast
  let ?b = "reassembled bs b"
  obtain b0 where w: "welcome_if_new ev' (new_node (node_id (pr_source_node p)) (Some (sa_ip_string caller)) (Some (sa_port caller))) ?b = Some b0"
    using assms(5) by (cases "length bs \<le> FRAG_CHUNK_SIZE") auto
  have "st_get (pr_now b0) (node_id target) (pr_storage b0) = Some v"
    using assms(6) welcome_if_new_storage [OF w] by (simp split: if_splits)
  then have d: "dispatch_request lib ev' ?m caller ?b = Some (Some (FindValueHit v), b0)" using w by (simp add: rpc_find_value_def)
  have same: "pr_sent b0 = pr_sent b" "pr_next_frag_id b0 = pr_next_frag_id b" using welcome_frame [OF w] by (simp_all split: if_splits)
  have "fst (call lib ev callee ?m p) = Some (FindValueHit v)" using call_answered [OF assms(1) bs assms(4) d same] by blast
  then show ?thesis using assms(2) by (cases "call lib ev callee ?m p") (simp add: call_find_value_def)
qed

text \<open>
  C14. Publication over the network: a store call returns whether the other node accepted the record,
  which it does exactly when the record passes its check and the key is free; and once a store was
  acknowledged, the lookup of any third node at that node returns the record. The datagrams of each
  frame may arrive in any order.
\<close>

theorem acknowledged_store_found:
  assumes "connected lib ev evb caller callee reorder p b" and "peer_sock_addr peer = Some callee"
    and "wire_ok lib \<lparr>fr_msg_id = pr_next_msg_id p, fr_is_request = True, fr_message = Store (node_id (pr_source_node p)) key v\<rparr>"
    and "\<forall>ok. wire_ok lib \<lparr>fr_msg_id = pr_next_msg_id p, fr_is_request = False, fr_message = StoreResult ok\<rparr>"
    and "exchange lib evb caller callee reorder p (snd (call_start lib ev callee (Store (node_id (pr_source_node p)) key v) p)) b = Some (q, b1)"
    and "connected lib ev' evb caller' callee reorder' p' b1" and "node_id target = key"
    and "wire_ok lib \<lparr>fr_msg_id = pr_next_msg_id p', fr_is_request = True, fr_message = FindValue (node_id (pr_source_node p')) key\<rparr>"
    and "wire_ok lib \<lparr>fr_msg_id = pr_next_msg_id p', fr_is_request = False, fr_message = FindValueHit v\<rparr>"
    and "\<forall>b' \<in> {b1, gc_reassembly b1}.
      welcome_if_new evb (new_node (node_id (pr_source_node p')) (Some (sa_ip_string caller')) (Some (sa_port caller'))) b' \<noteq> None"
  shows "(fst (call_store_rpc lib ev peer key v p) \<longleftrightarrow>
      fst (verify_for_key lib key v b) \<and> st_get (pr_now b) key (pr_storage b) = None) \<and>
    (fst (call_store_rpc lib ev peer key v p) \<longrightarrow> fst (call_find_value lib ev' peer target p') = (True, Value v))"
proof -
  let ?i = "node_id (pr_source_node p)" and ?a = "(sa_ip_string caller, sa_port caller)"
  obtain b' x y where b': "b' \<in> {b, gc_reassembly b}" "fst (call_store_rpc lib ev peer key v p) = fst (rpc_store lib ?i ?a key v b')"
    "b1 = (snd (rpc_store lib ?i ?a key v b'))\<lparr>pr_next_frag_id := x, pr_sent := y\<rparr>"
    using remote_store [OF assms(1-4)] assms(5) by (auto simp: Let_def split_def)
  have same: "pr_now b' = pr_now b" "pr_storage b' = pr_storage b" "fst (verify_for_key lib key v b') = fst (verify_for_key lib key v b)"
    using b'(1) verify_for_key_frame(1) by auto
  have "st_get (pr_now b1) key (pr_storage b1) = Some v" if "fst (call_store_rpc lib ev peer key v p)"
    using that b'(2,3) by (simp add: rpc_store_frame(1) rpc_store_storage(2) st_get_set)
  then have "fst (call_find_value lib ev' peer target p') = (True, Value v)" if "fst (call_store_rpc lib ev peer key v p)"
    using remote_find [OF assms(6,2) _ assms(9,10)] assms(7,8) that by simp
  then show ?thesis using b'(2) same by (simp add: rpc_store_storage(1))
qed

section \<open>A concrete exchange\<close>

text \<open>A serialiser for the five frames of one publication and one lookup.\<close>

definition five_frames :: "frame list" where
  "five_frames =
     [\<lparr>fr_msg_id = 0, fr_is_request = True, fr_message = Store demo_peer demo_key echo_record\<rparr>,
      \<lparr>fr_msg_id = 0, fr_is_request = False, fr_message = StoreResult True\<rparr>,
      \<lparr>fr_msg_id = 0, fr_is_request = False, fr_message = StoreResult False\<rparr>,
      \<lparr>fr_msg_id = 0, fr_is_request = True, fr_message = FindValue demo_peer demo_key\<rparr>,
      \<lparr>fr_msg_id = 0, fr_is_request = False, fr_message = FindValueHit echo_record\<rparr>]"

definition table_lib :: net_lib where
  "table_lib = demo_lib\<lparr>nl_serialize := (\<lambda>f. map_option (\<lambda>i. replicate i 0) (position (\<lambda>g. g = f) five_frames)),
     nl_deserialize := (\<lambda>bs. if length bs < 5 then Some (five_frames ! length bs) else None)\<rparr>"

lemma table_lib_wire: "f \<in> set five_frames \<Longrightarrow> wire_ok table_lib f"
proof -
  assume "f \<in> set five_frames"
  then obtain i where i: "position (\<lambda>g. g = f) five_frames = Some i" using ex_position [of f five_frames "\<lambda>g. g = f"] by blast
  have len: "length five_frames = 5" by (simp add: five_frames_def)
  have "i < 5" "five_frames ! i = f" using position_SomeD [OF i] by (simp_all add: len)
  with i show ?thesis by (simp add: wire_ok_def table_lib_def FRAG_CHUNK_SIZE_def)
qed

definition demo_caller :: protocol where
  "demo_caller = (demo_start False)\<lparr>pr_source_node := from_id demo_peer\<rparr>"

text \<open>The environment of a caller whose wait is one exchange with \<open>b\<close>.\<close>

definition talk_env :: "socket_addr \<Rightarrow> socket_addr \<Rightarrow> protocol \<Rightarrow> protocol \<Rightarrow> env" where
  "talk_env caller callee p b =
     plain_env\<lparr>ev_wait := (\<lambda>q. case exchange table_lib plain_env caller callee rev p q b of Some (q1, _) \<Rightarrow> q1 | None \<Rightarrow> q)\<rparr>"

lemma talk_connected:
  "pr_reassembly b (caller, pr_next_frag_id p) = None \<Longrightarrow> pr_reassembly p (callee, pr_next_frag_id b) = None \<Longrightarrow>
     connected table_lib (talk_env caller callee p b) plain_env caller callee rev p b"
  by (simp add: connected_def reordering_def talk_env_def)

lemma welcome_first:
  assumes "pr_router b = rt_new 0 demo_self 1" and "pr_secs b = 0" and "node_id n \<noteq> node_id demo_self"
  shows "welcome_if_new plain_env n b \<noteq> None"
  using rt_add_contact_new [of 1 n demo_self 0 0] assms
  by (simp add: welcome_if_new_def st_iter_all_def st_entries_def Let_def)

theorem acknowledged_store_found_witness:
  "\<exists>b1. fst (call_store_rpc table_lib (talk_env (V4 (127, 0, 0, 1) 8) (V4 (127, 0, 0, 1) 9) demo_caller (demo_start False))
        (new_node demo_key (Some (ipv4_to_string (127, 0, 0, 1))) (Some 9)) demo_key echo_record demo_caller) \<and>
     fst (call_find_value table_lib (talk_env (V4 (127, 0, 0, 1) 7) (V4 (127, 0, 0, 1) 9) demo_caller b1)
        (new_node demo_key (Some (ipv4_to_string (127, 0, 0, 1))) (Some 9)) (from_id demo_key) demo_caller) = (True, Value echo_record)"
proof -
  let ?a = "V4 (127, 0, 0, 1) 8" and ?c = "V4 (127, 0, 0, 1) 7" and ?b = "V4 (127, 0, 0, 1) 9"
  let ?peer = "new_node demo_key (Some (ipv4_to_string (127, 0, 0, 1))) (Some 9)"
  have peer: "peer_sock_addr ?peer = Some ?b" by (simp add: peer_sock_addr_def address_def new_node_def sock_addr_of_v4)
  have caller: "pr_next_msg_id demo_caller = 0" "node_id (pr_source_node demo_caller) = demo_peer" "pr_reassembly demo_caller = Map.empty"
    by (simp_all add: demo_caller_def demo_start_def did_node_def pr_new_def)
  have A: "connected table_lib (talk_env ?a ?b demo_caller (demo_start False)) plain_env ?a ?b rev demo_caller (demo_start False)"
    by (rule talk_connected) (simp_all add: caller)
  have wires: "wire_ok table_lib \<lparr>fr_msg_id = 0, fr_is_request = True, fr_message = Store demo_peer demo_key echo_record\<rparr>"
    "\<forall>ok. wire_ok table_lib \<lparr>fr_msg_id = 0, fr_is_request = False, fr_message = StoreResult ok\<rparr>"
    "wire_ok table_lib \<lparr>fr_msg_id = 0, fr_is_request = True, fr_message = FindValue demo_peer demo_key\<rparr>"
    "wire_ok table_lib \<lparr>fr_msg_id = 0, fr_is_request = False, fr_message = FindValueHit echo_record\<rparr>"
    using table_lib_wire by (auto simp: five_frames_def)
  have lib: "nl_sha1 table_lib = nl_sha1 demo_lib" "nl_sha256 table_lib = nl_sha256 demo_lib" "nl_moka_get table_lib = nl_moka_get demo_lib"
    by (simp_all add: table_lib_def)
  have valid: "fst (verify_for_key table_lib demo_key echo_record (demo_start False))"
    using demo_verified [of False] unfolding verify_for_key_def lib .
  obtain q b' x y where e: "b' \<in> {demo_start False, gc_reassembly (demo_start False)}"
    "exchange table_lib plain_env ?a ?b rev demo_caller (snd (call_start table_lib (talk_env ?a ?b demo_caller (demo_start False)) ?b
        (Store demo_peer demo_key echo_record) demo_caller)) (demo_start False) =
      Some (q, (snd (rpc_store table_lib demo_peer (sa_ip_string ?a, sa_port ?a) demo_key echo_record b'))\<lparr>pr_next_frag_id := x, pr_sent := y\<rparr>)"
    using remote_store [OF A peer, of demo_key echo_record] wires(1,2) unfolding caller by (auto simp: Let_def split_def)
  define s1 where "s1 = snd (rpc_store table_lib demo_peer (sa_ip_string ?a, sa_port ?a) demo_key echo_record b')"
  let ?b1 = "s1\<lparr>pr_next_frag_id := x, pr_sent := y\<rparr>"
  note e2 = e(2) [folded s1_def]
  have b': "pr_router b' = rt_new 0 demo_self 1" "pr_secs b' = 0" "pr_reassembly b' = Map.empty"
    "fst (rpc_store table_lib demo_peer (sa_ip_string ?a, sa_port ?a) demo_key echo_record b')"
    using e(1) valid verify_for_key_frame(1) [of table_lib demo_key echo_record "demo_start False"]
    by (auto simp: demo_start_def did_node_def pr_new_def gc_reassembly_def rpc_store_storage(1))
  have s1: "pr_router s1 = rt_new 0 demo_self 1" "pr_secs s1 = 0" "pr_reassembly s1 = Map.empty"
    unfolding s1_def rpc_store_frame(4,5) rpc_store_frame(6) [OF b'(4)] by (rule b')+
  have C: "connected table_lib (talk_env ?c ?b demo_caller ?b1) plain_env ?c ?b rev demo_caller ?b1"
    by (rule talk_connected) (simp_all add: caller s1(3))
  have "node_id (new_node demo_peer (Some (sa_ip_string ?c)) (Some (sa_port ?c))) \<noteq> node_id demo_self"
    by (simp add: new_node_def from_id_def)
  then have welcomed: "\<forall>b2 \<in> {?b1, gc_reassembly ?b1}.
      welcome_if_new plain_env (new_node demo_peer (Some (sa_ip_string ?c)) (Some (sa_port ?c))) b2 \<noteq> None"
    using s1 by (intro ballI welcome_first) (auto simp del: sa_ip_string.simps)
  note found = acknowledged_store_found [OF A peer _ _ _ C, of demo_key echo_record q "from_id demo_key", unfolded caller, OF wires(1,2) e2 _ wires(3,4) welcomed]
  have "fst (call_store_rpc table_lib (talk_env ?a ?b demo_caller (demo_start False)) ?peer demo_key echo_record demo_caller)"
    using found valid by (simp add: from_id_def new_node_def)
  then show ?thesis using found by (intro exI [of _ ?b1]) (simp add: from_id_def new_node_def)
qed

end
