(* ===== verification/Display.thy ===== *)
theory Display
  imports Node Socket_Addr
begin

text \<open>
  Text output: the format specifications that the sources use, and \<open>Display\<close> for \<open>Node\<close> and \<open>NodeHeap\<close>
  in \<^verbatim>\<open>src/node.rs\<close>. A string slice by byte positions is \<open>None\<close> where Rust panics.
\<close>

section \<open>Formatting\<close>

text \<open>\<open>{:>w}\<close> fills with spaces, \<open>{:0wx}\<close> with zeros.\<close>

definition pad_left :: "nat \<Rightarrow> nat \<Rightarrow> rust_str \<Rightarrow> rust_str" where
  "pad_left fill width s = replicate (width - length s) fill @ s"

definition fmt_right :: "nat \<Rightarrow> rust_str \<Rightarrow> rust_str" where
  "fmt_right width s = pad_left 32 width s"

definition fmt_0x :: "nat \<Rightarrow> nat \<Rightarrow> rust_str" where
  "fmt_0x width n = pad_left 48 width (fmt_hex n)"

definition hex_bytes :: "bytes \<Rightarrow> rust_str" where
  "hex_bytes bs = concat (map (\<lambda>b. fmt_0x 2 (unat b)) bs)"

fun join_str :: "rust_str \<Rightarrow> rust_str list \<Rightarrow> rust_str" where
  "join_str sep [] = []"
| "join_str sep [s] = s"
| "join_str sep (s # t # ss) = s @ sep @ join_str sep (t # ss)"

text \<open>\<open>&s[..n]\<close>: a panic when \<open>n\<close> is not on the boundary of a character.\<close>

fun slice_to :: "nat \<Rightarrow> rust_str \<Rightarrow> rust_str option" where
  "slice_to n [] = (if n = 0 then Some [] else None)"
| "slice_to n (c # s) =
     (if n = 0 then Some []
      else if length (utf8_encode_char c) \<le> n
      then map_option (Cons c) (slice_to (n - length (utf8_encode_char c)) s)
      else None)"

section \<open>Nodes\<close>

definition node_to_string :: "node \<Rightarrow> rust_str" where
  "node_to_string n =
     (case (node_ip n, node_port n) of
        (Some ip, Some port) \<Rightarrow> ip @ 58 # fmt_dec (unat port)
      | _ \<Rightarrow> str_lit ''<key:'' @ hex_bytes (take 8 (node_id n)) @ str_lit ''>'')"

definition node_heap_to_string :: "node_heap \<Rightarrow> rust_str" where
  "node_heap_to_string h = str_lit ''['' @ join_str (str_lit '', '') (map node_to_string (nh_iter h)) @ str_lit '']''"

section \<open>What the texts determine\<close>

lemma slice_to_prefix: "slice_to n s = Some t \<Longrightarrow> length (as_bytes t) = n \<and> (\<exists>r. s = t @ r)"
  by (induction n s arbitrary: t rule: slice_to.induct) (auto simp: as_bytes_def split: if_splits)

lemma slice_to_ascii: "\<forall>c \<in> set s. c < 128 \<Longrightarrow> n \<le> length s \<Longrightarrow> slice_to n s = Some (take n s)"
  by (induction n s rule: slice_to.induct) (auto simp: utf8_encode_char_def take_Cons')

lemma digit_char_inj: "digit_char a = digit_char b \<Longrightarrow> a < 16 \<Longrightarrow> b < 16 \<Longrightarrow> a = b"
  by (auto simp: digit_char_def split: if_splits)

lemma fmt_0x_byte: "n < 256 \<Longrightarrow> fmt_0x 2 n = [digit_char (n div 16), digit_char (n mod 16)]"
  by (auto simp: fmt_0x_def pad_left_def fmt_hex_def digits_in.simps [of 16] digit_char_def)

lemma hex_byte: "fmt_0x 2 (unat b) = [digit_char (unat b div 16), digit_char (unat b mod 16)]" for b :: u8
  using fmt_0x_byte [of "unat b"] unat_lt_len [of b] by simp

lemma hex_byte_inj: "fmt_0x 2 (unat a) = fmt_0x 2 (unat b) \<Longrightarrow> a = b" for a b :: u8
proof -
  assume eq: "fmt_0x 2 (unat a) = fmt_0x 2 (unat b)"
  have "unat a < 16 * 16" "unat b < 16 * 16" using unat_lt_len [of a] unat_lt_len [of b] by simp_all
  then have lt: "unat a div 16 < 16" "unat b div 16 < 16" by (simp_all only: less_mult_imp_div_less)
  have "unat a div 16 = unat b div 16" "unat a mod 16 = unat b mod 16"
    using eq digit_char_inj [OF _ lt] digit_char_inj [of "unat a mod 16" "unat b mod 16"] by (simp_all add: hex_byte)
  then have "unat a = unat b" by (metis div_mult_mod_eq)
  then show "a = b" by (rule unsigned_word_eqI)
qed

lemma length_hex_bytes: "length (hex_bytes bs) = 2 * length bs"
  by (induction bs) (simp_all add: hex_bytes_def hex_byte)

lemma hex_bytes_inj: "hex_bytes as = hex_bytes bs \<Longrightarrow> as = bs"
proof (induction as arbitrary: bs)
  case Nil
  then have "length (hex_bytes bs) = 0" by (simp add: hex_bytes_def flip: Nil)
  then show ?case by (simp add: length_hex_bytes)
next
  case (Cons a as)
  then obtain b cs where bs: "bs = b # cs"
    using length_hex_bytes [of "a # as"] length_hex_bytes [of bs] Cons.prems by (cases bs) simp_all
  have "fmt_0x 2 (unat a) @ hex_bytes as = fmt_0x 2 (unat b) @ hex_bytes cs" using Cons.prems by (simp add: bs hex_bytes_def)
  then have "fmt_0x 2 (unat a) = fmt_0x 2 (unat b)" "hex_bytes as = hex_bytes cs" by (simp_all add: hex_byte)
  then show ?case using hex_byte_inj Cons.IH bs by blast
qed

text \<open>
  The text of a node is what its address needs: for a peer that was seen at an IPv4 address it parses to
  that socket address, and it is the text that every call parses; the text of a node without an
  address parses to no address, and shows exactly the first eight bytes of the identifier.
\<close>

theorem node_text_roundtrip:
  "parse_socket_addr (node_to_string (new_node i (Some (sa_ip_string (V4 ip port))) (Some port))) = Some (V4 ip port) \<and>
   (\<forall>a. address n = Some a \<longrightarrow> parse_socket_addr (node_to_string n) = sock_addr_of a) \<and>
   (address n = None \<longrightarrow> parse_socket_addr (node_to_string n) = None) \<and>
   (address n = None \<and> address m = None \<longrightarrow>
     (node_to_string n = node_to_string m \<longleftrightarrow> take 8 (node_id n) = take 8 (node_id m)))"
proof -
  have shown: "node_to_string x = fst a @ 58 # fmt_dec (unat (snd a))" if "address x = Some a" for x a
    using that by (auto simp: node_to_string_def address_def split: option.splits)
  have key: "node_to_string x = str_lit ''<key:'' @ hex_bytes (take 8 (node_id x)) @ str_lit ''>''" if "address x = None" for x
    using that by (auto simp: node_to_string_def address_def split: option.splits)
  have "address (new_node i (Some (sa_ip_string (V4 ip port))) (Some port)) = Some (ipv4_to_string ip, port)"
    by (simp add: address_def new_node_def)
  from shown [OF this] have "parse_socket_addr (node_to_string (new_node i (Some (sa_ip_string (V4 ip port))) (Some port))) = Some (V4 ip port)"
    using sock_addr_of_v4 [of ip port] by (simp add: sock_addr_of_def)
  moreover have "parse_socket_addr (node_to_string n) = sock_addr_of a" if "address n = Some a" for a
    using shown [OF that] by (simp add: sock_addr_of_def)
  moreover have "parse_socket_addr (60 # s) = None" for s
    by (simp add: parse_socket_addr_def read_socket_addr_v4_def read_ipv4_addr_def read_separator_def read_number_def to_digit_def
        read_socket_addr_v6_def read_given_char_def numeral_eq_Suc)
  then have "parse_socket_addr (node_to_string n) = None" if "address n = None" using key [OF that] by (simp add: str_lit_def)
  moreover have "node_to_string n = node_to_string m \<longleftrightarrow> take 8 (node_id n) = take 8 (node_id m)" if "address n = None" "address m = None"
    using key [OF that(1)] key [OF that(2)] hex_bytes_inj [of "take 8 (node_id n)" "take 8 (node_id m)"] by auto
  ultimately show ?thesis by blast
qed

end
