(* ===== verification/Topology_Report.thy ===== *)
theory Topology_Report
  imports Topology Display
begin

text \<open>
  The tables that \<^verbatim>\<open>examples/topology_analysis.rs\<close> prints, as lists of lines without their headings:
  stored keys, copies per key, placement, buckets and routing tables. \<open>hex\<close> is \<open>hex::encode\<close>. Characters
  outside ASCII are given by their code points. The floating-point summaries are not modelled.
\<close>

definition port_text :: "u16 \<Rightarrow> rust_str" where
  "port_text p = fmt_dec (unat p)"

text \<open>\<open>{:?}\<close> of a vector of ports.\<close>

definition ports_debug :: "u16 list \<Rightarrow> rust_str" where
  "ports_debug ps = str_lit ''['' @ join_str (str_lit '', '') (map port_text ps) @ str_lit '']''"

text \<open>\<open>str::lines\<close>: a final newline ends the last line, and a carriage return before a newline belongs to the line end.\<close>

fun raw_lines :: "rust_str \<Rightarrow> rust_str \<Rightarrow> rust_str list" where
  "raw_lines acc [] = (if acc = [] then [] else [acc])"
| "raw_lines acc (c # s) =
     (if c = 10 then (if acc \<noteq> [] \<and> last acc = 13 then butlast acc else acc) # raw_lines [] s else raw_lines (acc @ [c]) s)"

section \<open>Sample documents\<close>

definition sample_docs ::
  "doc_lib \<Rightarrow> (bytes \<Rightarrow> bytes) \<Rightarrow> (bytes \<Rightarrow> rust_str) \<Rightarrow> (rust_str \<times> rust_str \<times> bytes) list \<Rightarrow> rust_str list" where
  "sample_docs lib sha1 hex published =
     concat (map (\<lambda>(did, key_str, record).
         [str_lit ''  DID URI : '' @ did, str_lit ''  DHT key : '' @ hex (digest sha1 key_str)] @
         (case extract_doc lib record of
            Some doc \<Rightarrow> map (\<lambda>line. str_lit ''  '' @ line)
              (raw_lines [] (case json_to_string_pretty lib doc of Some s \<Rightarrow> s | None \<Rightarrow> []))
          | None \<Rightarrow> [str_lit ''  (could not parse DID Document)'']) @ [[]])
       (take 3 published))"

section \<open>Stored keys\<close>

definition key_to_did :: "(bytes \<Rightarrow> bytes) \<Rightarrow> (bytes \<Rightarrow> rust_str) \<Rightarrow> (rust_str \<times> rust_str \<times> bytes) list \<Rightarrow> (rust_str \<rightharpoonup> rust_str)" where
  "key_to_did sha1 hex published = fold (\<lambda>(did, key_str, _) m. m(hex (digest sha1 key_str) \<mapsto> did)) published Map.empty"

text \<open>The beginning of the DID after the key; \<open>None\<close> when the slice panics.\<close>

definition did_hint :: "(rust_str \<rightharpoonup> rust_str) \<Rightarrow> rust_str \<Rightarrow> rust_str option" where
  "did_hint dids k =
     (case dids k of
        None \<Rightarrow> Some []
      | Some d \<Rightarrow> map_option (\<lambda>s. str_lit ''  '' @ [8594] @ str_lit ''  '' @ s) (slice_to (min (length (as_bytes d)) 50) d))"

definition storage_lines ::
  "host \<Rightarrow> (bytes \<Rightarrow> rust_str) \<Rightarrow> (rust_str \<rightharpoonup> rust_str) \<Rightarrow> server \<times> u16 \<Rightarrow> rust_str list option" where
  "storage_lines ho hex dids node =
     (let (server, port) = node;
          keys = map hex (node_keys ho server);
          heading = str_lit ''  Node :'' @ port_text port @ str_lit ''  ('' @ fmt_dec (length keys) @ str_lit '' records)''
      in if keys = [] then Some [heading, str_lit ''    (empty)'', []]
         else map_option (\<lambda>ls. heading # ls @ [[]])
           (those (map (\<lambda>k. map_option (\<lambda>hint. str_lit ''    '' @ k @ hint) (did_hint dids k)) keys)))"

definition storage_tables ::
  "host \<Rightarrow> (bytes \<Rightarrow> rust_str) \<Rightarrow> (rust_str \<rightharpoonup> rust_str) \<Rightarrow> cluster \<Rightarrow> rust_str list option" where
  "storage_tables ho hex dids nodes = map_option concat (those (map (storage_lines ho hex dids) nodes))"

section \<open>Copies per key\<close>

text \<open>\<open>ks\<close> is the iteration order of the table of holders, \<open>ns\<close> that of the distribution.\<close>

definition replication_lines :: "rust_str list \<Rightarrow> (rust_str \<rightharpoonup> u16 list) \<Rightarrow> rust_str list" where
  "replication_lines ks kh =
     map (\<lambda>key. let holders = (case kh key of Some ps \<Rightarrow> ps | None \<Rightarrow> [])
                in str_lit ''  '' @ key @ str_lit ''  '' @ fmt_right 6 (fmt_dec (length holders)) @ str_lit ''  '' @
                   join_str (str_lit '', '') (map port_text holders))
       (sort_key (\<lambda>k. k) ks)"

definition distribution_lines :: "nat list \<Rightarrow> (nat \<rightharpoonup> nat) \<Rightarrow> rust_str list" where
  "distribution_lines ns dist =
     map (\<lambda>copies. str_lit ''    '' @ fmt_dec copies @ str_lit '' cop'' @ (if copies = 1 then str_lit ''y'' else str_lit ''ies'') @
            str_lit '': '' @ fmt_dec (case dist copies of Some n \<Rightarrow> n | None \<Rightarrow> 0) @ str_lit '' records'')
       (sort ns)"

section \<open>Placement\<close>

definition status_mark :: "xor_status \<Rightarrow> rust_str" where
  "status_mark st = (case st of FullOk \<Rightarrow> [10003] | PartialOk \<Rightarrow> str_lit ''~'' | NoneOk \<Rightarrow> [10007])"

definition check_lines :: "nat \<Rightarrow> rust_str \<Rightarrow> xor_check \<Rightarrow> rust_str list option" where
  "check_lines ksize key_str c =
     (case slice_to (min 8 (length (as_bytes key_str))) key_str of
        None \<Rightarrow> None
      | Some uuid_short \<Rightarrow> Some
          ([str_lit ''  ['' @ status_mark (status_of c) @ str_lit ''] key='' @ uuid_short @ [8230] @ str_lit ''  k-closest=['' @
              join_str (str_lit '','') (map port_text (xc_k_closest c)) @ str_lit '']''] @
           (if xc_holding c \<noteq> []
            then [str_lit ''       holding : '' @ ports_debug (xc_holding c) @ str_lit ''  ('' @ fmt_dec (length (xc_holding c)) @
                  str_lit ''/'' @ fmt_dec ksize @ str_lit '' k-closest)'']
            else []) @
           (if xc_missing c \<noteq> []
            then [str_lit ''       missing : '' @ ports_debug (xc_missing c) @ str_lit ''  (k-closest without the record)'']
            else []) @
           (if xc_extras c \<noteq> []
            then [str_lit ''       extras  : '' @ ports_debug (xc_extras c) @ str_lit ''  (outside k-closest but hold a copy)'']
            else [])))"

text \<open>The lines after the loop; an embedded newline is an empty line.\<close>

definition xor_summary :: "nat \<Rightarrow> nat \<times> nat \<times> nat \<Rightarrow> rust_str list" where
  "xor_summary check_n counts =
     (let (full_ok, partial_ok, none_ok) = counts
      in [[], str_lit ''  Result on '' @ fmt_dec check_n @ str_lit '' sampled records:  '' @ [10003] @ str_lit '' full='' @ fmt_dec full_ok @
            str_lit ''  ~ partial='' @ fmt_dec partial_ok @ str_lit ''  '' @ [10007] @ str_lit '' none='' @ fmt_dec none_ok,
          (if none_ok = 0
           then str_lit ''  '' @ [8594] @ str_lit '' All checked records are held by at least one k-closest node '' @ [10003]
           else str_lit ''  '' @ [8594] @ str_lit '' '' @ fmt_dec none_ok @ str_lit '' records not found on ANY k-closest node '' @ [8212] @
             str_lit '' possible routing inconsistency''),
          []])"

section \<open>Buckets and routing tables\<close>

definition not_started :: "u16 \<Rightarrow> rust_str" where
  "not_started port = str_lit ''  Node :'' @ port_text port @ str_lit ''  (not started)''"

definition opt_port :: "node \<Rightarrow> rust_str" where
  "opt_port n = (case node_port n of Some p \<Rightarrow> port_text p | None \<Rightarrow> str_lit ''-'')"

definition bucket_lines :: "nat \<Rightarrow> nat \<Rightarrow> kbucket \<Rightarrow> rust_str list" where
  "bucket_lines now i bucket =
     (let lo_s = fmt_0x 32 (unat (kb_lo bucket));
          freshness = (if kb_is_lonely now bucket then str_lit ''lonely'' else str_lit ''fresh '')
      in (str_lit ''    ['' @ fmt_right 2 (fmt_dec i) @ str_lit '']  nodes='' @ fmt_right 2 (fmt_dec (kb_len bucket)) @
            str_lit ''  depth='' @ fmt_right 3 (fmt_dec (kb_depth bucket)) @ str_lit ''  '' @ freshness @
            str_lit ''  ['' @ take 16 lo_s @ str_lit ''..]'') #
         map (\<lambda>n. str_lit ''           '' @ [8627] @ str_lit '' '' @ hex_bytes (take 4 (node_id n)) @ [8230] @ str_lit ''  :'' @ opt_port n)
           (kb_nodes bucket))"

definition bucket_structure :: "server \<times> u16 \<Rightarrow> rust_str list" where
  "bucket_structure node =
     (let (server, port) = node
      in case sv_protocol server of
           None \<Rightarrow> [not_started port]
         | Some proto \<Rightarrow>
             let router = pr_router proto;
                 buckets = rt_buckets router;
                 peer_count = sum_list (map kb_len buckets)
             in (str_lit ''  Node :'' @ port_text port @ str_lit ''  id='' @ hex_bytes (take 4 (node_id (rt_node router))) @ [8230] @
                   str_lit ''  ('' @ fmt_dec (length buckets) @ str_lit '' buckets, '' @ fmt_dec peer_count @ str_lit '' peers)'') #
                concat (map (\<lambda>(i, bucket). bucket_lines (pr_secs proto) i bucket) (enumerate 0 buckets)) @ [[]])"

definition routing_lines :: "server \<times> u16 \<Rightarrow> rust_str list" where
  "routing_lines node =
     (let (server, port) = node
      in if sv_protocol server = None then [not_started port]
         else
           let peers = known_peers server
           in (str_lit ''  Node :'' @ port_text port @ str_lit ''  ('' @ fmt_dec (length peers) @ str_lit '' known peers)'') #
              (if peers = [] then [str_lit ''    (no peers)'']
               else
                 (str_lit ''    '' @ fmt_right 44 (str_lit ''node-id (hex, first 8 bytes)'') @ str_lit ''  '' @
                    fmt_right 5 (str_lit ''port'') @ str_lit ''  ip'') #
                 map (\<lambda>peer. str_lit ''    '' @ hex_bytes (take 8 (node_id peer)) @ str_lit ''  '' @ fmt_right 5 (opt_port peer) @
                    str_lit ''  '' @ (case node_ip peer of Some ip \<Rightarrow> ip | None \<Rightarrow> str_lit ''-'')) peers) @ [[]])"

section \<open>What the tables show\<close>

lemma storage_tables_total:
  assumes "\<forall>d \<in> ran dids. \<forall>c \<in> set d. c < 128"
  shows "storage_tables ho hex dids nodes \<noteq> None"
proof -
  have ascii: "length (as_bytes d) = length d" if "\<forall>c \<in> set d. c < 128" for d
    using that by (induction d) (simp_all add: as_bytes_def utf8_encode_char_def)
  have hint: "did_hint dids k \<noteq> None" for k
  proof (cases "dids k")
    case (Some d)
    with assms have "\<forall>c \<in> set d. c < 128" by (auto simp: ran_def)
    with Some show ?thesis by (simp add: did_hint_def ascii slice_to_ascii)
  qed (simp add: did_hint_def)
  have "storage_lines ho hex dids node \<noteq> None" for node
    using those_total [of "map hex (node_keys ho (fst node))" "\<lambda>k. map_option (\<lambda>hint. str_lit ''    '' @ k @ hint) (did_hint dids k)"] hint
    by (cases node) (simp add: storage_lines_def Let_def)
  then show ?thesis using those_total [of nodes "storage_lines ho hex dids"] by (simp add: storage_tables_def)
qed

lemma copy_distribution_fold:
  assumes "distinct ks" and "set ks \<subseteq> dom kh"
  shows "fold (\<lambda>k dist. case kh k of
         None \<Rightarrow> dist
       | Some holders \<Rightarrow> dist(length holders \<mapsto> (case dist (length holders) of Some n \<Rightarrow> n | None \<Rightarrow> 0) + 1)) ks dist0 n =
    (let c = card {k \<in> set ks. length (the (kh k)) = n} in if c = 0 then dist0 n else Some ((case dist0 n of Some m \<Rightarrow> m | None \<Rightarrow> 0) + c))"
  using assms
proof (induction ks arbitrary: dist0)
  case (Cons k ks)
  let ?count = "\<lambda>ks. card {k \<in> set ks. length (the (kh k)) = n}"
  obtain h where h: "kh k = Some h" using Cons.prems(2) by auto
  have split: "{j \<in> set (k # ks). length (the (kh j)) = n} =
      (if length h = n then insert k {j \<in> set ks. length (the (kh j)) = n} else {j \<in> set ks. length (the (kh j)) = n})"
    using h by auto
  have count: "?count (k # ks) = (if length h = n then Suc (?count ks) else ?count ks)"
    unfolding split using Cons.prems(1) by simp
  show ?case using Cons.IH Cons.prems h unfolding count by (simp add: Let_def split: option.split)
qed simp

lemma push_holders_dom: "dom (fold (\<lambda>k. push_holder k port) ks kh) = dom kh \<union> set ks"
  by (induction ks arbitrary: kh) (auto simp: push_holder_def)

lemma key_holders_dom: "dom (key_holders ho hex nodes) \<subseteq> range hex"
proof -
  have "dom (fold (\<lambda>(server, port) kh. fold (\<lambda>k. push_holder k port) (map hex (node_keys ho server)) kh) nodes kh) \<subseteq> dom kh \<union> range hex" for kh
  proof (induction nodes arbitrary: kh)
    case (Cons node nodes)
    obtain s p where node: "node = (s, p)" by fastforce
    show ?case using Cons.IH [of "fold (\<lambda>k. push_holder k p) (map hex (node_keys ho s)) kh"] push_holders_dom [of p "map hex (node_keys ho s)" kh]
      by (auto simp: node)
  qed simp
  from this [of Map.empty] show ?thesis by (simp add: key_holders_def)
qed

text \<open>
  C31. The replication summary is right: for every number of copies, it counts the keys that exactly so
  many nodes of the cluster can read; it has one line for every key that some node can read, in the order of
  the keys. The stores are enumerated completely, and the printed keys of different keys differ.
\<close>

theorem replication_summary_correct:
  assumes "\<forall>(s, p) \<in> set nodes. set (ev_keys (ho_env ho) (sv_store s)) = dom (st_data (sv_store s)) \<and>
      distinct (ev_keys (ho_env ho) (sv_store s))" and "inj hex"
    and "distinct ks" and "set ks = dom (key_holders ho hex nodes)"
  shows "copy_distribution ks (key_holders ho hex nodes) n =
      (let c = card {k. n \<noteq> 0 \<and> length (filter (\<lambda>(s, p). node_reads s k \<noteq> None) nodes) = n} in if c = 0 then None else Some c) \<and>
    length (replication_lines ks (key_holders ho hex nodes)) = card {k. \<exists>(s, p) \<in> set nodes. node_reads s k \<noteq> None}"
proof -
  let ?kh = "key_holders ho hex nodes" and ?at = "\<lambda>k. map snd (filter (\<lambda>(s, p). node_reads s k \<noteq> None) nodes)"
  have kh: "?kh (hex k) = (if ?at k = [] then None else Some (?at k))" for k
    using key_holders_correct [OF assms(1,2), of k] by (simp split: list.split)
  have holders: "{k \<in> set ks. length (the (?kh k)) = n} = hex ` {k. n \<noteq> 0 \<and> length (filter (\<lambda>(s, p). node_reads s k \<noteq> None) nodes) = n}"
    (is "?A = hex ` ?B")
  proof (intro equalityI subsetI)
    fix x
    assume x: "x \<in> ?A"
    then obtain k where "x = hex k" using assms(4) key_holders_dom by blast
    with x show "x \<in> hex ` ?B" unfolding assms(4) by (auto simp: kh split: if_splits)
  next
    fix x
    assume "x \<in> hex ` ?B"
    then obtain k where k: "x = hex k" "n \<noteq> 0" "length (?at k) = n" by auto
    then have "?at k \<noteq> []" by (metis list.size(3))
    with k show "x \<in> ?A" unfolding assms(4) by (simp add: kh domIff)
  qed
  have keys: "set ks = hex ` {k. \<exists>(s, p) \<in> set nodes. node_reads s k \<noteq> None}"
  proof -
    have some: "?at k \<noteq> [] \<longleftrightarrow> (\<exists>(s, p) \<in> set nodes. node_reads s k \<noteq> None)" for k unfolding map_is_Nil_conv filter_empty_conv by blast
    have "hex k \<in> dom ?kh \<longleftrightarrow> (\<exists>(s, p) \<in> set nodes. node_reads s k \<noteq> None)" for k
      unfolding domIff kh some [symmetric] by simp
    then show ?thesis unfolding assms(4) using key_holders_dom [of ho hex nodes] by blast
  qed
  have inj: "inj_on hex X" for X using assms(2) by (rule inj_on_subset) simp
  have "length (replication_lines ks ?kh) = card (set ks)" by (simp add: replication_lines_def distinct_card [OF assms(3)])
  also have "\<dots> = card {k. \<exists>(s, p) \<in> set nodes. node_reads s k \<noteq> None}" unfolding keys by (rule card_image [OF inj])
  finally have lines: "length (replication_lines ks ?kh) = card {k. \<exists>(s, p) \<in> set nodes. node_reads s k \<noteq> None}" .
  have "copy_distribution ks ?kh n = (let c = card ?A in if c = 0 then None else Some c)"
    using copy_distribution_fold [OF assms(3), of ?kh Map.empty n] assms(4) by (simp add: copy_distribution_def Let_def)
  then have "copy_distribution ks ?kh n = (let c = card ?B in if c = 0 then None else Some c)"
    unfolding holders card_image [OF inj] .
  with lines show ?thesis by (rule conjI [rotated])
qed

text \<open>A cluster of one node that holds one record.\<close>

definition holder_host :: host where
  "holder_host = demo_host\<lparr>ho_env := plain_env\<lparr>ev_keys := (\<lambda>_. [demo_key])\<rparr>\<rparr>"

definition holder :: server where
  "holder = (demo_server False)\<lparr>sv_storage := st_set 0 demo_key echo_record (st_new (- 1))\<rparr>"

lemma holder_reads: "node_reads holder k = (if k = demo_key then Some echo_record else None)"
  by (simp add: node_reads_def holder_def sv_store_def sv_clock_def st_get_set)

theorem replication_summary_correct_witness:
  "copy_distribution [map unat demo_key] (key_holders holder_host (map unat) [(holder, 1)]) 1 = Some 1"
proof -
  have keys: "ev_keys (ho_env holder_host) st = [demo_key]" for st by (simp add: holder_host_def)
  have dom: "dom (st_data (sv_store holder)) = {demo_key}"
    by (auto simp: holder_def sv_store_def st_set_def st_new_def split: if_splits)
  have hex: "inj (map unat :: bytes \<Rightarrow> rust_str)" by (intro inj_mapI injI) (rule unsigned_word_eqI)
  have complete: "\<forall>(s, p) \<in> set [(holder, 1)]. set (ev_keys (ho_env holder_host) (sv_store s)) = dom (st_data (sv_store s)) \<and>
      distinct (ev_keys (ho_env holder_host) (sv_store s))" by (simp add: keys dom)
  have "set (node_keys holder_host holder) = {demo_key}"
    using node_keys_readable(2) [of holder_host holder] by (auto simp: keys dom holder_reads split: if_splits)
  then have all: "set [map unat demo_key] = dom (key_holders holder_host (map unat) [(holder, 1)])"
    by (simp add: key_holders_def push_holders_dom)
  have "{k. (1::nat) \<noteq> 0 \<and> length (filter (\<lambda>(s, p). node_reads s k \<noteq> None) [(holder, 1 :: u16)]) = 1} = {demo_key}" by (auto simp: holder_reads)
  from replication_summary_correct [OF complete hex _ all, of 1, unfolded this] show ?thesis by simp
qed

end
