(* ===== verification/Spec2Isabelle.thy ===== *)
theory Spec2Isabelle
  imports Publish_Example Cache_Bench Py_Bindings Receive_Loop Exchange Topology_Report
begin

text \<open>
  A verification of AuthKademlia, a Kademlia distributed hash table in Rust whose records are DID
  documents signed with post-quantum or classical signatures.

  \<^bold>\<open>The program.\<close> A \<open>Server\<close> (\<^verbatim>\<open>src/network.rs\<close>) offers \<open>get\<close>, \<open>set\<close>, \<open>update\<close> and \<open>delete\<close>. It finds
  nodes and values with iterative lookups (\<^verbatim>\<open>src/crawling.rs\<close>) over a bounded heap of nodes ordered by
  XOR distance (\<^verbatim>\<open>src/node.rs\<close>), and talks to peers through \<open>KademliaProtocol\<close> (\<^verbatim>\<open>src/protocol.rs\<close>), which
  sends fragmented frames over UDP (\<^verbatim>\<open>src/fragmentation.rs\<close>), answers requests, and maintains the routing
  table (\<^verbatim>\<open>src/routing.rs\<close>), the store (\<^verbatim>\<open>src/storage.rs\<close>) and a cache of verification results
  (\<^verbatim>\<open>src/signature_cache.rs\<close>). Records are checked by \<^verbatim>\<open>src/auth_handler.rs\<close> with the verifiers of
  \<^verbatim>\<open>src/crypto/\<close>; \<^verbatim>\<open>src/crypto/key_manager.rs\<close> keeps keys in files.
  \<^verbatim>\<open>src/py_bindings.rs\<close> exposes the server and the key managers to Python. The programs under \<^verbatim>\<open>scripts/\<close>
  and \<^verbatim>\<open>examples/\<close> run nodes: \<open>dht_node\<close> publishes or retrieves a document, \<open>publish_did\<close> shows both with two
  nodes, the resilience attacker floods a victim with valid and tampered records, \<open>topology_analysis\<close>
  checks where the records of a cluster are stored, and \<open>cache_bench\<close> measures the cache.

  \<^bold>\<open>Theories and sources.\<close>
  \<^item> \<open>Prelude\<close>, \<open>Rust_Str\<close>, \<open>Socket_Addr\<close>: machine types, the parts of the standard library that the
    sources use (positions, big-endian conversion, UTF-8, trimming and splitting, printing and parsing
    of IP and socket addresses), and shared lemmas.
  \<^item> \<open>Utils\<close>, \<open>Node\<close>: \<^verbatim>\<open>utils.rs\<close> and \<^verbatim>\<open>node.rs\<close>: digests, nodes, the folded XOR metric (locale
    \<open>xor_metric\<close>) and the bounded heap of a lookup; \<open>Display\<close> holds the printed form of nodes and heaps.
  \<^item> \<open>KBucket\<close>, \<open>Routing\<close>: \<^verbatim>\<open>routing.rs\<close>: buckets with replacement caches; the table as a record of
    buckets, insertion with splitting, removal, traversal and neighbour search.
  \<^item> \<open>Storage\<close>: \<^verbatim>\<open>storage.rs\<close>, behind a locale for the interface \<open>IStorage\<close>.
  \<^item> \<open>Fragmentation\<close>: \<^verbatim>\<open>fragmentation.rs\<close>: headers, chunks and reassembly entries.
  \<^item> \<open>Crypto\<close>, \<open>Auth_Handler\<close>, \<open>Key_Manager\<close>: the registry, factories and length checks, the record
    format with its four checks (locale \<open>auth_contract\<close>), and the key files (locale \<open>key_files\<close>).
  \<^item> \<open>Crawling\<close>: \<^verbatim>\<open>crawling.rs\<close> over an arbitrary protocol state, with the calls as arguments.
  \<^item> \<open>Signature_Cache\<close>, \<open>Protocol\<close>: \<^verbatim>\<open>signature_cache.rs\<close> and \<^verbatim>\<open>protocol.rs\<close>: every handler \<open>rpc_*\<close> and
    every call \<open>call_*\<close> is a function on the record \<open>protocol\<close>. \<open>Protocol_Transport\<close> and
    \<open>Protocol_Safety\<close> hold the properties of the transport and of a node.
  \<^item> \<open>Network\<close>, \<open>Network_Safety\<close>: \<^verbatim>\<open>network.rs\<close>: the server and its properties. \<open>Receive_Loop\<close>: the loop of \<open>listen\<close> with
    the bounded queues of its workers, as a labelled step relation beside the steps of the node.
  \<^item> \<open>Exchange\<close>: two nodes and the datagrams between them: a call of one is the handling of its frame by the other.
  \<^item> \<open>Ledger\<close>: the abstract specification of a node, a map of readable records with five kinds of change;
    the locale \<open>refinement_map\<close> carries a simulation of single steps to runs, for the node here and for
    the Python object in \<open>Py_Bindings\<close>.
  \<^item> \<open>Json_Value\<close>, \<open>Did_Document\<close>: JSON values with ordered maps, and the six copies of the document and record
    builders in \<^verbatim>\<open>scripts/\<close> and \<^verbatim>\<open>examples/\<close>.
  \<^item> \<open>Script_Host\<close>, \<open>Dht_Node\<close>, \<open>Publish_Example\<close>, \<open>Resilience\<close>, \<open>Topology\<close>, \<open>Cache_Bench\<close>: the process a program runs in
    (environment variables, sockets, sleeping; the locale \<open>retried\<close> for loops that repeat an operation),
    and one theory per program; \<open>Resilience\<close> also models bounded sets of concurrent tasks, and
    \<open>Topology_Report\<close> the tables that the topology test prints.
  \<^item> \<open>Py_Bindings\<close>: \<^verbatim>\<open>py_bindings.rs\<close>: one function per method, and a step relation of the calls.

  \<^bold>\<open>State, time and concurrency.\<close> State is passed explicitly. The clocks, the datagrams sent, the spawned
  tasks and the one-shot channels are fields of \<open>protocol\<close>. Operations are atomic between the points
  where the code waits for a peer; what happens while it waits is the field \<open>ev_wait\<close> of the
  environment \<open>env\<close>. The step relation \<open>pr_step\<close> of a node receives any datagram from any address, runs
  any spawned task and advances the clocks, and lets any number of such steps happen during a wait.
  The server's operations run in any environment that keeps the invariant of the node (\<open>calm\<close>) and keep it
  themselves (\<open>sv_step\<close>). The iteration order of a hash map is an argument, any permutation of its entries.
  Concurrent calls of one round run in list order. Calls to blocking threads run in place.

  \<^bold>\<open>What is shown.\<close>
  \<^item> Routing: the buckets of every reachable table partition the identifier space and respect k; adding,
    removing and evicting contacts, and the neighbour search, do what they promise; insertion ends
    unless k contacts share the local folded identifier, and then it does not.
  \<^item> Lookups: they always end, query no peer twice, and return the closest nodes or a value with the most votes.
  \<^item> Transport: fragments reassemble in any order; a request is dispatched exactly once; a call gets the first
    response with its number; the receive loop loses and duplicates nothing; the size limits do not agree at
    their boundary. Between two nodes, an acknowledged record is found by every later lookup.
  \<^item> Records: whatever datagrams arrive, every stored record was accepted by a signature check, and the store
    changes only on authority of the record it replaces; what the server hands out was verified; updates
    and deletions are published exactly when authorised; every operation of the server returns.
  \<^item> Refinement: a node implements the ledger in every run; a Python program drives exactly the Rust server. The
    server itself does not implement the ledger: the copy it keeps after a publication is written
    without a second look at the store.
  \<^item> Types: a request is answered by a well-formed response of its own kind.
  \<^item> Programs: the record builders agree and their records pass through publication, rotation and deletion; the node
    program, the topology test and the benchmark end with what they claim; the victim ends exactly when a
    peer appears; tampered records are refused; the placement check, the replication summary and the percentiles are right.
  \<^item> Storage, keys, registry, addresses: read after write, round trips of keys and signatures, agreement
    of registry and factories, and which peer addresses can be called.
  \<^item> Some properties record where the code departs from its documentation or intent: lossy folding of
    identifiers, deletion authorised by the record itself, the cache shared by both kinds of record,
    senders banned by an identifier nobody authenticates, and an invalid record that blocks its key.

  \<^bold>\<open>Bounds and partiality.\<close> There is no fuel. Functions that may not return (\<open>rt_insert\<close>, \<open>node_find\<close>,
  \<open>value_find\<close>, \<open>await_attacker\<close>) are partial functions into \<open>option\<close>, and when they return is proved. Message and fragment numbers,
  strike counters and reassembly counts keep their machine width. Identifiers are byte lists whose length
  20 is an invariant. Buffer sizes and limits are those of the sources.

  \<^bold>\<open>Parameters.\<close> Code that is not part of the repository is an argument: SHA-1 and SHA-256, the serialiser
  and the lookup of the cache (\<open>net_lib\<close>, with \<open>lib_ok\<close>: decoded identifiers have 20 bytes, and the cache
  returns only what was inserted), the cryptographic crates (\<open>crypto_lib\<close>, \<open>key_lib\<close>), JSON and base64
  (\<open>auth_lib\<close>, \<open>doc_lib\<close>), the random numbers and the success of sending (\<open>env\<close>). The issuer's key file is
  read at each check in the code; its content is an argument that stays fixed during a run.

  The key pairs and UUIDs of the programs, the order in which concurrent tasks finish and their latencies are
  arguments as well (\<open>generator\<close>, \<open>tasks\<close>). Percentiles are computed with whole numbers, which agrees with the
  floating-point code for fewer than \<open>2 ^ 46\<close> samples.

  \<^bold>\<open>Not modelled.\<close> Logging and error texts, the bytes of the state file, task scheduling and aborting (workers
  handle a datagram without interleaving except where they wait), averages, deviations and other
  floating-point summaries of the measuring programs, headings and messages of progress, the set-up of the runtimes in \<open>main\<close> and \<open>init_runtime\<close>, and the registration of the Python module.
\<close>

end
